(* ===== verification/Prelude.thy ===== *)
theory Prelude
  imports Main "HOL-Library.Word" "HOL-Library.Char_ord" "HOL-Library.List_Lexorder"
begin

text \<open>
  What the components share: the integer widths of the source, its result type, the string
  operations of the Rust standard library that the source calls (a \<open>str\<close> is its UTF-8 bytes, one
  \<^typ>\<open>char\<close> per byte, so \<open>len()\<close> is \<^term>\<open>length\<close> and \<open>Ord\<close> is the lexicographic order
  of the bytes), decimal printing and parsing, and generic lemmas on lists.
\<close>

section \<open>Collections of facts\<close>

named_theorems omap_simps \<open>rewrite rules of the ordered-map operations\<close>
named_theorems inv_intros \<open>an operation preserves its component's invariant\<close>
named_theorems str_simps \<open>rewrite rules of the string operations\<close>

section \<open>Types\<close>

type_synonym u64 = "64 word"
type_synonym u32 = "32 word"
type_synonym bytes = string
type_synonym ('e, 'a) result = "'e + 'a"

abbreviation Ok :: "'a \<Rightarrow> ('e, 'a) result" where
  "Ok \<equiv> Inr"

abbreviation Err :: "'e \<Rightarrow> ('e, 'a) result" where
  "Err \<equiv> Inl"

text \<open>The \<open>?\<close> operator: an error returns at once, a value continues.\<close>

definition and_then :: "('e, 'a) result \<Rightarrow> ('a \<Rightarrow> ('e, 'b) result) \<Rightarrow> ('e, 'b) result" where
  "and_then r f = (case r of Inl e \<Rightarrow> Inl e | Inr x \<Rightarrow> f x)"

lemma and_then_simps [simp]:
  "and_then (Inl e) f = Inl e"
  "and_then (Inr x) f = f x"
  by (simp_all add: and_then_def)

lemma and_then_Ok_iff:
  "and_then r f = Inr y \<longleftrightarrow> (\<exists>x. r = Inr x \<and> f x = Inr y)"
  by (cases r) simp_all

text \<open>A \<open>for\<close> loop whose body may return an error: the first error ends it.\<close>

fun try_fold :: "('s \<Rightarrow> 'a \<Rightarrow> ('e, 's) result) \<Rightarrow> 's \<Rightarrow> 'a list \<Rightarrow> ('e, 's) result" where
  "try_fold f s [] = Inr s"
| "try_fold f s (x # xs) = (case f s x of Inl e \<Rightarrow> Inl e | Inr s' \<Rightarrow> try_fold f s' xs)"

lemma try_fold_append:
  "try_fold f s (xs @ ys) = (case try_fold f s xs of Inl e \<Rightarrow> Inl e | Inr s' \<Rightarrow> try_fold f s' ys)"
  by (induction xs arbitrary: s) (auto split: sum.splits)

lemma try_fold_invariant:
  assumes "try_fold f s xs = Inr s'" "P s"
    and "\<And>s x s'. \<lbrakk>x \<in> set xs; P s; f s x = Inr s'\<rbrakk> \<Longrightarrow> P s'"
  shows "P s'"
  using assms
proof (induction xs arbitrary: s)
  case (Cons x xs)
  then obtain s1 where s1: "f s x = Inr s1" "try_fold f s1 xs = Inr s'"
    by (auto split: sum.splits)
  with Cons.prems have "P s1" by auto
  with s1 Cons show ?case by auto
qed auto

section \<open>Widths\<close>

definition u64_mod :: nat where
  "u64_mod = 2 ^ 64"

definition u64_max :: nat where
  "u64_max = 2 ^ 64 - 1"

definition sat_add64 :: "nat \<Rightarrow> nat \<Rightarrow> nat" where
  "sat_add64 a b = min (a + b) u64_max"

lemma u64_mod_pos [simp]: "0 < u64_mod"
  by (simp add: u64_mod_def)

lemma u64_max_less: "n \<le> u64_max \<longleftrightarrow> n < u64_mod"
  by (auto simp: u64_max_def u64_mod_def)

lemma sat_add64_le [simp]: "sat_add64 a b \<le> u64_max"
  by (simp add: sat_add64_def)

section \<open>Strings\<close>

fun strip_prefix :: "'a list \<Rightarrow> 'a list \<Rightarrow> 'a list option" where
  "strip_prefix [] s = Some s"
| "strip_prefix (p # ps) [] = None"
| "strip_prefix (p # ps) (c # s) = (if p = c then strip_prefix ps s else None)"

definition starts_with :: "'a list \<Rightarrow> 'a list \<Rightarrow> bool" where
  "starts_with s p = (strip_prefix p s \<noteq> None)"

definition strip_suffix :: "'a list \<Rightarrow> 'a list \<Rightarrow> 'a list option" where
  "strip_suffix p s = map_option rev (strip_prefix (rev p) (rev s))"

definition ends_with :: "'a list \<Rightarrow> 'a list \<Rightarrow> bool" where
  "ends_with s p = (strip_suffix p s \<noteq> None)"

lemma strip_prefix_Some [str_simps]: "strip_prefix p s = Some r \<longleftrightarrow> s = p @ r"
  by (induction p s rule: strip_prefix.induct) auto

lemma strip_prefix_append [simp]: "strip_prefix p (p @ r) = Some r"
  by (simp add: strip_prefix_Some)

lemma starts_with_iff [str_simps]: "starts_with s p \<longleftrightarrow> (\<exists>r. s = p @ r)"
  by (auto simp: starts_with_def strip_prefix_Some)

lemma strip_suffix_Some [str_simps]: "strip_suffix p s = Some r \<longleftrightarrow> s = r @ p"
proof -
  have "strip_suffix p s = Some r \<longleftrightarrow> strip_prefix (rev p) (rev s) = Some (rev r)"
    by (auto simp: strip_suffix_def)
  also have "\<dots> \<longleftrightarrow> rev s = rev (r @ p)"
    by (simp add: strip_prefix_Some)
  finally show ?thesis by (simp only: rev_is_rev_conv)
qed

lemma ends_with_iff [str_simps]: "ends_with s p \<longleftrightarrow> (\<exists>r. s = r @ p)"
  by (auto simp: ends_with_def strip_suffix_Some)

text \<open>
  The characters \<open>char::is_whitespace\<close> accepts (the Unicode White\_Space property), each as its
  UTF-8 bytes.
\<close>

definition white_space :: "string list" where
  "white_space =
     map (\<lambda>n. [char_of n]) [0x09, 0x0A, 0x0B, 0x0C, 0x0D, 0x20 :: nat] @
     map (map char_of)
       ([[0xC2, 0x85], [0xC2, 0xA0], [0xE1, 0x9A, 0x80]] @
        map (\<lambda>n. [0xE2, 0x80, n]) [0x80, 0x81, 0x82, 0x83, 0x84, 0x85, 0x86, 0x87, 0x88, 0x89, 0x8A] @
        [[0xE2, 0x80, 0xA8], [0xE2, 0x80, 0xA9], [0xE2, 0x80, 0xAF], [0xE2, 0x81, 0x9F],
         [0xE3, 0x80, 0x80 :: nat]])"

fun strip_one_of :: "string list \<Rightarrow> string \<Rightarrow> string option" where
  "strip_one_of [] s = None"
| "strip_one_of (w # ws) s =
     (if w = [] then strip_one_of ws s
      else case strip_prefix w s of Some r \<Rightarrow> Some r | None \<Rightarrow> strip_one_of ws s)"

lemma strip_one_of_length: "strip_one_of ws s = Some r \<Longrightarrow> length r < length s"
  by (induction ws) (auto simp: strip_prefix_Some split: if_splits option.splits)

function strip_all :: "string list \<Rightarrow> string \<Rightarrow> string" where
  "strip_all ws s = (case strip_one_of ws s of None \<Rightarrow> s | Some r \<Rightarrow> strip_all ws r)"
  by pat_completeness auto
termination
  by (relation "measure (\<lambda>(ws, s). length s)") (auto dest: strip_one_of_length)

declare strip_all.simps [simp del]

definition trim_start :: "string \<Rightarrow> string" where
  "trim_start s = strip_all white_space s"

definition trim_end :: "string \<Rightarrow> string" where
  "trim_end s = rev (strip_all (map rev white_space) (rev s))"

definition trim :: "string \<Rightarrow> string" where
  "trim s = trim_end (trim_start s)"

lemma strip_one_of_None: "strip_one_of ws s = None \<longleftrightarrow> (\<forall>w \<in> set ws. w = [] \<or> \<not> starts_with s w)"
  by (induction ws) (auto simp: starts_with_def split: option.splits)

lemma strip_one_of_suffix: "strip_one_of ws s = Some r \<Longrightarrow> \<exists>p. s = p @ r"
  by (induction ws) (auto simp: strip_prefix_Some split: if_splits option.splits)

lemma strip_all_suffix: "\<exists>p. s = p @ strip_all ws s"
proof (induction ws s rule: strip_all.induct)
  case (1 ws s)
  show ?case
  proof (cases "strip_one_of ws s")
    case None
    then show ?thesis by (subst strip_all.simps) simp
  next
    case (Some r)
    from strip_one_of_suffix [OF this] obtain p where "s = p @ r" by blast
    moreover from 1 [OF Some] obtain q where "r = q @ strip_all ws r" by blast
    ultimately have "s = (p @ q) @ strip_all ws s"
      using Some by (subst strip_all.simps) simp
    then show ?thesis ..
  qed
qed

lemma strip_all_done: "strip_one_of ws (strip_all ws s) = None"
proof (induction ws s rule: strip_all.induct)
  case (1 ws s)
  then show ?case by (cases "strip_one_of ws s") (simp_all add: strip_all.simps [of ws s])
qed

lemma strip_all_id: "strip_one_of ws s = None \<Longrightarrow> strip_all ws s = s"
  by (subst strip_all.simps) simp

lemma trim_idem [simp]: "trim (trim s) = trim s"
proof -
  let ?t = "trim_start s"
  obtain p where "rev ?t = p @ strip_all (map rev white_space) (rev ?t)"
    using strip_all_suffix by blast
  then have pre: "?t = trim s @ rev p"
    by (metis rev_append rev_rev_ident trim_def trim_end_def)
  have "strip_one_of white_space ?t = None"
    by (simp add: trim_start_def strip_all_done)
  then have "strip_one_of white_space (trim s) = None"
    unfolding strip_one_of_None starts_with_iff by (subst (asm) pre) force
  then have "trim_start (trim s) = trim s"
    by (simp add: trim_start_def strip_all_id)
  moreover have "trim_end (trim s) = trim s"
    by (simp add: trim_def trim_end_def strip_all_id strip_all_done)
  ultimately show ?thesis by (simp add: trim_def [of "trim s"])
qed

definition to_ascii_lowercase :: "string \<Rightarrow> string" where
  "to_ascii_lowercase =
     map (\<lambda>c. if 65 \<le> (of_char c :: nat) \<and> (of_char c :: nat) \<le> 90 then char_of (of_char c + 32 :: nat) else c)"

definition eq_ignore_ascii_case :: "string \<Rightarrow> string \<Rightarrow> bool" where
  "eq_ignore_ascii_case s t = (to_ascii_lowercase s = to_ascii_lowercase t)"

text \<open>\<open>str::split\<close> on one character: always at least one piece.\<close>

fun split_on :: "'a \<Rightarrow> 'a list \<Rightarrow> 'a list list" where
  "split_on c [] = [[]]"
| "split_on c (x # xs) =
     (if x = c then [] # split_on c xs
      else case split_on c xs of [] \<Rightarrow> [[x]] | p # ps \<Rightarrow> (x # p) # ps)"

lemma split_on_not_Nil [simp]: "split_on c s \<noteq> []"
  by (induction s) (auto split: list.splits)

lemma split_on_no_sep: "c \<notin> set s \<Longrightarrow> split_on c s = [s]"
  by (induction s) auto

lemma split_on_append_sep:
  "c \<notin> set p \<Longrightarrow> split_on c (p @ c # s) = p # split_on c s"
  by (induction p) auto

text \<open>\<open>chars().count()\<close>: the bytes of UTF-8 text that do not continue a character.\<close>

definition char_count :: "string \<Rightarrow> nat" where
  "char_count s = length (filter (\<lambda>c. \<not> (0x80 \<le> (of_char c :: nat) \<and> (of_char c :: nat) < 0xC0)) s)"

lemma char_count_le: "char_count s \<le> length s"
  by (simp add: char_count_def)

end
