(* ===== verification/Ordered_Map.thy ===== *)
theory Ordered_Map
  imports Prelude
begin

text \<open>
  The ordered map of the Rust standard library (\<open>BTreeMap\<close>) as a strictly sorted association list:
  one representation per map, so equality of maps is equality of lists and iteration is in key
  order, as in the source. The \<open>HashMap\<close>s whose iteration order the source does not observe use it
  too. The locale \<open>ordered_map\<close> is the interface the clients rely on; \<open>om_\<close> interprets it.
\<close>

type_synonym ('k, 'v) omap = "('k \<times> 'v) list"

section \<open>Operations\<close>

definition om_inv :: "('k::linorder, 'v) omap \<Rightarrow> bool" where
  "om_inv m = sorted_wrt (<) (map fst m)"

fun om_get :: "('k::linorder, 'v) omap \<Rightarrow> 'k \<Rightarrow> 'v option" where
  "om_get [] k = None"
| "om_get ((k', v) # m) k = (if k' = k then Some v else om_get m k)"

fun om_insert :: "'k::linorder \<Rightarrow> 'v \<Rightarrow> ('k, 'v) omap \<Rightarrow> ('k, 'v) omap" where
  "om_insert k v [] = [(k, v)]"
| "om_insert k v ((k', v') # m) =
     (if k < k' then (k, v) # (k', v') # m
      else if k = k' then (k, v) # m
      else (k', v') # om_insert k v m)"

definition om_retain :: "('k \<Rightarrow> 'v \<Rightarrow> bool) \<Rightarrow> ('k::linorder, 'v) omap \<Rightarrow> ('k, 'v) omap" where
  "om_retain p m = filter (\<lambda>(k, v). p k v) m"

definition om_remove :: "'k::linorder \<Rightarrow> ('k, 'v) omap \<Rightarrow> ('k, 'v) omap" where
  "om_remove k m = om_retain (\<lambda>k' _. k' \<noteq> k) m"

definition om_map :: "('k \<Rightarrow> 'v \<Rightarrow> 'w) \<Rightarrow> ('k::linorder, 'v) omap \<Rightarrow> ('k, 'w) omap" where
  "om_map f m = map (\<lambda>(k, v). (k, f k v)) m"

text \<open>\<open>range(k..).next()\<close> and \<open>iter().next()\<close>.\<close>

definition om_first_from :: "'k::linorder \<Rightarrow> ('k, 'v) omap \<Rightarrow> ('k \<times> 'v) option" where
  "om_first_from k m = find (\<lambda>(k', _). k \<le> k') m"

definition om_first :: "('k::linorder, 'v) omap \<Rightarrow> ('k \<times> 'v) option" where
  "om_first m = (case m of [] \<Rightarrow> None | e # _ \<Rightarrow> Some e)"

definition om_keys :: "('k::linorder, 'v) omap \<Rightarrow> 'k list" where
  "om_keys m = map fst m"

section \<open>Laws\<close>

lemma om_inv_Nil [simp, inv_intros]: "om_inv []"
  by (simp add: om_inv_def)

lemma om_keys_simps [simp]:
  "om_keys [] = []"
  "om_keys ((k, v) # m) = k # om_keys m"
  by (simp_all add: om_keys_def)

lemma om_inv_Cons: "om_inv ((k, v) # m) \<longleftrightarrow> (\<forall>k' \<in> set (om_keys m). k < k') \<and> om_inv m"
  by (auto simp: om_inv_def om_keys_def)

lemma om_get_None_iff: "om_get m k = None \<longleftrightarrow> k \<notin> set (om_keys m)"
  by (induction m k rule: om_get.induct) (auto simp: om_keys_def)

lemma om_get_key: "om_get m k = Some v \<Longrightarrow> k \<in> set (om_keys m)"
  by (rule ccontr) (simp add: om_get_None_iff [symmetric])

lemma om_get_Some_in: "om_get m k = Some v \<Longrightarrow> (k, v) \<in> set m"
  by (induction m k rule: om_get.induct) (auto split: if_splits)

lemma om_get_iff: "om_inv m \<Longrightarrow> om_get m k = Some v \<longleftrightarrow> (k, v) \<in> set m"
  by (induction m k rule: om_get.induct) (force simp: om_inv_Cons om_keys_def)+

lemma om_keys_insert [simp]: "set (om_keys (om_insert k v m)) = insert k (set (om_keys m))"
  by (induction k v m rule: om_insert.induct) (auto simp: om_keys_def)

lemma om_inv_insert [simp, inv_intros]: "om_inv m \<Longrightarrow> om_inv (om_insert k v m)"
proof (induction k v m rule: om_insert.induct)
  case (2 k v k' v' m)
  then show ?case
    by (cases "k < k'"; cases "k = k'") (auto simp: om_inv_Cons)
qed (simp add: om_inv_Cons)

lemma om_get_insert [simp, omap_simps]:
  "om_inv m \<Longrightarrow> om_get (om_insert k v m) k' = (if k' = k then Some v else om_get m k')"
proof (induction k v m rule: om_insert.induct)
  case (2 k v k0 v0 m)
  have "k < k0 \<Longrightarrow> om_get m k = None"
    using 2 by (auto simp: om_inv_Cons om_get_None_iff)
  with 2 show ?case by (auto simp: om_inv_Cons om_keys_def)
qed simp

lemma om_inv_retain [simp, inv_intros]: "om_inv m \<Longrightarrow> om_inv (om_retain p m)"
  by (induction m) (auto simp: om_inv_Cons om_retain_def om_keys_def)

lemma om_get_retain [simp, omap_simps]:
  "om_inv m \<Longrightarrow> om_get (om_retain p m) k = (case om_get m k of None \<Rightarrow> None | Some v \<Rightarrow> if p k v then Some v else None)"
proof (induction m)
  case (Cons e m)
  obtain k0 v0 where e: "e = (k0, v0)" by (cases e)
  have "k0 = k \<Longrightarrow> om_get m k = None"
    using Cons.prems by (auto simp: e om_inv_Cons om_get_None_iff)
  with Cons e show ?case by (auto simp: om_inv_Cons om_retain_def split: option.splits)
qed (simp add: om_retain_def)

lemma om_inv_remove [simp, inv_intros]: "om_inv m \<Longrightarrow> om_inv (om_remove k m)"
  by (simp add: om_remove_def)

lemma om_get_remove [simp, omap_simps]:
  "om_inv m \<Longrightarrow> om_get (om_remove k m) k' = (if k' = k then None else om_get m k')"
  by (auto simp: om_remove_def split: option.splits)

lemma om_keys_map [simp]: "om_keys (om_map f m) = om_keys m"
  by (induction m) (auto simp: om_map_def om_keys_def)

lemma om_inv_map [simp, inv_intros]: "om_inv (om_map f m) = om_inv m"
  using om_keys_map [of f m] by (simp add: om_inv_def om_keys_def)

lemma om_get_map [simp, omap_simps]: "om_get (om_map f m) k = map_option (f k) (om_get m k)"
  by (induction m k rule: om_get.induct) (auto simp: om_map_def)

lemma om_get_below: "\<lbrakk>om_inv ((k, v) # m); x < k\<rbrakk> \<Longrightarrow> om_get ((k, v) # m) x = None"
  by (auto simp: om_inv_Cons om_get_None_iff)

lemma om_get_tail: "om_inv ((k, v) # m) \<Longrightarrow> om_get m k = None"
  by (auto simp: om_inv_Cons om_get_None_iff)

lemma om_ext:
  assumes "om_inv m" "om_inv m'" "\<And>k. om_get m k = om_get m' k"
  shows "m = m'"
  using assms
proof (induction m arbitrary: m')
  case Nil
  then show ?case by (cases m') (force split: if_splits)+
next
  case (Cons e m)
  obtain k v where e: "e = (k, v)" by (cases e)
  from Cons.prems(3) [of k] obtain k1 v1 m1 where m': "m' = (k1, v1) # m1"
    by (cases m') (auto simp: e)
  have "k = k1"
    using om_get_below [of k v m k1] om_get_below [of k1 v1 m1 k] Cons.prems
    by (force simp: e m' dest: spec [of _ k] spec [of _ k1])
  moreover from this Cons.prems(3) [of k] have "v = v1" by (simp add: e m')
  moreover have "om_get m x = om_get m1 x" for x
    using Cons.prems(3) [of x] om_get_tail [of k v m] om_get_tail [of k1 v1 m1] Cons.prems(1,2) \<open>k = k1\<close>
    by (auto simp: e m' split: if_splits)
  ultimately show ?case
    using Cons.IH [of m1] Cons.prems(1,2) by (simp add: e m' om_inv_Cons)
qed

section \<open>The interface\<close>

text \<open>
  What a client may rely on: lookups after each update, that updates keep the representation
  invariant, and that the cursor operations return the least key of their range.
\<close>

locale ordered_map =
  fixes inv :: "'m \<Rightarrow> bool"
    and get :: "'m \<Rightarrow> 'k::linorder \<Rightarrow> 'v option"
    and ins :: "'k \<Rightarrow> 'v \<Rightarrow> 'm \<Rightarrow> 'm"
    and retain :: "('k \<Rightarrow> 'v \<Rightarrow> bool) \<Rightarrow> 'm \<Rightarrow> 'm"
    and first_from :: "'k \<Rightarrow> 'm \<Rightarrow> ('k \<times> 'v) option"
    and first :: "'m \<Rightarrow> ('k \<times> 'v) option"
  assumes inv_ins: "inv m \<Longrightarrow> inv (ins k v m)"
    and get_ins: "inv m \<Longrightarrow> get (ins k v m) k' = (if k' = k then Some v else get m k')"
    and inv_retain: "inv m \<Longrightarrow> inv (retain p m)"
    and get_retain: "inv m \<Longrightarrow> get (retain p m) k =
          (case get m k of None \<Rightarrow> None | Some v \<Rightarrow> if p k v then Some v else None)"
    and first_from_None: "inv m \<Longrightarrow> first_from k m = None \<longleftrightarrow> (\<forall>k'. k \<le> k' \<longrightarrow> get m k' = None)"
    and first_from_Some: "inv m \<Longrightarrow> first_from k m = Some (k', v) \<longleftrightarrow>
          get m k' = Some v \<and> k \<le> k' \<and> (\<forall>x. k \<le> x \<and> get m x \<noteq> None \<longrightarrow> k' \<le> x)"
    and first_None: "inv m \<Longrightarrow> first m = None \<longleftrightarrow> (\<forall>k'. get m k' = None)"
    and first_Some: "inv m \<Longrightarrow> first m = Some (k', v) \<longleftrightarrow>
          get m k' = Some v \<and> (\<forall>x. get m x \<noteq> None \<longrightarrow> k' \<le> x)"
begin

text \<open>Inserting one value under each key of a list, in order: the last insertion of a key wins.\<close>

lemma inv_ins_all: "inv m \<Longrightarrow> inv (fold (\<lambda>k. ins k v) ks m)"
  by (induction ks arbitrary: m) (simp_all add: inv_ins)

lemma get_ins_all:
  "inv m \<Longrightarrow> get (fold (\<lambda>k. ins k v) ks m) k = (if k \<in> set ks then Some v else get m k)"
  by (induction ks arbitrary: m) (auto simp: inv_ins get_ins)

end

lemma om_first_from_None:
  "om_inv m \<Longrightarrow> om_first_from k m = None \<longleftrightarrow> (\<forall>k'. k \<le> k' \<longrightarrow> om_get m k' = None)"
  by (force simp: om_first_from_def find_None_iff om_get_None_iff om_keys_def)

lemma om_first_from_Some:
  "om_inv m \<Longrightarrow> om_first_from k m = Some (k', v) \<longleftrightarrow>
     om_get m k' = Some v \<and> k \<le> k' \<and> (\<forall>x. k \<le> x \<and> om_get m x \<noteq> None \<longrightarrow> k' \<le> x)"
proof (induction m)
  case (Cons e m)
  obtain k0 v0 where e: "e = (k0, v0)" by (cases e)
  have tl: "om_get m k0 = None" and lt: "om_get m x \<noteq> None \<Longrightarrow> k0 < x" for x
    using Cons.prems by (auto simp: e om_inv_Cons om_get_None_iff)
  show ?case
  proof (cases "k \<le> k0")
    case True
    then have "om_first_from k (e # m) = Some (k0, v0)" by (simp add: om_first_from_def e)
    with True show ?thesis
      using lt by (auto simp: e split: if_splits) (metis leD less_le option.distinct(1))+
  next
    case False
    then have "om_first_from k (e # m) = om_first_from k m" by (simp add: om_first_from_def e)
    with False Cons show ?thesis by (auto simp: e om_inv_Cons)
  qed
qed (simp add: om_first_from_def)

lemma om_first_None: "om_inv m \<Longrightarrow> om_first m = None \<longleftrightarrow> (\<forall>k'. om_get m k' = None)"
  by (cases m) (force simp: om_first_def)+

lemma om_first_Some:
  assumes "om_inv m"
  shows "om_first m = Some (k', v) \<longleftrightarrow>
    om_get m k' = Some v \<and> (\<forall>x. om_get m x \<noteq> None \<longrightarrow> k' \<le> x)"
proof (cases m)
  case (Cons e m1)
  obtain k0 v0 where e: "e = (k0, v0)" by (cases e)
  have lt: "om_get m1 x \<noteq> None \<Longrightarrow> k0 < x" for x
    using assms by (auto simp: e Cons om_inv_Cons om_get_None_iff)
  have nle: "om_get m1 k' = Some v \<Longrightarrow> \<not> k' \<le> k0"
    using lt [of k'] by simp
  show ?thesis
  proof (cases "k' = k0")
    case True
    then show ?thesis
      using lt by (auto simp: om_first_def e Cons intro: less_imp_le split: if_splits)
  next
    case False
    with nle show ?thesis
      by (auto simp: om_first_def e Cons dest!: spec [of _ k0])
  qed
qed (simp add: om_first_def)

interpretation om: ordered_map om_inv om_get om_insert om_retain om_first_from om_first
  by unfold_locales
     (simp_all add: om_first_from_None om_first_from_Some om_first_None om_first_Some)

end
