(* ===== verification/Cluster_Ring.thy ===== *)
theory Cluster_Ring
  imports Ordered_Map
begin

text \<open>
  Node identities and the consistent hash ring (\<open>cluster/src/lib.rs\<close>). A UUID is its 128 bits; XXH3
  is a parameter, a function from the bytes hashed to 64 bits. The ring is the ordered map from
  tokens to node ids that the source keeps, and a lookup is the cursor walk it performs.
\<close>

unbundle bit_operations_syntax

type_synonym uuid = "128 word"

section \<open>Identities\<close>

definition VNODE_COUNT :: nat where
  "VNODE_COUNT = 256"

record node_identity =
  ni_uuid :: uuid
  ni_name :: string
  ni_vnode_tokens :: "u64 list"
  ni_keypair :: "bytes option"

definition uuid_as_bytes :: "uuid \<Rightarrow> bytes" where
  "uuid_as_bytes u = map (\<lambda>i. char_of (unat (drop_bit (8 * (15 - i)) u))) [0..<16]"

definition base36_digit :: "nat \<Rightarrow> char" where
  "base36_digit d = (if d \<le> 9 then char_of (48 + d) else char_of (65 + (d - 10)))"

text \<open>The digits are pushed least significant first and read back reversed.\<close>

fun base36_digits :: "nat \<Rightarrow> string" where
  "base36_digits n = (if n = 0 then [] else base36_digit (n mod 36) # base36_digits (n div 36))"

declare base36_digits.simps [simp del]

definition to_base36 :: "nat \<Rightarrow> string" where
  "to_base36 n = (if n = 0 then ''0'' else rev (base36_digits n))"

function pad_front :: "nat \<Rightarrow> string \<Rightarrow> string" where
  "pad_front k s = (if length s < k then pad_front k (CHR ''0'' # s) else s)"
  by pat_completeness auto
termination
  by (relation "measure (\<lambda>(k, s). k - length s)") auto

declare pad_front.simps [simp del]

definition humanize_uuid :: "uuid \<Rightarrow> string" where
  "humanize_uuid u =
     (let bs = uuid_as_bytes u;
          pre = 256 * of_char (bs ! 0) + of_char (bs ! 1)
      in pad_front 3 (to_base36 pre))"

definition be32_bytes :: "nat \<Rightarrow> bytes" where
  "be32_bytes n = map (\<lambda>i. char_of (n div 256 ^ (3 - i))) [0..<4]"

definition generate_tokens :: "(bytes \<Rightarrow> u64) \<Rightarrow> uuid \<Rightarrow> u64 list" where
  "generate_tokens xxh3 u = map (\<lambda>i. xxh3 (uuid_as_bytes u @ be32_bytes i)) [0..<VNODE_COUNT]"

text \<open>\<open>NodeIdentity::new\<close> and \<open>from_peer_id_bytes\<close> differ in where the UUID comes from only.\<close>

definition identity_of_uuid :: "(bytes \<Rightarrow> u64) \<Rightarrow> uuid \<Rightarrow> node_identity" where
  "identity_of_uuid xxh3 u =
     \<lparr>ni_uuid = u, ni_name = humanize_uuid u, ni_vnode_tokens = generate_tokens xxh3 u,
      ni_keypair = None\<rparr>"

section \<open>The ring\<close>

record consistent_ring =
  cr_ring :: "(u64, uuid) omap"

definition ring_new :: consistent_ring where
  "ring_new = \<lparr>cr_ring = []\<rparr>"

definition add_node :: "node_identity \<Rightarrow> consistent_ring \<Rightarrow> consistent_ring" where
  "add_node n r = r\<lparr>cr_ring := fold (\<lambda>token. om_insert token (ni_uuid n)) (ni_vnode_tokens n) (cr_ring r)\<rparr>"

definition remove_node :: "uuid \<Rightarrow> consistent_ring \<Rightarrow> consistent_ring" where
  "remove_node node_id r = r\<lparr>cr_ring := om_retain (\<lambda>_ u. u \<noteq> node_id) (cr_ring r)\<rparr>"

definition ring_len :: "consistent_ring \<Rightarrow> nat" where
  "ring_len r = length (cr_ring r)"

definition ring_is_empty :: "consistent_ring \<Rightarrow> bool" where
  "ring_is_empty r = (cr_ring r = [])"

definition get_owner_with_hash :: "consistent_ring \<Rightarrow> u64 \<Rightarrow> uuid option" where
  "get_owner_with_hash r h =
     (if cr_ring r = [] then None
      else case om_first_from h (cr_ring r) of
             Some (_, u) \<Rightarrow> Some u
           | None \<Rightarrow> map_option snd (om_first (cr_ring r)))"

definition hash_key :: "(bytes \<Rightarrow> u64) \<Rightarrow> bytes \<Rightarrow> u64" where
  "hash_key xxh3 bs = xxh3 bs"

definition get_owner :: "(bytes \<Rightarrow> u64) \<Rightarrow> consistent_ring \<Rightarrow> string \<Rightarrow> uuid option" where
  "get_owner xxh3 r key = get_owner_with_hash r (hash_key xxh3 key)"

section \<open>The invariant\<close>

definition ring_inv :: "consistent_ring \<Rightarrow> bool" where
  "ring_inv r = om_inv (cr_ring r)"

definition members :: "consistent_ring \<Rightarrow> uuid set" where
  "members r = snd ` set (cr_ring r)"

lemma ring_inv_new [simp, inv_intros]: "ring_inv ring_new"
  by (simp add: ring_inv_def ring_new_def)

lemma ring_inv_add [simp, inv_intros]: "ring_inv r \<Longrightarrow> ring_inv (add_node n r)"
  by (simp add: ring_inv_def add_node_def om.inv_ins_all)

lemma ring_inv_remove [simp, inv_intros]: "ring_inv r \<Longrightarrow> ring_inv (remove_node u r)"
  by (simp add: ring_inv_def remove_node_def)

lemma members_iff: "ring_inv r \<Longrightarrow> u \<in> members r \<longleftrightarrow> (\<exists>t. om_get (cr_ring r) t = Some u)"
  by (force simp: members_def ring_inv_def om_get_iff)

lemma get_add_node:
  "ring_inv r \<Longrightarrow> om_get (cr_ring (add_node n r)) t =
     (if t \<in> set (ni_vnode_tokens n) then Some (ni_uuid n) else om_get (cr_ring r) t)"
  by (simp add: ring_inv_def add_node_def om.get_ins_all)

lemma get_remove_node:
  "ring_inv r \<Longrightarrow> om_get (cr_ring (remove_node u r)) t =
     (case om_get (cr_ring r) t of None \<Rightarrow> None | Some v \<Rightarrow> if v = u then None else Some v)"
  by (auto simp: ring_inv_def remove_node_def split: option.splits)

lemma get_remove_node_Some:
  "ring_inv r \<Longrightarrow> om_get (cr_ring (remove_node u r)) t = Some v \<longleftrightarrow> om_get (cr_ring r) t = Some v \<and> v \<noteq> u"
  by (auto simp: get_remove_node split: option.splits if_splits)

section \<open>Lookup is the clockwise successor\<close>

text \<open>
  The reference definition: with the distance from the hash to a token measured clockwise, that is
  as the 64-bit difference that wraps around, the owner is the node at the nearest token.
\<close>

definition nearest_token :: "consistent_ring \<Rightarrow> u64 \<Rightarrow> u64 \<Rightarrow> bool" where
  "nearest_token r h t \<longleftrightarrow>
     om_get (cr_ring r) t \<noteq> None \<and> (\<forall>t'. om_get (cr_ring r) t' \<noteq> None \<longrightarrow> t - h \<le> t' - h)"

lemma clockwise_le_iff:
  fixes h s t :: u64
  shows "s - h \<le> t - h \<longleftrightarrow> (if h \<le> s then h \<le> t \<longrightarrow> s \<le> t else \<not> h \<le> t \<and> s \<le> t)"
  using unsigned_less [of s, where 'a = nat] unsigned_less [of t, where 'a = nat]
    unsigned_less [of h, where 'a = nat]
  by (auto simp: word_le_nat_alt unat_sub_if')

lemma nearest_token_unique:
  assumes "nearest_token r h s" "nearest_token r h t"
  shows "s = t"
proof -
  have "s - h = t - h"
    using assms by (simp add: nearest_token_def order_antisym)
  then show ?thesis by simp
qed

lemma owner_at_nearest:
  assumes "ring_inv r"
  shows "get_owner_with_hash r h = Some u \<longleftrightarrow>
    (\<exists>t. nearest_token r h t \<and> om_get (cr_ring r) t = Some u)" (is "?L \<longleftrightarrow> ?R")
proof -
  let ?m = "cr_ring r"
  have inv: "om_inv ?m" using assms by (simp add: ring_inv_def)
  have near: "om_get ?m t = Some v \<Longrightarrow> nearest_token r h t \<Longrightarrow> get_owner_with_hash r h = Some v" for t v
  proof -
    assume t: "om_get ?m t = Some v" "nearest_token r h t"
    then have ne: "?m \<noteq> []" by auto
    show ?thesis
    proof (cases "h \<le> t")
      case True
      with t have "om_first_from h ?m = Some (t, v)"
        by (simp add: om_first_from_Some [OF inv] nearest_token_def clockwise_le_iff)
      with ne show ?thesis by (simp add: get_owner_with_hash_def)
    next
      case False
      with t have "om_first_from h ?m = None" "om_first ?m = Some (t, v)"
        by (auto simp: om_first_from_None [OF inv] om_first_Some [OF inv] nearest_token_def clockwise_le_iff)
      with ne show ?thesis by (simp add: get_owner_with_hash_def)
    qed
  qed
  have ex: "\<exists>t. nearest_token r h t" if own: "get_owner_with_hash r h \<noteq> None"
  proof (cases "om_first_from h ?m")
    case None
    obtain t v where t: "om_first ?m = Some (t, v)"
      using own None by (cases "om_first ?m") (auto simp: get_owner_with_hash_def split: if_splits)
    have "nearest_token r h t"
      using t None by (auto simp: om_first_from_None [OF inv] om_first_Some [OF inv] nearest_token_def clockwise_le_iff)
    then show ?thesis ..
  next
    case (Some e)
    obtain t v where e: "e = (t, v)" by (cases e)
    have "nearest_token r h t"
      using Some by (auto simp: e om_first_from_Some [OF inv] nearest_token_def clockwise_le_iff)
    then show ?thesis ..
  qed
  show ?thesis
  proof
    assume L: ?L
    then obtain t where t: "nearest_token r h t" using ex by auto
    then obtain v where "om_get ?m t = Some v" by (auto simp: nearest_token_def)
    with near [OF this t] L t show ?R by auto
  next
    assume ?R
    then show ?L using near by auto
  qed
qed

lemma owner_None_iff: "ring_inv r \<Longrightarrow> get_owner_with_hash r h = None \<longleftrightarrow> ring_is_empty r"
  by (cases "om_first_from h (cr_ring r)"; cases "om_first (cr_ring r)")
     (auto simp: get_owner_with_hash_def ring_is_empty_def om_first_def split: list.splits)

section \<open>Adding and removing a node moves only its own keys\<close>

lemma owner_after_add:
  assumes "ring_inv r"
  shows "get_owner_with_hash (add_node n r) h \<in> {Some (ni_uuid n), get_owner_with_hash r h}"
proof (cases "get_owner_with_hash (add_node n r) h")
  case None
  then have "ring_is_empty (add_node n r)"
    using owner_None_iff [OF ring_inv_add [OF assms]] by simp
  then have "om_get (cr_ring r) t = None" for t
    using get_add_node [OF assms, of n t] by (auto simp: ring_is_empty_def split: if_splits)
  then have "ring_is_empty r"
    using assms om_first_None [of "cr_ring r"]
    by (auto simp: ring_inv_def ring_is_empty_def om_first_def split: list.splits)
  with None show ?thesis using owner_None_iff [OF assms] by simp
next
  case (Some u)
  then obtain t where t: "nearest_token (add_node n r) h t" "om_get (cr_ring (add_node n r)) t = Some u"
    using owner_at_nearest [OF ring_inv_add [OF assms]] by auto
  show ?thesis
  proof (cases "t \<in> set (ni_vnode_tokens n)")
    case True
    with t show ?thesis using Some by (simp add: get_add_node [OF assms])
  next
    case False
    with t have "nearest_token r h t" "om_get (cr_ring r) t = Some u"
      by (auto simp: get_add_node [OF assms] nearest_token_def)
    then have "get_owner_with_hash r h = Some u" using owner_at_nearest [OF assms] by blast
    with Some show ?thesis by simp
  qed
qed

lemma owner_after_remove:
  assumes "ring_inv r" "get_owner_with_hash r h \<noteq> Some u"
  shows "get_owner_with_hash (remove_node u r) h = get_owner_with_hash r h"
proof (cases "get_owner_with_hash r h")
  case None
  then have "ring_is_empty (remove_node u r)"
    using owner_None_iff [OF assms(1)] by (simp add: ring_is_empty_def remove_node_def om_retain_def)
  with None show ?thesis using owner_None_iff [OF ring_inv_remove [OF assms(1)]] by simp
next
  case (Some v)
  then obtain t where t: "nearest_token r h t" "om_get (cr_ring r) t = Some v"
    using owner_at_nearest [OF assms(1)] by auto
  with Some assms(2) have "om_get (cr_ring (remove_node u r)) t = Some v"
    by (simp add: get_remove_node [OF assms(1)])
  moreover from this t(1) have "nearest_token (remove_node u r) h t"
    by (auto simp: nearest_token_def get_remove_node [OF assms(1)] split: option.splits if_splits)
  ultimately show ?thesis
    using owner_at_nearest [OF ring_inv_remove [OF assms(1)]] Some by auto
qed

lemma members_add: "ring_inv r \<Longrightarrow> members (add_node n r) \<subseteq> insert (ni_uuid n) (members r)"
  by (auto simp: members_iff get_add_node split: if_splits)

lemma members_remove: "ring_inv r \<Longrightarrow> members (remove_node u r) = members r - {u}"
  by (auto simp: members_iff get_remove_node_Some)

lemma remove_after_add:
  assumes "ring_inv r" "ni_uuid n \<notin> members r"
    and "\<And>t. t \<in> set (ni_vnode_tokens n) \<Longrightarrow> om_get (cr_ring r) t = None"
  shows "remove_node (ni_uuid n) (add_node n r) = r"
proof -
  have "cr_ring (remove_node (ni_uuid n) (add_node n r)) = cr_ring r"
  proof (rule om_ext)
    fix t
    have "om_get (cr_ring r) t \<noteq> Some (ni_uuid n)"
      using assms by (auto simp: members_iff)
    then show "om_get (cr_ring (remove_node (ni_uuid n) (add_node n r))) t = om_get (cr_ring r) t"
      using assms by (auto simp: get_remove_node get_add_node split: option.splits)
  qed (use assms in \<open>simp_all add: ring_inv_def [symmetric]\<close>)
  then show ?thesis by (simp add: remove_node_def add_node_def)
qed

section \<open>Any history of joins and leaves\<close>

datatype ring_op = Join node_identity | Leave uuid

fun apply_ring_op :: "ring_op \<Rightarrow> consistent_ring \<Rightarrow> consistent_ring" where
  "apply_ring_op (Join n) r = add_node n r"
| "apply_ring_op (Leave u) r = remove_node u r"

definition ring_after :: "ring_op list \<Rightarrow> consistent_ring" where
  "ring_after ops = fold apply_ring_op ops ring_new"

lemma ring_inv_fold: "ring_inv r \<Longrightarrow> ring_inv (fold apply_ring_op ops r)"
proof (induction ops arbitrary: r)
  case (Cons op ops)
  then show ?case by (cases op) simp_all
qed simp

lemma ring_inv_after [simp]: "ring_inv (ring_after ops)"
  by (simp add: ring_after_def ring_inv_fold)

text \<open>
  C8: whatever nodes joined and left, a key's owner is the node holding the token nearest to the
  key's hash, going clockwise with 64-bit wrap-around; the first-token-at-or-after walk with its
  fall-back to the lowest token computes exactly that, and has no answer only on an empty ring.
\<close>

theorem owner_is_clockwise_nearest:
  "(get_owner xxh3 (ring_after ops) key = Some u \<longleftrightarrow>
      (\<exists>t. nearest_token (ring_after ops) (hash_key xxh3 key) t \<and>
           om_get (cr_ring (ring_after ops)) t = Some u)) \<and>
   (get_owner xxh3 (ring_after ops) key = None \<longleftrightarrow> ring_is_empty (ring_after ops))"
  by (simp add: get_owner_def owner_at_nearest owner_None_iff)

text \<open>
  C20: a topology change moves no key between the nodes that stay. After a join a key is owned by the
  joining node or by the node that owned it before; after a leave a key that changed its owner was
  owned by the node that left; and the node that left owns nothing.
\<close>

theorem topology_change_is_local:
  "get_owner xxh3 (add_node n (ring_after ops)) key
     \<in> {Some (ni_uuid n), get_owner xxh3 (ring_after ops) key} \<and>
   (get_owner xxh3 (remove_node u (ring_after ops)) key = get_owner xxh3 (ring_after ops) key \<or>
    get_owner xxh3 (ring_after ops) key = Some u) \<and>
   get_owner xxh3 (remove_node u (ring_after ops)) key \<noteq> Some u"
proof -
  let ?r = "ring_after ops"
  have "get_owner_with_hash (remove_node u ?r) h \<noteq> Some u" for h
    using owner_at_nearest [OF ring_inv_remove [OF ring_inv_after], of u ops h u]
    by (auto simp: get_remove_node_Some)
  then show ?thesis
    using owner_after_add [OF ring_inv_after, of n ops] owner_after_remove [OF ring_inv_after, of ops _ u]
    by (auto simp: get_owner_def)
qed

section \<open>Names\<close>

definition base36_value :: "char \<Rightarrow> nat" where
  "base36_value c = (if of_char c \<le> (57 :: nat) then of_char c - 48 else of_char c - 55)"

definition of_base36 :: "string \<Rightarrow> nat" where
  "of_base36 s = foldl (\<lambda>n c. 36 * n + base36_value c) 0 s"

lemma base36_value_digit: "d < 36 \<Longrightarrow> base36_value (base36_digit d) = d"
  by (auto simp: base36_value_def base36_digit_def)

lemma of_base36_append: "of_base36 (s @ [c]) = 36 * of_base36 s + base36_value c"
  by (simp add: of_base36_def)

lemma of_base36_digits: "of_base36 (rev (base36_digits n)) = n"
proof (induction n rule: base36_digits.induct)
  case (1 n)
  then show ?case
    by (subst base36_digits.simps) (auto simp: of_base36_append base36_value_digit of_base36_def)
qed

lemma of_base36_to_base36: "of_base36 (to_base36 n) = n"
  by (simp add: to_base36_def of_base36_digits) (simp add: of_base36_def base36_value_def)

lemma of_base36_pad: "of_base36 (pad_front k s) = of_base36 s"
proof (induction k s rule: pad_front.induct)
  case (1 k s)
  then show ?case
    by (subst pad_front.simps) (auto simp: of_base36_def base36_value_def)
qed

lemma length_pad_front: "length (pad_front k s) = max k (length s)"
proof (induction k s rule: pad_front.induct)
  case (1 k s)
  then show ?case by (subst pad_front.simps) auto
qed

lemma length_base36_digits: "n < 36 ^ k \<Longrightarrow> length (base36_digits n) \<le> k"
proof (induction k arbitrary: n)
  case 0
  then show ?case by (simp add: base36_digits.simps)
next
  case (Suc k)
  then have "n div 36 < 36 ^ k" by (simp add: less_mult_imp_div_less mult.commute)
  then show ?case using Suc.IH by (subst base36_digits.simps) simp
qed

lemma unat_drop_uuid: "unat (drop_bit n (u :: uuid)) = unat u div 2 ^ n"
  by (subst unat_drop_bit_eq) (simp add: drop_bit_eq_div)

lemma unat_drop_112: "unat (drop_bit 112 (u :: uuid)) < 2 ^ 16"
  using unsigned_less [of u, where 'a = nat] by (simp add: unat_drop_uuid less_mult_imp_div_less)

lemma uuid_prefix:
  "256 * of_char (uuid_as_bytes u ! 0) + of_char (uuid_as_bytes u ! 1) = unat (drop_bit 112 u)"
proof -
  have "unat (drop_bit 120 u) = unat (drop_bit 112 u) div 256"
    by (simp add: unat_drop_uuid div_mult2_eq [symmetric])
  then show ?thesis using unat_drop_112 [of u] by (simp add: uuid_as_bytes_def)
qed

lemma humanize_uuid_eq: "humanize_uuid u = pad_front 3 (to_base36 (unat (drop_bit 112 u)))"
  by (simp only: humanize_uuid_def Let_def uuid_prefix)

text \<open>
  A node's name is the base-36 numeral of the first two bytes of its UUID, three or four
  characters long, so that the name determines those two bytes.
\<close>

lemma node_name_reads_back:
  "of_base36 (ni_name (identity_of_uuid xxh3 u)) = unat (drop_bit 112 u) \<and>
   length (ni_name (identity_of_uuid xxh3 u)) \<in> {3, 4} \<and>
   length (ni_vnode_tokens (identity_of_uuid xxh3 u)) = 256"
proof -
  have "length (to_base36 (unat (drop_bit 112 u))) \<le> 4"
    using unat_drop_112 [of u] length_base36_digits [of "unat (drop_bit 112 u)" 4]
    by (auto simp: to_base36_def)
  then show ?thesis
    by (auto simp: identity_of_uuid_def humanize_uuid_eq of_base36_pad of_base36_to_base36
        length_pad_front generate_tokens_def VNODE_COUNT_def max_def)
qed

text \<open>
  The documentation promises exactly three characters; a UUID starting with the bytes FF FF is
  named with four.
\<close>

theorem node_name_of_four:
  "humanize_uuid (push_bit 112 0xFFFF) = ''1EKF''"
  by (simp add: humanize_uuid_eq unat_drop_uuid to_base36_def base36_digits.simps pad_front.simps base36_digit_def)
     code_simp

end
