(* ===== verification/Json.thy ===== *)
theory Json
  imports Ordered_Map "HOL-Library.Multiset"
begin

text \<open>
  The JSON values documents are made of (\<open>serde_json::Value\<close>, built with \<open>preserve_order\<close>): an object
  is a list of members in insertion order whose keys are distinct. Numbers keep the three forms
  \<open>serde_json\<close> distinguishes; a float is its 64 bits. The operations are those the source calls, with
  the documented effect of each on the order of an object's members.
\<close>

section \<open>Values\<close>

datatype jnum = PosInt nat | NegInt int | Float u64

datatype json =
    JNull
  | JBool bool
  | JNumber jnum
  | JString string
  | JArray "json list"
  | JObject "(string \<times> json) list"

type_synonym members = "(string \<times> json) list"

definition i64_max :: int where
  "i64_max = 2 ^ 63 - 1"

definition i64_min :: int where
  "i64_min = - (2 ^ 63)"

text \<open>\<open>n as f64\<close>: round to nearest, ties to even, as the language's cast does.\<close>

fun bit_length :: "nat \<Rightarrow> nat" where
  "bit_length n = (if n = 0 then 0 else Suc (bit_length (n div 2)))"

declare bit_length.simps [simp del]

definition f64_of_nat :: "nat \<Rightarrow> nat" where
  "f64_of_nat n =
     (if n = 0 then 0 else
      let k = bit_length n in
      if k \<le> 53 then (k - 1 + 1023) * 2 ^ 52 + (n * 2 ^ (53 - k) - 2 ^ 52)
      else let s = k - 53; q = n div 2 ^ s; r = n mod 2 ^ s; half = 2 ^ (s - 1);
               q' = (if half < r \<or> (r = half \<and> odd q) then q + 1 else q)
           in (k - 1 + 1023) * 2 ^ 52 + (q' - 2 ^ 52))"

definition f64_of_int :: "int \<Rightarrow> u64" where
  "f64_of_int i = word_of_nat ((if i < 0 then 2 ^ 63 else 0) + f64_of_nat (nat \<bar>i\<bar>))"

fun as_i64 :: "json \<Rightarrow> int option" where
  "as_i64 (JNumber (PosInt n)) = (if int n \<le> i64_max then Some (int n) else None)"
| "as_i64 (JNumber (NegInt i)) = Some i"
| "as_i64 _ = None"

fun as_u64 :: "json \<Rightarrow> nat option" where
  "as_u64 (JNumber (PosInt n)) = Some n"
| "as_u64 _ = None"

fun as_f64 :: "json \<Rightarrow> u64 option" where
  "as_f64 (JNumber (PosInt n)) = Some (f64_of_int (int n))"
| "as_f64 (JNumber (NegInt i)) = Some (f64_of_int i)"
| "as_f64 (JNumber (Float f)) = Some f"
| "as_f64 _ = None"

fun as_str :: "json \<Rightarrow> string option" where
  "as_str (JString s) = Some s"
| "as_str _ = None"

fun as_bool :: "json \<Rightarrow> bool option" where
  "as_bool (JBool b) = Some b"
| "as_bool _ = None"

fun as_array :: "json \<Rightarrow> json list option" where
  "as_array (JArray xs) = Some xs"
| "as_array _ = None"

fun as_object :: "json \<Rightarrow> members option" where
  "as_object (JObject m) = Some m"
| "as_object _ = None"

definition is_i64 :: "json \<Rightarrow> bool" where
  "is_i64 v = (as_i64 v \<noteq> None)"

definition is_u64 :: "json \<Rightarrow> bool" where
  "is_u64 v = (as_u64 v \<noteq> None)"

text \<open>The values of a field that may carry one value or a list of them.\<close>

definition one_or_list :: "json \<Rightarrow> json list" where
  "one_or_list v = (case as_array v of Some items \<Rightarrow> items | None \<Rightarrow> [v])"

section \<open>Equality\<close>

lemma size_member_less: "(k, v) \<in> set m \<Longrightarrow> size v < Suc (size_list (size_prod (\<lambda>x. 0) size) m)"
  by (induction m) auto

lemma size_item_less: "v \<in> set vs \<Longrightarrow> size v < Suc (size_list size vs)"
  by (induction vs) auto

text \<open>
  \<open>==\<close> on values: floats compare as numbers, so the two zeros are equal, and objects compare as maps.
\<close>

fun jnum_eq :: "jnum \<Rightarrow> jnum \<Rightarrow> bool" where
  "jnum_eq (PosInt m) (PosInt n) = (m = n)"
| "jnum_eq (NegInt i) (NegInt j) = (i = j)"
| "jnum_eq (Float f) (Float g) = (f = g \<or> (f \<in> {0, 2 ^ 63} \<and> g \<in> {0, 2 ^ 63}))"
| "jnum_eq _ _ = False"

function (sequential) json_eq :: "json \<Rightarrow> json \<Rightarrow> bool" where
  "json_eq JNull JNull = True"
| "json_eq (JBool a) (JBool b) = (a = b)"
| "json_eq (JNumber a) (JNumber b) = jnum_eq a b"
| "json_eq (JString a) (JString b) = (a = b)"
| "json_eq (JArray xs) (JArray ys) =
     (length xs = length ys \<and> list_all (\<lambda>(x, y). json_eq x y) (zip xs ys))"
| "json_eq (JObject xs) (JObject ys) =
     (length xs = length ys \<and>
      list_all (\<lambda>(k, v). case map_of ys k of Some w \<Rightarrow> json_eq v w | None \<Rightarrow> False) xs)"
| "json_eq _ _ = False"
  by pat_completeness auto
termination
  by (relation "measure (\<lambda>(v, w). size v)")
     (auto dest!: set_zip_leftD simp: size_item_less size_member_less)

definition json_in :: "json \<Rightarrow> json list \<Rightarrow> bool" where
  "json_in v vs = list_ex (json_eq v) vs"

section \<open>Object members\<close>

definition members_wf :: "members \<Rightarrow> bool" where
  "members_wf m = distinct (map fst m)"

definition m_get :: "members \<Rightarrow> string \<Rightarrow> json option" where
  "m_get m k = map_of m k"

definition m_contains :: "members \<Rightarrow> string \<Rightarrow> bool" where
  "m_contains m k = (map_of m k \<noteq> None)"

text \<open>\<open>insert\<close> replaces a present key's value in its place and appends a new one.\<close>

fun m_insert :: "string \<Rightarrow> json \<Rightarrow> members \<Rightarrow> members" where
  "m_insert k v [] = [(k, v)]"
| "m_insert k v ((k', v') # m) = (if k = k' then (k, v) # m else (k', v') # m_insert k v m)"

text \<open>\<open>remove\<close> puts the last member in the removed one's place (\<open>swap_remove\<close>).\<close>

definition m_remove :: "string \<Rightarrow> members \<Rightarrow> members" where
  "m_remove k m =
     (case m_get m k of
        None \<Rightarrow> m
      | Some _ \<Rightarrow>
          let before = takeWhile (\<lambda>e. fst e \<noteq> k) m; after = tl (dropWhile (\<lambda>e. fst e \<noteq> k) m)
          in if after = [] then before else before @ last after # butlast after)"

definition m_retain :: "(string \<Rightarrow> bool) \<Rightarrow> members \<Rightarrow> members" where
  "m_retain p m = filter (\<lambda>(k, _). p k) m"

text \<open>\<open>append\<close> inserts the members of the second map, in its order, into the first.\<close>

definition m_append :: "members \<Rightarrow> members \<Rightarrow> members" where
  "m_append m m' = fold (\<lambda>(k, v). m_insert k v) m' m"

lemma m_get_insert [simp]: "m_get (m_insert k v m) k' = (if k' = k then Some v else m_get m k')"
  by (induction k v m rule: m_insert.induct) (auto simp: m_get_def)

lemma m_keys_insert [simp]: "fst ` set (m_insert k v m) = insert k (fst ` set m)"
  by (induction k v m rule: m_insert.induct) auto

lemma members_wf_insert [simp, inv_intros]: "members_wf m \<Longrightarrow> members_wf (m_insert k v m)"
proof (induction k v m rule: m_insert.induct)
  case (2 k v k' v' m)
  have "set (map fst (m_insert k v m)) = insert k (fst ` set m)" by simp
  with 2 show ?case by (auto simp: members_wf_def)
qed (simp add: members_wf_def)

lemma m_get_retain [simp]: "m_get (m_retain p m) k = (if p k then m_get m k else None)"
  by (induction m) (auto simp: m_get_def m_retain_def)

lemma members_wf_retain [simp, inv_intros]: "members_wf m \<Longrightarrow> members_wf (m_retain p m)"
  by (simp add: members_wf_def m_retain_def distinct_map_filter)

lemma set_remove_mid:
  "(if after = [] then before else before @ last after # butlast after) = before @ (if after = [] then [] else last after # butlast after)"
  by simp

lemma mset_rotate_last: "mset (if xs = [] then [] else last xs # butlast xs) = mset xs"
  by (cases xs rule: rev_cases) auto

lemma mset_m_remove:
  assumes "m_get m k = Some v" "members_wf m"
  shows "add_mset (k, v) (mset (m_remove k m)) = mset m"
proof -
  let ?b = "takeWhile (\<lambda>e. fst e \<noteq> k) m" and ?d = "dropWhile (\<lambda>e. fst e \<noteq> k) m"
  have in_m: "(k, v) \<in> set m" using assms(1) by (auto simp: m_get_def dest: map_of_SomeD)
  then have ne: "?d \<noteq> []" by (force simp: dropWhile_eq_Nil_conv)
  then have "fst (hd ?d) = k" using hd_dropWhile [of "\<lambda>e. fst e \<noteq> k" m] by auto
  moreover have "hd ?d \<in> set m" using ne by (meson hd_in_set set_dropWhileD)
  ultimately have "hd ?d = (k, v)"
    using in_m assms(2) by (metis eq_key_imp_eq_value members_wf_def prod.collapse)
  then have "m = ?b @ (k, v) # tl ?d" using ne by (metis list.collapse takeWhile_dropWhile_id)
  then have "mset m = mset (?b @ (k, v) # tl ?d)" by simp
  moreover have "mset (m_remove k m) = mset ?b + mset (tl ?d)"
    using assms(1) mset_rotate_last [of "tl ?d"]
    by (simp add: m_remove_def Let_def set_remove_mid del: if_split)
  ultimately show ?thesis by simp
qed

lemma m_remove_absent: "m_get m k = None \<Longrightarrow> m_remove k m = m"
  by (simp add: m_remove_def)

lemma mset_keys_m_remove:
  assumes "m_get m k = Some v" "members_wf m"
  shows "distinct (k # map fst (m_remove k m))" "set m = insert (k, v) (set (m_remove k m))"
proof -
  have eq: "mset ((k, v) # m_remove k m) = mset m"
    using mset_m_remove [OF assms] by simp
  then have "mset (map fst ((k, v) # m_remove k m)) = mset (map fst m)"
    by (simp only: mset_map)
  then show "distinct (k # map fst (m_remove k m))"
    using assms(2) mset_eq_imp_distinct_iff by (fastforce simp: members_wf_def)
  show "set m = insert (k, v) (set (m_remove k m))"
    using eq by (metis list.simps(15) set_mset_mset)
qed

lemma members_wf_remove [simp, inv_intros]: "members_wf m \<Longrightarrow> members_wf (m_remove k m)"
  by (cases "m_get m k") (auto simp: m_remove_absent members_wf_def dest: mset_keys_m_remove(1))

lemma m_get_remove [simp]:
  assumes "members_wf m"
  shows "m_get (m_remove k m) k' = (if k' = k then None else m_get m k')"
proof (cases "m_get m k")
  case None
  then show ?thesis by (simp add: m_remove_absent)
next
  case (Some v)
  have d: "distinct (map fst (m_remove k m))" "k \<notin> fst ` set (m_remove k m)"
    and s: "set m = insert (k, v) (set (m_remove k m))"
    using mset_keys_m_remove [OF Some assms] by auto
  have "m_get (m_remove k m) k' = Some w \<longleftrightarrow> k' \<noteq> k \<and> m_get m k' = Some w" for w
    using d s assms by (force simp: m_get_def members_wf_def)
  then show ?thesis
    by (metis not_Some_eq)
qed

lemma members_wf_append [simp, inv_intros]: "members_wf m \<Longrightarrow> members_wf (m_append m m')"
  by (induction m' arbitrary: m) (auto simp: m_append_def)

lemma m_get_append:
  "members_wf m' \<Longrightarrow> m_get (m_append m m') k = (case m_get m' k of Some v \<Rightarrow> Some v | None \<Rightarrow> m_get m k)"
proof (induction m' arbitrary: m)
  case Nil
  then show ?case by (simp add: m_append_def m_get_def)
next
  case (Cons e m')
  obtain k0 v0 where e: "e = (k0, v0)" by (cases e)
  have "m_get m' k0 = None" and wf: "members_wf m'"
    using Cons.prems by (auto simp: e members_wf_def m_get_def map_of_eq_None_iff)
  then have "m_get (e # m') k = (if k = k0 then Some v0 else m_get m' k)"
    by (simp add: e m_get_def)
  moreover have "m_append m (e # m') = m_append (m_insert k0 v0 m) m'"
    by (simp add: m_append_def e)
  ultimately show ?case
    using Cons.IH [OF wf] \<open>m_get m' k0 = None\<close> by (auto split: option.splits)
qed

end
