(* ===== verification/Ip_Addr.thy ===== *)
theory Ip_Addr
  imports Prelude
begin

text \<open>
  \<open>std::net::IpAddr\<close> and its \<open>FromStr\<close>: dotted quads without leading zeros, and IPv6 groups with at
  most one \<open>::\<close> and an optional dotted quad as the last two groups. The parsers consume a prefix and
  return the rest; the whole text has to be consumed.
\<close>

datatype ip_addr = V4 "32 word" | V6 "128 word"

definition digit_value :: "nat \<Rightarrow> char \<Rightarrow> nat option" where
  "digit_value radix c =
     (let n = of_char c :: nat;
          d = (if 48 \<le> n \<and> n \<le> 57 then Some (n - 48)
               else if 97 \<le> n \<and> n \<le> 122 then Some (n - 87)
               else if 65 \<le> n \<and> n \<le> 90 then Some (n - 55) else None)
      in case d of Some v \<Rightarrow> if v < radix then Some v else None | None \<Rightarrow> None)"

text \<open>\<open>read_number\<close>: at most \<open>max_digits\<close> digits, no wider than \<open>bound\<close>.\<close>

fun read_digits :: "nat \<Rightarrow> string \<Rightarrow> string \<times> string" where
  "read_digits radix [] = ([], [])"
| "read_digits radix (c # s) =
     (case digit_value radix c of
        None \<Rightarrow> ([], c # s)
      | Some _ \<Rightarrow> (case read_digits radix s of (ds, r) \<Rightarrow> (c # ds, r)))"

definition digits_value :: "nat \<Rightarrow> string \<Rightarrow> nat" where
  "digits_value radix ds = foldl (\<lambda>n c. radix * n + (case digit_value radix c of Some v \<Rightarrow> v | None \<Rightarrow> 0)) 0 ds"

definition read_number :: "nat \<Rightarrow> nat \<Rightarrow> bool \<Rightarrow> nat \<Rightarrow> string \<Rightarrow> (nat \<times> string) option" where
  "read_number radix max_digits allow_zero_prefix bound s =
     (case read_digits radix s of (ds, r) \<Rightarrow>
        if ds = [] \<or> max_digits < length ds \<or>
           (\<not> allow_zero_prefix \<and> hd ds = CHR ''0'' \<and> 1 < length ds) \<or>
           bound < digits_value radix ds
        then None else Some (digits_value radix ds, r))"

fun read_given :: "char \<Rightarrow> string \<Rightarrow> string option" where
  "read_given c [] = None"
| "read_given c (x # s) = (if x = c then Some s else None)"

definition read_octet :: "string \<Rightarrow> (nat \<times> string) option" where
  "read_octet = read_number 10 3 False 255"

definition read_ipv4 :: "string \<Rightarrow> (nat \<times> string) option" where
  "read_ipv4 s =
     Option.bind (read_octet s) (\<lambda>(a, s). Option.bind (read_given CHR ''.'' s) (\<lambda>s.
     Option.bind (read_octet s) (\<lambda>(b, s). Option.bind (read_given CHR ''.'' s) (\<lambda>s.
     Option.bind (read_octet s) (\<lambda>(c, s). Option.bind (read_given CHR ''.'' s) (\<lambda>s.
     Option.bind (read_octet s) (\<lambda>(d, s). Some (((a * 256 + b) * 256 + c) * 256 + d, s))))))))"

definition read_group :: "string \<Rightarrow> (nat \<times> string) option" where
  "read_group = read_number 16 4 True 65535"

text \<open>
  \<open>read_groups\<close>: up to \<open>limit\<close> groups, the separator before every group but the first; a dotted quad
  fills two groups and ends the sequence. Returns the groups, whether it ended in a quad, the rest.
\<close>

definition after_sep :: "bool \<Rightarrow> string \<Rightarrow> string option" where
  "after_sep first s = (if first then Some s else read_given CHR '':'' s)"

fun read_groups :: "nat \<Rightarrow> bool \<Rightarrow> string \<Rightarrow> nat list \<times> bool \<times> string" where
  "read_groups 0 first s = ([], False, s)"
| "read_groups (Suc limit) first s =
     (case (if 0 < limit then Option.bind (after_sep first s) read_ipv4 else None) of
        Some (q, r) \<Rightarrow> ([q div 65536, q mod 65536], True, r)
      | None \<Rightarrow>
          (case Option.bind (after_sep first s) read_group of
             Some (g, r) \<Rightarrow> (case read_groups limit False r of (gs, quad, r') \<Rightarrow> (g # gs, quad, r'))
           | None \<Rightarrow> ([], False, s)))"

definition ipv6_of_groups :: "nat list \<Rightarrow> 128 word" where
  "ipv6_of_groups gs = word_of_nat (foldl (\<lambda>n g. n * 65536 + g) 0 gs)"

definition read_ipv6 :: "string \<Rightarrow> (128 word \<times> string) option" where
  "read_ipv6 s =
     (case read_groups 8 True s of (hd_gs, quad, r) \<Rightarrow>
        if length hd_gs = 8 then Some (ipv6_of_groups hd_gs, r)
        else if quad then None
        else Option.bind (read_given CHR '':'' r) (\<lambda>r. Option.bind (read_given CHR '':'' r) (\<lambda>r.
          case read_groups (8 - (length hd_gs + 1)) True r of (tl_gs, _, r') \<Rightarrow>
            Some (ipv6_of_groups (hd_gs @ replicate (8 - length hd_gs - length tl_gs) 0 @ tl_gs), r'))))"

definition parse_ip :: "string \<Rightarrow> ip_addr option" where
  "parse_ip s =
     (case read_ipv4 s of
        Some (n, []) \<Rightarrow> Some (V4 (word_of_nat n))
      | _ \<Rightarrow> (case read_ipv6 s of Some (w, []) \<Rightarrow> Some (V6 w) | _ \<Rightarrow> None))"

fun to_ipv6_mapped :: "ip_addr \<Rightarrow> 128 word" where
  "to_ipv6_mapped (V4 a) = 0xFFFF00000000 + ucast a"
| "to_ipv6_mapped (V6 a) = a"

end
