(* ===== verification/Field_Type.thy ===== *)
theory Field_Type
  imports Json Ip_Addr
begin

text \<open>
  The types a field may have (\<open>TantivyFieldType\<close>), the dates it may hold, and the one function that
  turns a JSON value into the values a Tantivy document carries (\<open>storage/src/schema.rs\<close>).

  The libraries the source calls here are parameters, the fields of \<open>deps\<close>: \<open>serde_json\<close>'s printer,
  and number parser, \<open>chrono\<close>'s parsers, which yield UTC seconds, and Tantivy's facet-path parser.
\<close>

section \<open>Libraries\<close>

record deps =
  dp_json_text :: "json \<Rightarrow> string"
  dp_rfc3339 :: "string \<Rightarrow> int option"
  dp_rfc2822 :: "string \<Rightarrow> int option"
  dp_naive_datetime :: "string \<Rightarrow> string \<Rightarrow> (int \<times> int) option"
  dp_naive_date :: "string \<Rightarrow> string \<Rightarrow> (int \<times> int) option"
  dp_ymd_hms :: "int \<Rightarrow> nat \<Rightarrow> nat \<Rightarrow> nat \<Rightarrow> nat \<Rightarrow> nat \<Rightarrow> int option"
  dp_facet_ok :: "string \<Rightarrow> bool"
  dp_parse_number :: "string \<Rightarrow> jnum option"

section \<open>Field types\<close>

datatype field_type =
  Text | String | I64 | U64 | F64 | Date | Boolean | Bytes | Ip | Json | Facet

definition is_numeric :: "field_type \<Rightarrow> bool" where
  "is_numeric t = (t \<in> {I64, U64, F64})"

definition widened :: "field_type \<Rightarrow> field_type \<Rightarrow> field_type" where
  "widened a b =
     (if a = b then a
      else if is_numeric a \<and> is_numeric b then F64
      else Text)"

definition is_default_searchable :: "field_type \<Rightarrow> bool" where
  "is_default_searchable t = (t \<in> {Text, String, Json})"

fun type_to_string :: "field_type \<Rightarrow> string" where
  "type_to_string Text = ''text''"
| "type_to_string String = ''string''"
| "type_to_string I64 = ''i64''"
| "type_to_string U64 = ''u64''"
| "type_to_string F64 = ''f64''"
| "type_to_string Date = ''date''"
| "type_to_string Boolean = ''boolean''"
| "type_to_string Bytes = ''bytes''"
| "type_to_string Ip = ''ip''"
| "type_to_string Json = ''json''"
| "type_to_string Facet = ''facet''"

text \<open>
  \<open>to_lowercase\<close> maps no character outside ASCII to a letter of these names, so lowercasing ASCII
  letters only decides the match alike. The error carries the name as written.
\<close>

definition type_from_str :: "string \<Rightarrow> (string, field_type) result" where
  "type_from_str name =
     (let n = to_ascii_lowercase name in
      if n = ''text'' then Ok Text
      else if n \<in> set [''string'', ''exact''] then Ok String
      else if n \<in> set [''i64'', ''integer'', ''int'', ''number'', ''numeric'', ''signed''] then Ok I64
      else if n \<in> set [''u64'', ''unsigned'', ''uint''] then Ok U64
      else if n \<in> set [''f64'', ''float'', ''double'', ''decimal''] then Ok F64
      else if n \<in> set [''date'', ''datetime'', ''timestamp''] then Ok Date
      else if n \<in> set [''boolean'', ''bool''] then Ok Boolean
      else if n \<in> set [''bytes'', ''binary'', ''blob''] then Ok Bytes
      else if n = ''ip'' then Ok Ip
      else if n \<in> set [''json'', ''object'', ''document''] then Ok Json
      else if n \<in> set [''facet'', ''category'', ''tag''] then Ok Facet
      else Err name)"

lemma type_from_to_string: "type_from_str (type_to_string t) = Ok t"
  by (cases t) (simp_all add: type_from_str_def to_ascii_lowercase_def)

lemma type_to_string_inj: "type_to_string a = type_to_string b \<Longrightarrow> a = b"
  by (metis Inr_inject type_from_to_string)

lemma type_from_lower: "to_ascii_lowercase s = type_to_string t \<Longrightarrow> type_from_str s = Ok t"
  by (cases t) (simp_all add: type_from_str_def)

section \<open>Widening is a join\<close>

text \<open>
  What order-independence of learning rests on: an associative, commutative, idempotent operation.
  Joining a list onto a start value then depends only on the set of the values joined.
\<close>

locale join_op =
  fixes join :: "'a \<Rightarrow> 'a \<Rightarrow> 'a"
  assumes join_comm: "join a b = join b a"
    and join_assoc: "join (join a b) c = join a (join b c)"
    and join_idem: "join a a = a"
begin

definition below :: "'a \<Rightarrow> 'a \<Rightarrow> bool" where
  "below a b \<longleftrightarrow> join a b = b"

lemma below_refl: "below a a"
  by (simp add: below_def join_idem)

lemma below_trans: "below a b \<Longrightarrow> below b c \<Longrightarrow> below a c"
  by (metis below_def join_assoc)

lemma below_antisym: "below a b \<Longrightarrow> below b a \<Longrightarrow> a = b"
  by (metis below_def join_comm)

lemma below_join: "below a (join a b)"
  by (metis below_def join_assoc join_idem)

lemma join_least: "below a c \<Longrightarrow> below b c \<Longrightarrow> below (join a b) c"
  by (simp add: below_def join_assoc)

lemma fold_join_above: "below a (foldl join a xs)"
  by (induction xs arbitrary: a) (auto intro: below_refl below_join below_trans)

lemma fold_join_upper: "x \<in> set xs \<Longrightarrow> below x (foldl join a xs)"
proof (induction xs arbitrary: a)
  case (Cons y xs)
  have "below y (join a y)" using below_join join_comm by metis
  with Cons show ?case using fold_join_above below_trans by (cases "x = y") force+
qed simp

lemma fold_join_least:
  "below a u \<Longrightarrow> (\<And>x. x \<in> set xs \<Longrightarrow> below x u) \<Longrightarrow> below (foldl join a xs) u"
  by (induction xs arbitrary: a) (auto intro: join_least)

lemma fold_join_bounds: "z \<in> set (a # xs) \<Longrightarrow> below z (foldl join a xs)"
  using fold_join_above fold_join_upper by auto

lemma fold_join_set:
  assumes "set (a # xs) = set (b # ys)"
  shows "foldl join a xs = foldl join b ys"
proof (rule below_antisym)
  have "below z (foldl join b ys)" if "z \<in> set (a # xs)" for z
    using that fold_join_bounds [of z b ys] unfolding assms by simp
  then show "below (foldl join a xs) (foldl join b ys)" by (intro fold_join_least) auto
  have "below z (foldl join a xs)" if "z \<in> set (b # ys)" for z
    using that fold_join_bounds [of z a xs] unfolding assms by simp
  then show "below (foldl join b ys) (foldl join a xs)" by (intro fold_join_least) auto
qed

end

interpretation wid: join_op widened
proof
  fix a b c
  show "widened a b = widened b a" by (auto simp: widened_def)
  show "widened (widened a b) c = widened a (widened b c)"
    by (cases a; cases b; cases c) (simp_all add: widened_def is_numeric_def)
  show "widened a a = a" by (simp add: widened_def)
qed

lemma widened_Text [simp]: "widened Text t = Text" "widened t Text = Text"
  by (simp_all add: widened_def is_numeric_def)

section \<open>Dates\<close>

definition TANTIVY_MIN_TIMESTAMP_SECS :: int where
  "TANTIVY_MIN_TIMESTAMP_SECS = - 9223372036"

definition TANTIVY_MAX_TIMESTAMP_SECS :: int where
  "TANTIVY_MAX_TIMESTAMP_SECS = 9223372036"

definition clamp_ts :: "int \<Rightarrow> int" where
  "clamp_ts ts = max TANTIVY_MIN_TIMESTAMP_SECS (min TANTIVY_MAX_TIMESTAMP_SECS ts)"

definition NAIVE_DATETIME_FORMATS :: "string list" where
  "NAIVE_DATETIME_FORMATS =
     [''%Y-%m-%d %H:%M:%S'', ''%Y-%m-%d %H:%M'', ''%Y-%m-%dT%H:%M:%S'', ''%Y-%m-%dT%H:%M'',
      ''%Y-%m-%d %H:%M:%S%.f'', ''%Y-%m-%dT%H:%M:%S%.f'',
      ''%Y/%m/%d %H:%M:%S'', ''%Y/%m/%d %H:%M'', ''%Y/%m/%dT%H:%M:%S'', ''%Y/%m/%dT%H:%M'',
      ''%Y.%m.%d %H:%M:%S'', ''%Y.%m.%d %H:%M'', ''%Y.%m.%dT%H:%M:%S'', ''%Y.%m.%dT%H:%M'']"

definition NAIVE_DATE_FORMATS :: "string list" where
  "NAIVE_DATE_FORMATS = [''%Y-%m-%d'', ''%Y/%m/%d'', ''%Y.%m.%d'', ''%Y%m%d'']"

definition YEAR_LAST_FORMATS :: "string list" where
  "YEAR_LAST_FORMATS =
     [''%m/%d/%Y'', ''%m/%d/%Y %H:%M:%S'', ''%m/%d/%Y %H:%M'',
      ''%d.%m.%Y'', ''%d.%m.%Y %H:%M:%S'', ''%d.%m.%Y %H:%M'',
      ''%b %d, %Y'', ''%B %d, %Y'', ''%b %d %Y'', ''%B %d %Y'', ''%d %b %Y'', ''%d %B %Y'']"

fun dec_digits :: "nat \<Rightarrow> string" where
  "dec_digits n = (if n < 10 then [char_of (48 + n)] else dec_digits (n div 10) @ [char_of (48 + n mod 10)])"

declare dec_digits.simps [simp del]

text \<open>\<open>format!("{:04}", year)\<close>: the sign counts towards the width.\<close>

definition fmt_04 :: "int \<Rightarrow> string" where
  "fmt_04 y =
     (let d = dec_digits (nat \<bar>y\<bar>); w = (if y < 0 then 3 else 4)
      in (if y < 0 then ''-'' else []) @ replicate (w - length d) CHR ''0'' @ d)"

fun str_contains :: "string \<Rightarrow> string \<Rightarrow> bool" where
  "str_contains [] p = (p = [])"
| "str_contains (c # s) p = (starts_with (c # s) p \<or> str_contains s p)"

text \<open>The year and the UTC seconds of the first format that reads the text with its year written out.\<close>

definition parse_naive_datetime :: "deps \<Rightarrow> string \<Rightarrow> (int \<times> int) option" where
  "parse_naive_datetime d s =
     (let attempt = (\<lambda>fmt. case dp_naive_datetime d s fmt of Some r \<Rightarrow> Some r | None \<Rightarrow> dp_naive_date d s fmt)
      in find (\<lambda>(y, _). str_contains s (fmt_04 y))
           (List.map_filter attempt (NAIVE_DATETIME_FORMATS @ NAIVE_DATE_FORMATS @ YEAR_LAST_FORMATS)))"

definition all_ascii_digits :: "string \<Rightarrow> bool" where
  "all_ascii_digits s = list_all (\<lambda>c. 48 \<le> (of_char c :: nat) \<and> (of_char c :: nat) \<le> 57) s"

text \<open>\<open>parse::<u32>\<close> and the like on a text of a few bytes: an optional plus sign, then digits.\<close>

definition parse_small :: "string \<Rightarrow> nat option" where
  "parse_small s =
     (let t = (case s of (c # r) \<Rightarrow> if c = CHR ''+'' then r else s | [] \<Rightarrow> s)
      in if t = [] \<or> \<not> all_ascii_digits t then None
         else Some (foldl (\<lambda>n c. 10 * n + (of_char c - 48)) 0 t))"

text \<open>\<open>parse::<i32>\<close> admits a minus sign as well.\<close>

definition parse_small_int :: "string \<Rightarrow> int option" where
  "parse_small_int s =
     (case s of
        (c # r) \<Rightarrow>
          if c = CHR ''-''
          then (if r = [] \<or> \<not> all_ascii_digits r then None
                else map_option (\<lambda>n. - int n) (parse_small r))
          else map_option int (parse_small s)
      | [] \<Rightarrow> None)"

definition sub_str :: "nat \<Rightarrow> nat \<Rightarrow> string \<Rightarrow> string" where
  "sub_str i j s = take (j - i) (drop i s)"

definition ymd_hms_of :: "deps \<Rightarrow> string \<Rightarrow> string \<Rightarrow> string \<Rightarrow> string \<Rightarrow> string \<Rightarrow> string \<Rightarrow> int option" where
  "ymd_hms_of d y mo da h mi se =
     Option.bind (parse_small_int y) (\<lambda>y. Option.bind (parse_small mo) (\<lambda>mo.
     Option.bind (parse_small da) (\<lambda>da. Option.bind (parse_small h) (\<lambda>h.
     Option.bind (parse_small mi) (\<lambda>mi. Option.bind (parse_small se) (\<lambda>se.
       dp_ymd_hms d y mo da h mi se))))))"

definition or_else :: "'a option \<Rightarrow> 'a option \<Rightarrow> 'a option" where
  "or_else a b = (case a of Some _ \<Rightarrow> a | None \<Rightarrow> b)"

text \<open>
  \<open>s.chars().nth(n)\<close> for an ASCII character, and \<open>s[i..j]\<close>, which panics when an end of the range
  falls inside a character.
\<close>

definition is_continuation :: "char \<Rightarrow> bool" where
  "is_continuation c = (0x80 \<le> (of_char c :: nat) \<and> (of_char c :: nat) < 0xC0)"

definition nth_char_is :: "nat \<Rightarrow> char \<Rightarrow> string \<Rightarrow> bool" where
  "nth_char_is n c s =
     (let starts = filter (\<lambda>i. \<not> is_continuation (s ! i)) [0..<length s]
      in n < length starts \<and> s ! (starts ! n) = c)"

definition char_boundary :: "string \<Rightarrow> nat \<Rightarrow> bool" where
  "char_boundary s i = (i = 0 \<or> i = length s \<or> (i < length s \<and> \<not> is_continuation (s ! i)))"

datatype panic = NotACharBoundary nat

definition slice :: "nat \<Rightarrow> nat \<Rightarrow> string \<Rightarrow> (panic, string) result" where
  "slice i j s =
     (if \<not> char_boundary s i then Err (NotACharBoundary i)
      else if \<not> char_boundary s j then Err (NotACharBoundary j)
      else Ok (sub_str i j s))"

text \<open>The \<open>YYYY-MM\<close> reading: the year is sliced and parsed, then the month.\<close>

definition year_month_secs :: "deps \<Rightarrow> string \<Rightarrow> (panic, int option) result" where
  "year_month_secs d s =
     (if length s = 7 \<and> nth_char_is 4 CHR ''-'' s
      then and_then (slice 0 4 s) (\<lambda>y. and_then (slice 5 7 s) (\<lambda>mo.
             Ok (ymd_hms_of d y mo ''1'' ''0'' ''0'' ''0'')))
      else Ok None)"

text \<open>The readings before it, in the source's order; their texts are ASCII where they slice.\<close>

definition parse_date_early :: "deps \<Rightarrow> string \<Rightarrow> int option" where
  "parse_date_early d s =
     or_else (or_else (dp_rfc3339 d s) (dp_rfc2822 d s))
    (or_else (map_option snd (parse_naive_datetime d s))
    (or_else (if length s = 14 \<and> all_ascii_digits s
              then ymd_hms_of d (sub_str 0 4 s) (sub_str 4 6 s) (sub_str 6 8 s)
                     (sub_str 8 10 s) (sub_str 10 12 s) (sub_str 12 14 s) else None)
    (or_else (if length s = 12 \<and> all_ascii_digits s
              then ymd_hms_of d (sub_str 0 4 s) (sub_str 4 6 s) (sub_str 6 8 s)
                     (sub_str 8 10 s) (sub_str 10 12 s) ''0'' else None)
             (if (length s = 10 \<or> length s = 11) \<and> all_ascii_digits s
              then case parse_small s of
                     Some n \<Rightarrow> if 946684800 \<le> n \<and> n \<le> 10000000000 then Some (int n) else None
                   | None \<Rightarrow> None
              else None))))"

definition parse_date_secs :: "deps \<Rightarrow> string \<Rightarrow> (panic, int option) result" where
  "parse_date_secs d s =
     (case parse_date_early d s of
        Some ts \<Rightarrow> Ok (Some ts)
      | None \<Rightarrow>
          and_then (year_month_secs d s) (\<lambda>r.
            Ok (or_else r (if length s = 4 \<and> all_ascii_digits s
                           then ymd_hms_of d s ''1'' ''1'' ''0'' ''0'' ''0'' else None))))"

text \<open>The pair the source returns beside the Tantivy date: the seconds read and the clamped ones.\<close>

definition parse_date_str_to_tantivy :: "deps \<Rightarrow> string \<Rightarrow> (panic, (int \<times> int) option) result" where
  "parse_date_str_to_tantivy d s =
     and_then (parse_date_secs d s) (\<lambda>r. Ok (map_option (\<lambda>ts. (ts, clamp_ts ts)) r))"

definition epoch_seconds_to_tantivy :: "int \<Rightarrow> int \<times> int" where
  "epoch_seconds_to_tantivy secs = (secs, clamp_ts secs)"

definition parse_date_to_timestamp_secs :: "deps \<Rightarrow> string \<Rightarrow> (panic, int option) result" where
  "parse_date_to_timestamp_secs d s =
     and_then (parse_date_str_to_tantivy d s) (\<lambda>r. Ok (map_option snd r))"

text \<open>The date a scalar holds, by the two readings the writer and its validator share.\<close>

definition date_of_value :: "deps \<Rightarrow> json \<Rightarrow> (panic, (int \<times> int) option) result" where
  "date_of_value d v =
     (case v of JString s \<Rightarrow> parse_date_str_to_tantivy d s
      | _ \<Rightarrow> Ok (map_option epoch_seconds_to_tantivy (as_i64 v)))"

definition is_date_value :: "deps \<Rightarrow> json \<Rightarrow> (panic, bool) result" where
  "is_date_value d v = and_then (date_of_value d v) (\<lambda>r. Ok (r \<noteq> None))"

fun date_out_of_range :: "deps \<Rightarrow> json \<Rightarrow> (panic, bool) result" where
  "date_out_of_range d (JString s) =
     and_then (parse_date_str_to_tantivy d s) (\<lambda>r.
       Ok (case r of Some (secs, clamped) \<Rightarrow> secs \<noteq> clamped | None \<Rightarrow> False))"
| "date_out_of_range d (JArray []) = Ok False"
| "date_out_of_range d (JArray (v # vs)) =
     and_then (date_out_of_range d v) (\<lambda>b. if b then Ok True else date_out_of_range d (JArray vs))"
| "date_out_of_range d v =
     Ok (case as_i64 v of Some secs \<Rightarrow> secs \<noteq> clamp_ts secs | None \<Rightarrow> False)"

fun date_sort_secs :: "deps \<Rightarrow> json \<Rightarrow> (panic, int option) result" where
  "date_sort_secs d (JString s) = parse_date_to_timestamp_secs d s"
| "date_sort_secs d (JArray []) = Ok None"
| "date_sort_secs d (JArray (v # vs)) = date_sort_secs d v"
| "date_sort_secs d v = Ok (map_option clamp_ts (as_i64 v))"

lemma clamp_ts_range: "TANTIVY_MIN_TIMESTAMP_SECS \<le> clamp_ts t \<and> clamp_ts t \<le> TANTIVY_MAX_TIMESTAMP_SECS"
  by (auto simp: clamp_ts_def TANTIVY_MIN_TIMESTAMP_SECS_def TANTIVY_MAX_TIMESTAMP_SECS_def)

lemma clamp_ts_idem [simp]: "clamp_ts (clamp_ts t) = clamp_ts t"
  by (auto simp: clamp_ts_def TANTIVY_MIN_TIMESTAMP_SECS_def TANTIVY_MAX_TIMESTAMP_SECS_def)

lemma clamp_ts_mono: "s \<le> t \<Longrightarrow> clamp_ts s \<le> clamp_ts t"
  by (auto simp: clamp_ts_def)

section \<open>The values of a Tantivy document\<close>

text \<open>
  The errors of the storage layer that this development raises. \<open>Panicked\<close> is an unwinding panic,
  which no \<open>Result\<close> carries in the source and every caller propagates.
\<close>

datatype store_error =
    InvalidFieldValue string
  | IndexNotFound string
  | InvalidIndexName string
  | FieldNotFound string
  | WriterPanicked string
  | WriterClosed string
  | Serialization string
  | CorruptIndex string
  | Tantivy string
  | Redb string
  | Panicked panic

definition unwind :: "(panic, 'a) result \<Rightarrow> (store_error, 'a) result" where
  "unwind r = (case r of Inl p \<Rightarrow> Inl (Panicked p) | Inr x \<Rightarrow> Inr x)"

datatype tvalue =
    VText string
  | VI64 int
  | VU64 nat
  | VF64 u64
  | VDate int
  | VBool bool
  | VBytes "nat list"
  | VIp "128 word"
  | VFacet string

type_synonym tfield = nat
type_synonym tdoc = "(tfield \<times> tvalue) list"

datatype bad_value = Refuse | SkipAndWarn

definition byte_of :: "json \<Rightarrow> nat option" where
  "byte_of v = (case as_u64 v of Some n \<Rightarrow> if n \<le> 255 then Some n else None | None \<Rightarrow> None)"

text \<open>\<open>byte_value_error\<close>: whether an element is refused.\<close>

definition byte_value_error :: "json \<Rightarrow> bool" where
  "byte_value_error v = (byte_of v = None)"

definition facet_value :: "deps \<Rightarrow> string \<Rightarrow> string \<Rightarrow> (store_error, tvalue) result" where
  "facet_value d field s = (if dp_facet_ok d s then Ok (VFacet s) else Err (InvalidFieldValue field))"

definition facet_path_error :: "deps \<Rightarrow> string \<Rightarrow> bool" where
  "facet_path_error d s = (\<not> dp_facet_ok d s)"

text \<open>Text: a string as it is, anything else but null as its JSON, each element on its own.\<close>

fun text_value :: "deps \<Rightarrow> json \<Rightarrow> tvalue list" where
  "text_value d (JString s) = [VText s]"
| "text_value d JNull = []"
| "text_value d v = [VText (dp_json_text d v)]"

text \<open>Bytes: every element or none.\<close>

fun bytes_value :: "string \<Rightarrow> bad_value \<Rightarrow> json list \<Rightarrow> nat list \<Rightarrow> (store_error, tvalue list) result" where
  "bytes_value field bad [] acc = Ok (if acc = [] then [] else [VBytes acc])"
| "bytes_value field bad (v # vs) acc =
     (case byte_of v of
        Some b \<Rightarrow> bytes_value field bad vs (acc @ [b])
      | None \<Rightarrow> (case bad of Refuse \<Rightarrow> Err (InvalidFieldValue field) | SkipAndWarn \<Rightarrow> Ok []))"

definition of_option :: "('a \<Rightarrow> 'b) \<Rightarrow> 'a option \<Rightarrow> 'b list" where
  "of_option f x = (case x of Some y \<Rightarrow> [f y] | None \<Rightarrow> [])"

text \<open>The other types: what one value adds, which is one value or nothing.\<close>

definition scalar_value ::
  "deps \<Rightarrow> string \<Rightarrow> field_type \<Rightarrow> bad_value \<Rightarrow> json \<Rightarrow> (store_error, tvalue list) result" where
  "scalar_value d field t bad v =
     (case t of
        String \<Rightarrow> Ok (of_option VText (as_str v))
      | F64 \<Rightarrow> Ok (of_option VF64 (as_f64 v))
      | I64 \<Rightarrow> Ok (of_option VI64 (as_i64 v))
      | U64 \<Rightarrow> Ok (of_option VU64 (as_u64 v))
      | Date \<Rightarrow> and_then (unwind (date_of_value d v)) (\<lambda>r. Ok (of_option (\<lambda>(_, clamped). VDate clamped) r))
      | Boolean \<Rightarrow> Ok (of_option VBool (as_bool v))
      | Ip \<Rightarrow> Ok (of_option (\<lambda>ip. VIp (to_ipv6_mapped ip)) (Option.bind (as_str v) parse_ip))
      | Facet \<Rightarrow>
          (case as_str v of
             None \<Rightarrow> Ok []
           | Some s \<Rightarrow>
               (case facet_value d field s of
                  Inr f \<Rightarrow> Ok [f]
                | Inl e \<Rightarrow> (case bad of Refuse \<Rightarrow> Err e | SkipAndWarn \<Rightarrow> Ok [])))
      | Text \<Rightarrow> Ok []
      | Json \<Rightarrow> Ok []
      | Bytes \<Rightarrow> Ok [])"

definition values_of ::
  "deps \<Rightarrow> string \<Rightarrow> field_type \<Rightarrow> bad_value \<Rightarrow> json \<Rightarrow> (store_error, tvalue list) result" where
  "values_of d field t bad v =
     (case t of
        Text \<Rightarrow> Ok (concat (map (text_value d) (one_or_list v)))
      | Json \<Rightarrow> Ok [VText (dp_json_text d v)]
      | Bytes \<Rightarrow> (case as_array v of None \<Rightarrow> Ok [] | Some arr \<Rightarrow> bytes_value field bad arr [])
      | _ \<Rightarrow> try_fold (\<lambda>acc x. and_then (scalar_value d field t bad x) (\<lambda>vs. Ok (acc @ vs))) [] (one_or_list v))"

definition add_json_value_to_doc ::
  "deps \<Rightarrow> tfield \<Rightarrow> string \<Rightarrow> field_type \<Rightarrow> json \<Rightarrow> bad_value \<Rightarrow> tdoc \<Rightarrow> (store_error, tdoc) result" where
  "add_json_value_to_doc d col field t v bad doc =
     and_then (values_of d field t bad v) (\<lambda>vs. Ok (doc @ map (Pair col) vs))"

subsection \<open>Replay never refuses\<close>

lemma unwind_simps [simp]:
  "unwind (Inl p) = Inl (Panicked p)"
  "unwind (Inr x) = Inr x"
  by (simp_all add: unwind_def)

lemma unwind_Inr_iff [simp]: "unwind r = Inr x \<longleftrightarrow> r = Inr x"
  by (cases r) auto

lemma unwind_not_refusal [simp]: "unwind r \<noteq> Inl (InvalidFieldValue f)"
  by (cases r) simp_all

lemma bytes_value_replay: "\<exists>vs. bytes_value field SkipAndWarn xs acc = Inr vs"
  by (induction xs arbitrary: acc) (auto split: option.splits)

lemma bytes_value_accepted:
  "list_all (\<lambda>v. byte_of v \<noteq> None) xs \<Longrightarrow>
   bytes_value field bad xs acc =
     Ok (if acc @ map (the \<circ> byte_of) xs = [] then [] else [VBytes (acc @ map (the \<circ> byte_of) xs)])"
  by (induction xs arbitrary: acc) auto

lemma bytes_value_refused:
  "\<not> list_all (\<lambda>v. byte_of v \<noteq> None) xs \<Longrightarrow>
   bytes_value field Refuse xs acc = Err (InvalidFieldValue field)"
  by (induction xs arbitrary: acc) (auto split: option.splits)

text \<open>The kind of column each value belongs to.\<close>

fun value_kind :: "tvalue \<Rightarrow> field_type" where
  "value_kind (VText _) = Text"
| "value_kind (VI64 _) = I64"
| "value_kind (VU64 _) = U64"
| "value_kind (VF64 _) = F64"
| "value_kind (VDate _) = Date"
| "value_kind (VBool _) = Boolean"
| "value_kind (VBytes _) = Bytes"
| "value_kind (VIp _) = Ip"
| "value_kind (VFacet _) = Facet"

definition column_kind :: "field_type \<Rightarrow> field_type" where
  "column_kind t = (if t \<in> {Text, String, Json} then Text else t)"

lemma text_value_kind: "x \<in> set (text_value d v) \<Longrightarrow> value_kind x = Text"
  by (cases "(d, v)" rule: text_value.cases) auto

lemma bytes_value_kind: "bytes_value field bad xs acc = Inr vs \<Longrightarrow> x \<in> set vs \<Longrightarrow> value_kind x = Bytes"
  by (induction xs arbitrary: acc) (auto split: option.splits bad_value.splits if_splits)

lemma scalar_value_kind:
  "scalar_value d field t bad v = Inr vs \<Longrightarrow> x \<in> set vs \<Longrightarrow> value_kind x = column_kind t"
  by (cases t)
     (auto simp: scalar_value_def of_option_def column_kind_def facet_value_def and_then_Ok_iff
           split: option.splits bad_value.splits if_splits)

lemma values_of_kind:
  assumes "values_of d field t bad v = Inr vs" "x \<in> set vs"
  shows "value_kind x = column_kind t"
proof -
  have scalars: "value_kind x = column_kind t"
    if "try_fold (\<lambda>acc x. and_then (scalar_value d field t bad x) (\<lambda>vs. Ok (acc @ vs))) [] (one_or_list v) = Inr vs"
  proof -
    have "\<forall>x \<in> set vs. value_kind x = column_kind t"
      by (rule try_fold_invariant [OF that]) (auto simp: and_then_Ok_iff dest: scalar_value_kind)
    with assms(2) show ?thesis by blast
  qed
  from assms scalars show ?thesis
    by (cases t) (auto simp: values_of_def column_kind_def split: option.splits
        dest: text_value_kind bytes_value_kind)
qed

text \<open>
  A concrete choice of the library functions, for the witnesses: libraries that read no date and no
  number, accept the facet paths that start with a slash and print every value alike.
\<close>

definition plain_deps :: deps where
  "plain_deps =
     \<lparr>dp_json_text = (\<lambda>_. ''?''), dp_rfc3339 = (\<lambda>_. None), dp_rfc2822 = (\<lambda>_. None),
      dp_naive_datetime = (\<lambda>_ _. None), dp_naive_date = (\<lambda>_ _. None),
      dp_ymd_hms = (\<lambda>_ _ _ _ _ _. None), dp_facet_ok = (\<lambda>s. s \<noteq> [] \<and> hd s = CHR ''/''),
      dp_parse_number = (\<lambda>_. None)\<rparr>"

end
