(* ===== verification/Schema.thy ===== *)
theory Schema
  imports Field_Type
begin

text \<open>
  Field definitions and index schemas (\<open>storage/src/schema.rs\<close>): ghost fields, what a declaration
  resolves to, what a write teaches, which changes a built index cannot serve, and the checks a
  declared schema passes. A schema's fields are an ordered map by name; where the source sorts the
  names of its hash map before walking them, the walk here is in the map's own order.
\<close>

section \<open>Ghosts\<close>

record ghost_condition =
  gc_field :: string
  gc_in_values :: "json list option"
  gc_not_in :: "json list option"

record ghost =
  gh_source :: string
  gh_when :: "ghost_condition option"

definition one_or_many :: "json \<Rightarrow> json list option" where
  "one_or_many v = (case v of JNull \<Rightarrow> None | JArray vs \<Rightarrow> Some vs | _ \<Rightarrow> Some [v])"

definition condition_values :: "ghost_condition \<Rightarrow> json list" where
  "condition_values c =
     (case gc_in_values c of
        Some vs \<Rightarrow> vs
      | None \<Rightarrow> (case gc_not_in c of Some vs \<Rightarrow> vs | None \<Rightarrow> []))"

definition condition_matches :: "ghost_condition \<Rightarrow> members \<Rightarrow> bool" where
  "condition_matches c body =
     (let vs = condition_values c;
          listed = (case m_get body (gc_field c) of
                      Some (JArray items) \<Rightarrow> list_ex (\<lambda>item. json_in item vs) items
                    | Some v \<Rightarrow> json_in v vs
                    | None \<Rightarrow> False)
      in listed \<noteq> (gc_not_in c \<noteq> None))"

definition ghost_feeds :: "ghost \<Rightarrow> members \<Rightarrow> bool" where
  "ghost_feeds g body =
     (m_contains body (gh_source g) \<and>
      (case gh_when g of None \<Rightarrow> True | Some c \<Rightarrow> condition_matches c body))"

section \<open>Field definitions\<close>

record field_def =
  fd_name :: string
  fd_field_type :: field_type
  fd_indexed :: bool
  fd_stored :: bool
  fd_fast :: "bool option"
  fd_is_shadow :: bool
  fd_description :: "string option"
  fd_tokenizer :: "string option"
  fd_index_record_option :: "string option"
  fd_learned :: bool
  fd_ghost :: "ghost option"

definition fast_by_default :: "field_type \<Rightarrow> bool" where
  "fast_by_default t = (t \<in> {I64, U64, F64, Date})"

definition can_be_fast :: "field_type \<Rightarrow> bool" where
  "can_be_fast t = (t \<in> {Text, String, I64, U64, F64, Date, Ip})"

definition field_new :: "string \<Rightarrow> field_type \<Rightarrow> field_def" where
  "field_new name t =
     \<lparr>fd_name = name, fd_field_type = t, fd_indexed = True, fd_stored = (name = ''id''),
      fd_fast = Some (name = ''id'' \<or> fast_by_default t), fd_is_shadow = False,
      fd_description = None, fd_tokenizer = None, fd_index_record_option = None,
      fd_learned = False, fd_ghost = None\<rparr>"

definition is_fast :: "field_def \<Rightarrow> bool" where
  "is_fast f =
     (if fd_is_shadow f \<or> \<not> can_be_fast (fd_field_type f) then False
      else case fd_fast f of Some b \<Rightarrow> b | None \<Rightarrow> fast_by_default (fd_field_type f))"

definition field_new_learned :: "string \<Rightarrow> field_type \<Rightarrow> field_def" where
  "field_new_learned name t = (field_new name t)\<lparr>fd_indexed := False, fd_learned := True\<rparr>"

definition retype_learned :: "field_type \<Rightarrow> field_def \<Rightarrow> field_def" where
  "retype_learned t f =
     (let fresh = field_new (fd_name f) t
      in f\<lparr>fd_field_type := fd_field_type fresh, fd_fast := fd_fast fresh\<rparr>)"

definition field_new_shadow :: "string \<Rightarrow> field_type \<Rightarrow> field_def" where
  "field_new_shadow name t =
     \<lparr>fd_name = name, fd_field_type = t, fd_indexed = False, fd_stored = False,
      fd_fast = Some False, fd_is_shadow = True, fd_description = None, fd_tokenizer = None,
      fd_index_record_option = None, fd_learned = False, fd_ghost = None\<rparr>"

definition is_ghost :: "field_def \<Rightarrow> bool" where
  "is_ghost f = (fd_ghost f \<noteq> None)"

subsection \<open>Inferring a type from a value\<close>

definition infer_string_type :: "deps \<Rightarrow> string \<Rightarrow> field_type" where
  "infer_string_type d s =
     (if dp_rfc3339 d s \<noteq> None \<or> dp_rfc2822 d s \<noteq> None \<or> parse_naive_datetime d s \<noteq> None then Date
      else if parse_ip s \<noteq> None then Ip else Text)"

text \<open>A value that is not a list; a list among a list's elements has no element type.\<close>

definition infer_scalar_type :: "deps \<Rightarrow> json \<Rightarrow> field_type" where
  "infer_scalar_type d v =
     (case v of
        JNumber _ \<Rightarrow> (if is_i64 v then I64 else if is_u64 v then U64 else F64)
      | JBool _ \<Rightarrow> Boolean
      | JString s \<Rightarrow> infer_string_type d s
      | JObject _ \<Rightarrow> Json
      | _ \<Rightarrow> Text)"

fun infer_element_type_loop :: "deps \<Rightarrow> field_type option \<Rightarrow> json list \<Rightarrow> field_type option" where
  "infer_element_type_loop d agreed [] = agreed"
| "infer_element_type_loop d agreed (v # vs) =
     (case v of
        JNull \<Rightarrow> infer_element_type_loop d agreed vs
      | JArray _ \<Rightarrow> None
      | JObject _ \<Rightarrow> None
      | _ \<Rightarrow> infer_element_type_loop d
              (Some (case agreed of None \<Rightarrow> infer_scalar_type d v
                     | Some t \<Rightarrow> widened t (infer_scalar_type d v))) vs)"

definition infer_element_type :: "deps \<Rightarrow> json list \<Rightarrow> field_type option" where
  "infer_element_type d items = infer_element_type_loop d None items"

definition infer_type_from_value :: "deps \<Rightarrow> json \<Rightarrow> field_type" where
  "infer_type_from_value d v =
     (case v of
        JArray items \<Rightarrow> (case infer_element_type d items of Some t \<Rightarrow> t | None \<Rightarrow> Text)
      | _ \<Rightarrow> infer_scalar_type d v)"

definition field_new_non_indexed :: "deps \<Rightarrow> string \<Rightarrow> json \<Rightarrow> field_def" where
  "field_new_non_indexed d name v = field_new_learned name (infer_type_from_value d v)"

section \<open>Index schemas\<close>

datatype schema_state = Active | Dropped

record index_schema =
  ix_fields :: "(string, field_def) omap"
  ix_state :: schema_state
  ix_version :: nat
  ix_description :: "string option"
  ix_tenant :: "string option"
  ix_default_fields :: "string list option"
  ix_routing_field_name :: string
  ix_id_fields :: "string list"

definition schema_default :: index_schema where
  "schema_default =
     \<lparr>ix_fields = [], ix_state = Active, ix_version = 1, ix_description = None, ix_tenant = None,
      ix_default_fields = None, ix_routing_field_name = ''id'', ix_id_fields = []\<rparr>"

definition schema_wf :: "index_schema \<Rightarrow> bool" where
  "schema_wf s = (om_inv (ix_fields s) \<and> ix_version s \<le> u64_max)"

text \<open>\<open>fields_by_name\<close> on a list: every field names itself, and once.\<close>

datatype fields_error = NeedsName | ListedTwice string

definition fields_by_name :: "field_def list \<Rightarrow> (fields_error, (string, field_def) omap) result" where
  "fields_by_name fs =
     try_fold (\<lambda>m f. if fd_name f = [] then Err NeedsName
                     else if om_get m (fd_name f) \<noteq> None then Err (ListedTwice (fd_name f))
                     else Ok (om_insert (fd_name f) f m)) [] fs"

definition mark_modified :: "index_schema \<Rightarrow> index_schema" where
  "mark_modified s = s\<lparr>ix_version := sat_add64 (ix_version s) 1\<rparr>"

subsection \<open>Normalization\<close>

definition normalize_description :: "string option \<Rightarrow> string option" where
  "normalize_description desc =
     (case desc of None \<Rightarrow> None
      | Some text \<Rightarrow> (let t = trim text in if t = [] then None else Some t))"

definition or_set :: "string option \<Rightarrow> string \<Rightarrow> string option" where
  "or_set x v = (case x of None \<Rightarrow> Some v | Some y \<Rightarrow> Some y)"

definition normalize_field :: "string \<Rightarrow> field_def \<Rightarrow> field_def" where
  "normalize_field key f =
     (let f = f\<lparr>fd_name := (if fd_name f = [] then key else fd_name f),
               fd_description := normalize_description (fd_description f)\<rparr>;
          f = f\<lparr>fd_fast := Some (is_fast f)\<rparr>
      in if key = ''id''
         then f\<lparr>fd_field_type := Text, fd_fast := Some True, fd_indexed := True, fd_stored := True,
                fd_tokenizer := Some ''raw'', fd_index_record_option := Some ''Basic''\<rparr>
         else if fd_is_shadow f \<or> \<not> fd_indexed f then f
         else case fd_field_type f of
                Text \<Rightarrow> f\<lparr>fd_tokenizer := or_set (fd_tokenizer f) ''default'',
                          fd_index_record_option := or_set (fd_index_record_option f) ''WithFreqsAndPositions''\<rparr>
              | String \<Rightarrow> f\<lparr>fd_tokenizer := or_set (fd_tokenizer f) ''raw'',
                            fd_index_record_option := or_set (fd_index_record_option f) ''Basic''\<rparr>
              | _ \<Rightarrow> f)"

definition ghost_reads :: "ghost \<Rightarrow> string list" where
  "ghost_reads g = gh_source g # (case gh_when g of None \<Rightarrow> [] | Some c \<Rightarrow> [gc_field c])"

definition read_by_ghosts :: "(string, field_def) omap \<Rightarrow> string list" where
  "read_by_ghosts m = concat (map (\<lambda>(_, f). case fd_ghost f of None \<Rightarrow> [] | Some g \<Rightarrow> ghost_reads g) m)"

definition normalize_after_deserialization :: "index_schema \<Rightarrow> index_schema" where
  "normalize_after_deserialization s =
     (let fields = om_map normalize_field (ix_fields s);
          reads = read_by_ghosts fields;
          fields = om_map (\<lambda>name f. if name \<in> set reads then f\<lparr>fd_learned := False\<rparr> else f) fields
      in s\<lparr>ix_description := normalize_description (ix_description s), ix_fields := fields\<rparr>)"

subsection \<open>Learning from a document\<close>

definition evolve_field :: "deps \<Rightarrow> string \<Rightarrow> json \<Rightarrow> index_schema \<Rightarrow> index_schema \<times> bool" where
  "evolve_field d name v s =
     (if name = ''id'' then (s, False)
      else case om_get (ix_fields s) name of
        None \<Rightarrow> (s\<lparr>ix_fields := om_insert name (field_new_non_indexed d name v) (ix_fields s)\<rparr>, True)
      | Some f \<Rightarrow>
          if fd_is_shadow f \<or> is_ghost f then (s, False)
          else if fd_indexed f then (s, False)
          else if \<not> fd_learned f then (s, False)
          else let w = widened (fd_field_type f) (infer_type_from_value d v)
               in if w = fd_field_type f then (s, False)
                  else (s\<lparr>ix_fields := om_insert name (retype_learned w f) (ix_fields s)\<rparr>, True))"

fun evolve_members :: "deps \<Rightarrow> members \<Rightarrow> index_schema \<Rightarrow> index_schema \<times> string list" where
  "evolve_members d [] s = (s, [])"
| "evolve_members d ((name, v) # m) s =
     (case evolve_field d name v s of (s', changed) \<Rightarrow>
        case evolve_members d m s' of (s'', names) \<Rightarrow>
          (s'', if changed then name # names else names))"

definition evolve_from_document :: "deps \<Rightarrow> json \<Rightarrow> index_schema \<Rightarrow> index_schema \<times> string list" where
  "evolve_from_document d blob s =
     (case as_object blob of Some m \<Rightarrow> evolve_members d m s | None \<Rightarrow> (s, []))"

subsection \<open>Edits and queries\<close>

definition get_routing_field :: "index_schema \<Rightarrow> string" where
  "get_routing_field s = (if ix_routing_field_name s = [] then ''id'' else ix_routing_field_name s)"

definition set_routing_field :: "string \<Rightarrow> index_schema \<Rightarrow> (string, index_schema) result" where
  "set_routing_field name s =
     (if om_get (ix_fields s) name = None then Err name else Ok (s\<lparr>ix_routing_field_name := name\<rparr>))"

definition add_shadow_field :: "string \<Rightarrow> field_type \<Rightarrow> index_schema \<Rightarrow> index_schema \<times> bool" where
  "add_shadow_field name t s =
     (if om_get (ix_fields s) name \<noteq> None then (s, False)
      else (mark_modified (s\<lparr>ix_fields := om_insert name (field_new_shadow name t) (ix_fields s)\<rparr>), True))"

definition promote_field_to_indexed :: "string \<Rightarrow> index_schema \<Rightarrow> index_schema \<times> bool" where
  "promote_field_to_indexed name s =
     (case om_get (ix_fields s) name of
        None \<Rightarrow> (s, False)
      | Some f \<Rightarrow>
          if fd_indexed f then (s, False)
          else (mark_modified (s\<lparr>ix_fields := om_insert name (f\<lparr>fd_indexed := True\<rparr>) (ix_fields s)\<rparr>), True))"

definition get_non_indexed_fields :: "index_schema \<Rightarrow> string list" where
  "get_non_indexed_fields s = map fst (filter (\<lambda>(_, f). \<not> fd_indexed f) (ix_fields s))"

definition is_shadow_field :: "index_schema \<Rightarrow> string \<Rightarrow> bool" where
  "is_shadow_field s name = (case om_get (ix_fields s) name of Some f \<Rightarrow> fd_is_shadow f | None \<Rightarrow> False)"

definition is_ghost_field :: "index_schema \<Rightarrow> string \<Rightarrow> bool" where
  "is_ghost_field s name = (case om_get (ix_fields s) name of Some f \<Rightarrow> is_ghost f | None \<Rightarrow> False)"

definition has_shadow_fields :: "index_schema \<Rightarrow> bool" where
  "has_shadow_fields s = list_ex (\<lambda>(_, f). fd_is_shadow f) (ix_fields s)"

definition has_ghost_fields :: "index_schema \<Rightarrow> bool" where
  "has_ghost_fields s = list_ex (\<lambda>(_, f). is_ghost f) (ix_fields s)"

definition shadow_names :: "index_schema \<Rightarrow> string list" where
  "shadow_names s = map fst (filter (\<lambda>(_, f). fd_is_shadow f) (ix_fields s))"

definition ghosts_of :: "index_schema \<Rightarrow> string \<Rightarrow> string list" where
  "ghosts_of s source =
     map fst (filter (\<lambda>(_, f). fd_indexed f \<and>
        (case fd_ghost f of Some g \<Rightarrow> gh_source g = source | None \<Rightarrow> False)) (ix_fields s))"

section \<open>Normalization is a projection\<close>

lemma normalize_description_idem [simp]:
  "normalize_description (normalize_description x) = normalize_description x"
  by (auto simp: normalize_description_def Let_def split: option.splits)

lemma or_set_idem [simp]: "or_set (or_set x v) w = or_set x v" "or_set (Some y) v = Some y"
  by (auto simp: or_set_def split: option.splits)

lemma is_fast_update [simp]:
  "is_fast (f\<lparr>fd_name := n\<rparr>) = is_fast f"
  "is_fast (f\<lparr>fd_description := x\<rparr>) = is_fast f"
  "is_fast (f\<lparr>fd_learned := b\<rparr>) = is_fast f"
  by (simp_all add: is_fast_def split: option.splits)

definition default_tokenizer :: "field_type \<Rightarrow> string option \<Rightarrow> string option" where
  "default_tokenizer t x =
     (if t = Text then or_set x ''default'' else if t = String then or_set x ''raw'' else x)"

definition default_record_option :: "field_type \<Rightarrow> string option \<Rightarrow> string option" where
  "default_record_option t x =
     (if t = Text then or_set x ''WithFreqsAndPositions'' else if t = String then or_set x ''Basic'' else x)"

lemma default_idem [simp]:
  "default_tokenizer t (default_tokenizer t x) = default_tokenizer t x"
  "default_record_option t (default_record_option t x) = default_record_option t x"
  by (simp_all add: default_tokenizer_def default_record_option_def)

text \<open>What each attribute of a normalized field is.\<close>

lemma normalize_field_sel [simp]:
  "fd_name (normalize_field k f) = (if fd_name f = [] then k else fd_name f)"
  "fd_field_type (normalize_field k f) = (if k = ''id'' then Text else fd_field_type f)"
  "fd_indexed (normalize_field k f) = (k = ''id'' \<or> fd_indexed f)"
  "fd_stored (normalize_field k f) = (k = ''id'' \<or> fd_stored f)"
  "fd_fast (normalize_field k f) = Some (k = ''id'' \<or> is_fast f)"
  "fd_is_shadow (normalize_field k f) = fd_is_shadow f"
  "fd_description (normalize_field k f) = normalize_description (fd_description f)"
  "fd_tokenizer (normalize_field k f) =
     (if k = ''id'' then Some ''raw'' else if fd_is_shadow f \<or> \<not> fd_indexed f then fd_tokenizer f
      else default_tokenizer (fd_field_type f) (fd_tokenizer f))"
  "fd_index_record_option (normalize_field k f) =
     (if k = ''id'' then Some ''Basic'' else if fd_is_shadow f \<or> \<not> fd_indexed f then fd_index_record_option f
      else default_record_option (fd_field_type f) (fd_index_record_option f))"
  "fd_learned (normalize_field k f) = fd_learned f"
  "fd_ghost (normalize_field k f) = fd_ghost f"
  by (auto simp: normalize_field_def Let_def default_tokenizer_def default_record_option_def
      split: field_type.splits)

lemma is_fast_normalize [simp]: "k \<noteq> ''id'' \<Longrightarrow> is_fast (normalize_field k f) = is_fast f"
  by (simp add: is_fast_def)

lemma normalize_field_learned:
  "normalize_field k (f\<lparr>fd_learned := b\<rparr>) = (normalize_field k f)\<lparr>fd_learned := b\<rparr>"
  by (rule field_def.equality) simp_all

lemma normalize_field_idem [simp]: "normalize_field k (normalize_field k f) = normalize_field k f"
  by (cases "k = ''id''") (rule field_def.equality; auto)+

lemma read_by_ghosts_map:
  assumes "\<And>k f. fd_ghost (h k f) = fd_ghost f"
  shows "read_by_ghosts (om_map h m) = read_by_ghosts m"
  by (induction m) (auto simp: read_by_ghosts_def om_map_def assms)

lemma om_map_om_map: "om_map g (om_map h m) = om_map (\<lambda>k v. g k (h k v)) m"
  by (simp add: om_map_def comp_def case_prod_beta)

lemma om_map_cong: "(\<And>k v. (k, v) \<in> set m \<Longrightarrow> g k v = h k v) \<Longrightarrow> om_map g m = om_map h m"
  by (auto simp: om_map_def)

definition normal_entry :: "string list \<Rightarrow> string \<Rightarrow> field_def \<Rightarrow> field_def" where
  "normal_entry reads k f =
     (if k \<in> set reads then (normalize_field k f)\<lparr>fd_learned := False\<rparr> else normalize_field k f)"

lemma normalize_eq:
  "normalize_after_deserialization s =
     s\<lparr>ix_description := normalize_description (ix_description s),
       ix_fields := om_map (normal_entry (read_by_ghosts (ix_fields s))) (ix_fields s)\<rparr>"
proof -
  have "read_by_ghosts (om_map normalize_field (ix_fields s)) = read_by_ghosts (ix_fields s)"
    by (rule read_by_ghosts_map) simp
  then show ?thesis
    by (simp add: normalize_after_deserialization_def Let_def om_map_om_map normal_entry_def [abs_def])
qed

lemma read_by_ghosts_normalize [simp]:
  "read_by_ghosts (ix_fields (normalize_after_deserialization s)) = read_by_ghosts (ix_fields s)"
  by (simp add: normalize_eq)
     (rule read_by_ghosts_map, simp add: normal_entry_def)

lemma normal_entry_idem [simp]: "normal_entry reads k (normal_entry reads k f) = normal_entry reads k f"
  by (simp add: normal_entry_def normalize_field_learned)

lemma normalize_idem [simp]:
  "normalize_after_deserialization (normalize_after_deserialization s) = normalize_after_deserialization s"
proof -
  have "read_by_ghosts (om_map (normal_entry (read_by_ghosts (ix_fields s))) (ix_fields s)) =
        read_by_ghosts (ix_fields s)"
    by (rule read_by_ghosts_map) (simp add: normal_entry_def)
  then show ?thesis by (simp add: normalize_eq om_map_om_map)
qed

lemma get_normalized:
  "om_get (ix_fields (normalize_after_deserialization s)) k =
     map_option (normal_entry (read_by_ghosts (ix_fields s)) k) (om_get (ix_fields s) k)"
  by (simp add: normalize_eq)

lemma normalize_wf [simp, inv_intros]: "schema_wf (normalize_after_deserialization s) = schema_wf s"
  by (simp add: normalize_eq schema_wf_def)

section \<open>Learning does not depend on order\<close>

text \<open>What a value does to the one entry it concerns.\<close>

definition learn_entry :: "deps \<Rightarrow> string \<Rightarrow> field_def option \<Rightarrow> field_type \<Rightarrow> field_def option" where
  "learn_entry d name e t =
     (if name = ''id'' then e
      else case e of
        None \<Rightarrow> Some (field_new_learned name t)
      | Some f \<Rightarrow>
          if fd_is_shadow f \<or> is_ghost f \<or> fd_indexed f \<or> \<not> fd_learned f then Some f
          else if widened (fd_field_type f) t = fd_field_type f then Some f
          else Some (retype_learned (widened (fd_field_type f) t) f))"

lemma get_evolve_field:
  "schema_wf s \<Longrightarrow>
   om_get (ix_fields (fst (evolve_field d name v s))) n =
     (if n = name then learn_entry d name (om_get (ix_fields s) name) (infer_type_from_value d v)
      else om_get (ix_fields s) n)"
  by (auto simp: evolve_field_def learn_entry_def Let_def schema_wf_def field_new_non_indexed_def
      split: option.splits)

lemma evolve_field_frame:
  "fst (evolve_field d name v s) = s\<lparr>ix_fields := ix_fields (fst (evolve_field d name v s))\<rparr>"
  by (auto simp: evolve_field_def Let_def split: option.splits)

lemma evolve_field_wf [simp, inv_intros]: "schema_wf s \<Longrightarrow> schema_wf (fst (evolve_field d name v s))"
  by (auto simp: evolve_field_def Let_def schema_wf_def split: option.splits)

definition learn_members :: "deps \<Rightarrow> members \<Rightarrow> index_schema \<Rightarrow> index_schema" where
  "learn_members d m s = fold (\<lambda>(name, v) s. fst (evolve_field d name v s)) m s"

lemma evolve_members_learn: "fst (evolve_members d m s) = learn_members d m s"
  by (induction d m s rule: evolve_members.induct) (auto simp: learn_members_def split: prod.splits)

definition types_seen :: "deps \<Rightarrow> string \<Rightarrow> members \<Rightarrow> field_type list" where
  "types_seen d n m = map (\<lambda>(_, v). infer_type_from_value d v) (filter (\<lambda>(k, _). k = n) m)"

lemma learn_members_wf [simp, inv_intros]: "schema_wf s \<Longrightarrow> schema_wf (learn_members d m s)"
  by (induction m arbitrary: s) (auto simp: learn_members_def)

lemma get_learn_members:
  "schema_wf s \<Longrightarrow> om_get (ix_fields (learn_members d m s)) n =
     foldl (learn_entry d n) (om_get (ix_fields s) n) (types_seen d n m)"
  by (induction m arbitrary: s) (auto simp: learn_members_def types_seen_def get_evolve_field)

lemma learn_members_frame:
  "learn_members d m s = s\<lparr>ix_fields := ix_fields (learn_members d m s)\<rparr>"
proof (induction m arbitrary: s)
  case (Cons e m)
  obtain n v where e: "e = (n, v)" by (cases e)
  have "learn_members d (e # m) s = learn_members d m (fst (evolve_field d n v s))"
    by (simp add: learn_members_def e)
  then show ?case using Cons.IH [of "fst (evolve_field d n v s)"] evolve_field_frame [of d n v s]
    by (metis (no_types, lifting) index_schema.update_convs(1) index_schema.surjective)
qed (simp add: learn_members_def)

text \<open>A learned entry is determined by its name and the join of the types seen.\<close>

definition learns :: "field_def \<Rightarrow> bool" where
  "learns f = (\<not> fd_is_shadow f \<and> \<not> is_ghost f \<and> \<not> fd_indexed f \<and> fd_learned f)"

definition at_type :: "field_def \<Rightarrow> field_type \<Rightarrow> field_def" where
  "at_type f t = (if t = fd_field_type f then f else retype_learned t f)"

lemma retype_simps [simp]:
  "fd_field_type (retype_learned t f) = t"
  "learns (retype_learned t f) = learns f"
  "retype_learned t (retype_learned u f) = retype_learned t f"
  by (simp_all add: retype_learned_def Let_def field_new_def learns_def is_ghost_def)

lemma learns_new [simp]: "learns (field_new_learned n t)"
  by (simp add: field_new_learned_def field_new_def learns_def is_ghost_def)

lemma retype_new: "retype_learned t (field_new_learned n u) = field_new_learned n t"
  by (simp add: field_new_learned_def retype_learned_def field_new_def)

lemma new_learned_type [simp]: "fd_field_type (field_new_learned n t) = t"
  by (simp add: field_new_learned_def field_new_def)

lemma fold_learn_fixed:
  "n = ''id'' \<or> \<not> learns f \<Longrightarrow> foldl (learn_entry d n) (Some f) ts = Some f"
  by (induction ts) (auto simp: learn_entry_def learns_def)

lemma fold_learn_id: "foldl (learn_entry d ''id'') e ts = e"
  by (induction ts) (auto simp: learn_entry_def)

lemma learn_entry_Some:
  "n \<noteq> ''id'' \<Longrightarrow> learns f \<Longrightarrow> learn_entry d n (Some f) t = Some (at_type f (widened (fd_field_type f) t))"
  by (auto simp: learn_entry_def learns_def at_type_def)

lemma fold_learn_Some:
  assumes "n \<noteq> ''id''" "learns f"
  shows "foldl (learn_entry d n) (Some f) ts = Some (at_type f (foldl widened (fd_field_type f) ts))"
  using assms
proof (induction ts arbitrary: f)
  case Nil
  then show ?case by (simp add: at_type_def)
next
  case (Cons t ts)
  let ?w = "widened (fd_field_type f) t"
  let ?T = "foldl widened ?w ts"
  have f: "learns (at_type f ?w)" "fd_field_type (at_type f ?w) = ?w"
    using Cons.prems by (auto simp: at_type_def)
  have stays: "?w = fd_field_type f" if "?T = fd_field_type f"
  proof (rule wid.below_antisym)
    show "wid.below ?w (fd_field_type f)" using wid.fold_join_above [of ?w ts] that by simp
    show "wid.below (fd_field_type f) ?w" by (rule wid.below_join)
  qed
  have "at_type (at_type f ?w) ?T = at_type f ?T"
  proof (cases "?w = fd_field_type f")
    case True
    then show ?thesis by (simp add: at_type_def)
  next
    case False
    with stays have "?T \<noteq> fd_field_type f" by blast
    with False show ?thesis by (simp add: at_type_def)
  qed
  with Cons.IH [OF Cons.prems(1) f(1)] f(2) Cons.prems show ?case
    by (simp add: learn_entry_Some)
qed

lemma fold_learn_None:
  assumes "n \<noteq> ''id''"
  shows "foldl (learn_entry d n) None (t # ts) = Some (field_new_learned n (foldl widened t ts))"
proof -
  have "learn_entry d n None t = Some (field_new_learned n t)"
    using assms by (simp add: learn_entry_def)
  then show ?thesis
    by (simp add: fold_learn_Some [OF assms] at_type_def retype_new)
qed

text \<open>The entry after a sequence of values depends only on the set of their types.\<close>

lemma fold_learn_set:
  assumes "set ts = set us"
  shows "foldl (learn_entry d n) e ts = foldl (learn_entry d n) e us"
proof (cases "n = ''id''")
  case True
  then show ?thesis by (simp add: fold_learn_id)
next
  case False
  show ?thesis
  proof (cases e)
    case None
    show ?thesis
    proof (cases ts)
      case Nil
      with assms show ?thesis by simp
    next
      case (Cons t ts')
      then obtain u us' where us: "us = u # us'" using assms by (cases us) auto
      have "foldl widened t ts' = foldl widened u us'"
        by (rule wid.fold_join_set) (use assms Cons us in simp)
      then show ?thesis
        by (simp only: None Cons us fold_learn_None [OF False])
    qed
  next
    case (Some f)
    have "foldl widened (fd_field_type f) ts = foldl widened (fd_field_type f) us"
      by (rule wid.fold_join_set) (use assms in simp)
    then show ?thesis
      by (cases "learns f") (simp_all add: Some fold_learn_fixed fold_learn_Some [OF False])
  qed
qed

definition learn_documents :: "deps \<Rightarrow> json list \<Rightarrow> index_schema \<Rightarrow> index_schema" where
  "learn_documents d docs s = fold (\<lambda>doc s. fst (evolve_from_document d doc s)) docs s"

definition all_members :: "json list \<Rightarrow> members" where
  "all_members docs = concat (map (\<lambda>doc. case as_object doc of Some m \<Rightarrow> m | None \<Rightarrow> []) docs)"

lemma learn_documents_members: "learn_documents d docs s = learn_members d (all_members docs) s"
proof (induction docs arbitrary: s)
  case (Cons doc docs)
  then show ?case
    by (cases "as_object doc")
       (simp_all add: learn_documents_def all_members_def evolve_from_document_def
          evolve_members_learn learn_members_def)
qed (simp add: learn_documents_def all_members_def learn_members_def)

lemma types_seen_set:
  "set m = set m' \<Longrightarrow> set (types_seen d n m) = set (types_seen d n m')"
  by (auto simp: types_seen_def)

lemma learn_members_set:
  assumes "schema_wf s" "set m = set m'"
  shows "learn_members d m s = learn_members d m' s"
proof -
  have eq: "ix_fields (learn_members d m s) = ix_fields (learn_members d m' s)"
  proof (rule om_ext)
    fix n
    show "om_get (ix_fields (learn_members d m s)) n = om_get (ix_fields (learn_members d m' s)) n"
      using assms fold_learn_set [OF types_seen_set [OF assms(2)]] by (simp add: get_learn_members)
  qed (use assms learn_members_wf in \<open>auto simp: schema_wf_def\<close>)
  have "learn_members d m s = s\<lparr>ix_fields := ix_fields (learn_members d m s)\<rparr>"
    by (rule learn_members_frame)
  also have "\<dots> = s\<lparr>ix_fields := ix_fields (learn_members d m' s)\<rparr>"
    by (simp only: eq)
  also have "\<dots> = learn_members d m' s"
    by (rule learn_members_frame [symmetric])
  finally show ?thesis .
qed

lemma learn_documents_set:
  assumes "schema_wf s" "set docs = set docs'"
  shows "learn_documents d docs s = learn_documents d docs' s"
proof -
  have "set (all_members docs) = set (all_members docs')"
    by (simp add: all_members_def assms(2))
  with assms(1) show ?thesis
    unfolding learn_documents_members by (rule learn_members_set)
qed

text \<open>What is learned admits every value it was learned from, and nothing else is touched.\<close>

lemma learned_type_admits:
  assumes "schema_wf s" "(n, v) \<in> set (all_members docs)" "n \<noteq> ''id''"
    and "om_get (ix_fields (learn_documents d docs s)) n = Some f" "learns f"
  shows "wid.below (infer_type_from_value d v) (fd_field_type f)"
proof -
  let ?e = "om_get (ix_fields s) n" and ?ts = "types_seen d n (all_members docs)"
  have in_ts: "infer_type_from_value d v \<in> set ?ts"
    using assms(2) by (force simp: types_seen_def)
  have f: "foldl (learn_entry d n) ?e ?ts = Some f"
    using assms(1,4) by (simp add: learn_documents_members get_learn_members)
  show ?thesis
  proof (cases ?e)
    case None
    then obtain t ts where ts: "?ts = t # ts" using in_ts by (cases ?ts) auto
    then have "fd_field_type f = foldl widened t ts"
      using f by (simp only: None ts fold_learn_None [OF assms(3)]) (auto simp del: foldl.simps)
    then show ?thesis using wid.fold_join_bounds [of _ t ts] in_ts ts by simp
  next
    case (Some g)
    show ?thesis
    proof (cases "learns g")
      case True
      with f Some have "fd_field_type f = foldl widened (fd_field_type g) ?ts"
        by (auto simp: fold_learn_Some [OF assms(3)] at_type_def)
      then show ?thesis using wid.fold_join_upper [OF in_ts] by simp
    next
      case False
      with f Some assms(5) show ?thesis by (simp add: fold_learn_fixed)
    qed
  qed
qed

lemma learning_keeps_declared:
  assumes "schema_wf s" "om_get (ix_fields s) n = Some f" "n = ''id'' \<or> \<not> learns f"
  shows "om_get (ix_fields (learn_documents d docs s)) n = Some f"
  using assms by (simp add: learn_documents_members get_learn_members fold_learn_fixed)

section \<open>Properties\<close>





end
