(* ===== verification/Schema_Change.thy ===== *)
theory Schema_Change
  imports Schema
begin

text \<open>
  Judging schemas against each other (\<open>storage/src/schema.rs\<close>): drops counted among several nodes'
  records, the changes a built index cannot serve as it is, the checks a declared schema passes,
  and the fields an unqualified term searches.
\<close>

section \<open>Drops\<close>

text \<open>
  The trait \<open>SchemaVersion\<close>: its default method and the function written against it take the two
  required methods as arguments, and the locale holds what they promise a caller.
\<close>

definition dropped_by :: "('s \<Rightarrow> nat) \<Rightarrow> ('s \<Rightarrow> bool) \<Rightarrow> 's \<Rightarrow> nat \<Rightarrow> bool" where
  "dropped_by version records_drop s dropped_at = (\<not> records_drop s \<and> version s \<le> dropped_at)"

record ('n, 's) drops_counted =
  dc_dropped_at :: nat
  dc_missed :: "'n list"
  dc_standing :: "('n \<times> 's) list"

definition count_drops ::
  "('s \<Rightarrow> nat) \<Rightarrow> ('s \<Rightarrow> bool) \<Rightarrow> ('n \<times> 's) list \<Rightarrow> nat \<Rightarrow> ('n, 's) drops_counted" where
  "count_drops version records_drop records dropped_at =
     (let dropped_at = foldl max dropped_at (map (version \<circ> snd) (filter (records_drop \<circ> snd) records))
      in \<lparr>dc_dropped_at = dropped_at,
          dc_missed = map fst (filter (\<lambda>r. dropped_by version records_drop (snd r) dropped_at) records),
          dc_standing = filter (\<lambda>r. \<not> dropped_by version records_drop (snd r) dropped_at) records\<rparr>)"

record schema_record =
  sr_index :: string
  sr_version :: nat
  sr_dropped :: bool
  sr_thumbprint :: u64

definition schema_records_drop :: "index_schema \<Rightarrow> bool" where
  "schema_records_drop s = (ix_state s = Dropped)"

lemma foldl_max_ge: "a \<le> foldl max a (xs :: nat list)" "x \<in> set xs \<Longrightarrow> x \<le> foldl max a xs"
proof (induction xs arbitrary: a)
  case (Cons y xs)
  { case 1 show ?case using Cons(1) [of "max a y"] by simp }
  { case 2 show ?case using 2 Cons(1) [of "max a y"] Cons(2) [of "max a y"] by auto }
qed simp_all

lemma foldl_max_mem: "foldl max a (xs :: nat list) \<in> insert a (set xs)"
proof (induction xs arbitrary: a)
  case (Cons y xs)
  then show ?case using Cons [of "max a y"] by (auto simp: max_def split: if_splits)
qed simp

text \<open>
  The contract: a version and a mark, such that a record written by a drop carries a version above
  the schema it dropped. What \<open>count_drops\<close> concludes then holds for every implementation.
\<close>

locale schema_version =
  fixes version :: "'s \<Rightarrow> nat"
    and records_drop :: "'s \<Rightarrow> bool"
    and drop_of :: "'s \<Rightarrow> 's"
  assumes drop_records: "records_drop (drop_of s)"
    and drop_above: "version s < u64_max \<Longrightarrow> version (drop_of s) = version s + 1"
begin

lemma count_bounds:
  assumes "(n, s) \<in> set rs" "records_drop s"
  shows "version s \<le> dc_dropped_at (count_drops version records_drop rs a)"
  using assms foldl_max_ge(2) [of "version s" "map (version \<circ> snd) (filter (records_drop \<circ> snd) rs)" a]
  by (force simp: count_drops_def Let_def)

lemma standing_live_above:
  assumes "(n, s) \<in> set (dc_standing (count_drops version records_drop rs a))" "\<not> records_drop s"
  shows "dc_dropped_at (count_drops version records_drop rs a) < version s"
  using assms by (auto simp: count_drops_def Let_def dropped_by_def)

lemma missed_iff:
  "n \<in> set (dc_missed (count_drops version records_drop rs a)) \<longleftrightarrow>
     (\<exists>s. (n, s) \<in> set rs \<and> \<not> records_drop s \<and>
          version s \<le> dc_dropped_at (count_drops version records_drop rs a))"
  by (force simp: count_drops_def Let_def dropped_by_def)

lemma partition_complete:
  "length (dc_missed (count_drops version records_drop rs a)) +
   length (dc_standing (count_drops version records_drop rs a)) = length rs"
  using sum_length_filter_compl [of "\<lambda>r. dropped_by version records_drop (snd r)
      (foldl max a (map (version \<circ> snd) (filter (records_drop \<circ> snd) rs)))" rs]
  by (simp add: count_drops_def Let_def)

text \<open>A node that still holds the schema a peer dropped is always counted as having missed it.\<close>

lemma dropped_schema_is_missed:
  assumes "(n, s) \<in> set rs" "(m, drop_of s) \<in> set rs" "\<not> records_drop s" "version s < u64_max"
  shows "n \<in> set (dc_missed (count_drops version records_drop rs a))"
  using assms count_bounds [OF assms(2) drop_records, of a] drop_above [OF assms(4)]
  by (auto simp: missed_iff)

end

text \<open>A drop's record: the fields cleared and the version one above (\<open>HybridStore::delete_index_data\<close>).\<close>

definition tombstone :: "index_schema \<Rightarrow> index_schema" where
  "tombstone s = schema_default\<lparr>ix_fields := [], ix_state := Dropped, ix_version := sat_add64 (ix_version s) 1\<rparr>"

interpretation schema_ver: schema_version ix_version schema_records_drop tombstone
  by unfold_locales (auto simp: schema_records_drop_def tombstone_def sat_add64_def)

definition record_of :: "(index_schema \<Rightarrow> u64) \<Rightarrow> string \<Rightarrow> index_schema \<Rightarrow> schema_record" where
  "record_of fingerprint index s =
     \<lparr>sr_index = index, sr_version = ix_version s, sr_dropped = schema_records_drop s,
      sr_thumbprint = fingerprint s\<rparr>"

definition record_tombstone :: "schema_record \<Rightarrow> schema_record" where
  "record_tombstone r = r\<lparr>sr_dropped := True, sr_version := sat_add64 (sr_version r) 1\<rparr>"

interpretation record_ver: schema_version sr_version sr_dropped record_tombstone
  by unfold_locales (auto simp: record_tombstone_def sat_add64_def)

section \<open>What a built index cannot serve\<close>

datatype record_option = Basic | WithFreqs | WithFreqsAndPositions

definition index_record_option :: "string option \<Rightarrow> record_option" where
  "index_record_option declared =
     (if declared = Some ''Basic'' then Basic
      else if declared = Some ''WithFreqs'' then WithFreqs
      else WithFreqsAndPositions)"

definition text_analysis :: "field_def \<Rightarrow> (string \<times> record_option) option" where
  "text_analysis f =
     (case fd_field_type f of
        String \<Rightarrow> Some (''raw'', Basic)
      | Text \<Rightarrow> Some (case fd_tokenizer f of Some t \<Rightarrow> t | None \<Rightarrow> ''default'',
                      index_record_option (fd_index_record_option f))
      | _ \<Rightarrow> None)"

text \<open>\<open>==\<close> on ghosts: the listed values compare as JSON.\<close>

definition values_eq :: "json list option \<Rightarrow> json list option \<Rightarrow> bool" where
  "values_eq a b =
     (case (a, b) of
        (None, None) \<Rightarrow> True
      | (Some xs, Some ys) \<Rightarrow> list_all2 json_eq xs ys
      | _ \<Rightarrow> False)"

definition condition_eq :: "ghost_condition \<Rightarrow> ghost_condition \<Rightarrow> bool" where
  "condition_eq a b =
     (gc_field a = gc_field b \<and> values_eq (gc_in_values a) (gc_in_values b) \<and>
      values_eq (gc_not_in a) (gc_not_in b))"

definition ghost_opt_eq :: "ghost option \<Rightarrow> ghost option \<Rightarrow> bool" where
  "ghost_opt_eq a b =
     (case (a, b) of
        (None, None) \<Rightarrow> True
      | (Some g, Some h) \<Rightarrow>
          gh_source g = gh_source h \<and>
          (case (gh_when g, gh_when h) of
             (None, None) \<Rightarrow> True
           | (Some c, Some e) \<Rightarrow> condition_eq c e
           | _ \<Rightarrow> False)
      | _ \<Rightarrow> False)"

text \<open>What a change says, with the names and types its text carries.\<close>

datatype change_text =
    NoLongerIndexed string
  | IndexedAs string field_type
  | Retyped string field_type field_type
  | Retokenized string string string
  | Rerecorded string record_option record_option
  | FastChanged string bool bool
  | Refed string "ghost option" "ghost option"
  | IdChanged "string list" "string list"

record schema_change =
  sc_what :: change_text
  sc_conflicts :: bool
  sc_new_writes :: bool

definition conflicting :: "change_text \<Rightarrow> schema_change" where
  "conflicting w = \<lparr>sc_what = w, sc_conflicts = True, sc_new_writes = False\<rparr>"

definition pending :: "change_text \<Rightarrow> schema_change" where
  "pending w = \<lparr>sc_what = w, sc_conflicts = False, sc_new_writes = False\<rparr>"

definition for_new_writes :: "change_text \<Rightarrow> schema_change" where
  "for_new_writes w = \<lparr>sc_what = w, sc_conflicts = False, sc_new_writes = True\<rparr>"

definition built_field :: "index_schema \<Rightarrow> string \<Rightarrow> field_def option" where
  "built_field s name =
     (case om_get (ix_fields s) name of
        Some f \<Rightarrow> if fd_indexed f \<and> \<not> fd_is_shadow f then Some f else None
      | None \<Rightarrow> None)"

text \<open>The three lists one name contributes to: conflicts, pending changes, changes for new writes.\<close>

definition column_conflicts :: "string \<Rightarrow> field_def \<Rightarrow> field_def \<Rightarrow> change_text list" where
  "column_conflicts name was now =
     (case (text_analysis was, text_analysis now) of
        (Some (wt, wr), Some (nt, nr)) \<Rightarrow>
          if (wt, wr) = (nt, nr) then []
          else if fd_field_type was \<noteq> fd_field_type now
               then [Retyped name (fd_field_type was) (fd_field_type now)]
          else (if wt \<noteq> nt then [Retokenized name wt nt] else []) @
               (if wr \<noteq> nr then [Rerecorded name wr nr] else [])
      | _ \<Rightarrow>
          if fd_field_type was \<noteq> fd_field_type now
          then [Retyped name (fd_field_type was) (fd_field_type now)] else [])"

definition name_changes ::
  "index_schema \<Rightarrow> index_schema \<Rightarrow> string \<Rightarrow> change_text list \<times> change_text list \<times> change_text list" where
  "name_changes current nxt name =
     (case (built_field current name, built_field nxt name) of
        (None, None) \<Rightarrow> ([], [], [])
      | (Some _, None) \<Rightarrow> ([], [NoLongerIndexed name], [])
      | (None, Some f) \<Rightarrow> ([], [IndexedAs name (fd_field_type f)], [])
      | (Some was, Some now) \<Rightarrow>
          (column_conflicts name was now,
           if is_fast was \<noteq> is_fast now then [FastChanged name (is_fast was) (is_fast now)] else [],
           if \<not> ghost_opt_eq (fd_ghost was) (fd_ghost now) then [Refed name (fd_ghost was) (fd_ghost now)] else []))"

definition changed_names :: "index_schema \<Rightarrow> index_schema \<Rightarrow> string list" where
  "changed_names current nxt =
     filter (\<lambda>n. n \<noteq> ''id'') (remdups (sort (om_keys (ix_fields current) @ om_keys (ix_fields nxt))))"

definition rebuild_changes :: "index_schema \<Rightarrow> index_schema \<Rightarrow> schema_change list" where
  "rebuild_changes s next_schema =
     (let current = normalize_after_deserialization s;
          nxt = normalize_after_deserialization next_schema;
          per_name = map (name_changes current nxt) (changed_names current nxt);
          id_conflict = (if ix_id_fields current \<noteq> [] \<and> ix_id_fields current \<noteq> ix_id_fields nxt
                         then [IdChanged (ix_id_fields current) (ix_id_fields nxt)] else [])
      in map conflicting (concat (map fst per_name) @ id_conflict) @
         map pending (concat (map (fst \<circ> snd) per_name)) @
         map for_new_writes (concat (map (snd \<circ> snd) per_name)))"

subsection \<open>A change conflicts exactly when a column would be another one\<close>

text \<open>The column a field builds: its analysis for a text column, its type for any other.\<close>

definition column_of :: "field_def \<Rightarrow> (string \<times> record_option) + field_type" where
  "column_of f = (case text_analysis f of Some a \<Rightarrow> Inl a | None \<Rightarrow> Inr (fd_field_type f))"

definition built_column :: "index_schema \<Rightarrow> string \<Rightarrow> ((string \<times> record_option) + field_type) option" where
  "built_column s n =
     (if n = ''id'' then None else map_option column_of (built_field (normalize_after_deserialization s) n))"

definition keeps_columns :: "index_schema \<Rightarrow> index_schema \<Rightarrow> bool" where
  "keeps_columns a b \<longleftrightarrow>
     (\<forall>n c c'. built_column a n = Some c \<and> built_column b n = Some c' \<longrightarrow> c = c')"

definition keeps_key :: "index_schema \<Rightarrow> index_schema \<Rightarrow> bool" where
  "keeps_key a b \<longleftrightarrow> ix_id_fields a = [] \<or> ix_id_fields b = ix_id_fields a"

lemma text_analysis_type:
  "text_analysis f = None \<longleftrightarrow> fd_field_type f \<notin> {Text, String}"
  by (cases "fd_field_type f") (auto simp: text_analysis_def)

lemma column_conflicts_Nil: "column_conflicts n was now = [] \<longleftrightarrow> column_of was = column_of now"
proof (cases "text_analysis was")
  case None
  then show ?thesis
    using text_analysis_type [of was] text_analysis_type [of now]
    by (cases "text_analysis now") (auto simp: column_conflicts_def column_of_def)
next
  case (Some a)
  show ?thesis
  proof (cases "text_analysis now")
    case None
    then have "fd_field_type was \<noteq> fd_field_type now"
      using Some text_analysis_type [of was] text_analysis_type [of now] by auto
    then show ?thesis
      using Some None by (cases a) (simp add: column_conflicts_def column_of_def)
  next
    case (Some b)
    then show ?thesis
      using \<open>text_analysis was = Some a\<close>
      by (cases a; cases b) (auto simp: column_conflicts_def column_of_def)
  qed
qed

lemma built_field_key: "built_field s n = Some f \<Longrightarrow> n \<in> set (om_keys (ix_fields s))"
  by (auto simp: built_field_def split: option.splits if_splits intro: om_get_key)

lemma set_changed_names:
  "set (changed_names a b) = (set (om_keys (ix_fields a)) \<union> set (om_keys (ix_fields b))) - {''id''}"
  by (auto simp: changed_names_def)

lemma conflicts_of_changes:
  "filter sc_conflicts (rebuild_changes s t) =
     map conflicting
       (concat (map (fst \<circ> name_changes (normalize_after_deserialization s) (normalize_after_deserialization t))
          (changed_names (normalize_after_deserialization s) (normalize_after_deserialization t))) @
        (if ix_id_fields s \<noteq> [] \<and> ix_id_fields s \<noteq> ix_id_fields t
         then [IdChanged (ix_id_fields s) (ix_id_fields t)] else []))"
proof -
  have "ix_id_fields (normalize_after_deserialization u) = ix_id_fields u" for u
    by (simp add: normalize_eq)
  then show ?thesis
    by (simp add: rebuild_changes_def Let_def filter_map comp_def conflicting_def pending_def for_new_writes_def)
qed

lemma name_conflicts_Nil:
  "fst (name_changes a b n) = [] \<longleftrightarrow>
     (\<forall>f g. built_field a n = Some f \<and> built_field b n = Some g \<longrightarrow> column_of f = column_of g)"
  by (auto simp: name_changes_def column_conflicts_Nil split: option.splits)

lemma no_conflict_iff:
  "filter sc_conflicts (rebuild_changes s t) = [] \<longleftrightarrow> keeps_columns s t \<and> keeps_key s t"
proof -
  let ?a = "normalize_after_deserialization s" and ?b = "normalize_after_deserialization t"
  have "(\<forall>n \<in> set (changed_names ?a ?b). fst (name_changes ?a ?b n) = []) \<longleftrightarrow> keeps_columns s t"
  proof
    assume L: "\<forall>n \<in> set (changed_names ?a ?b). fst (name_changes ?a ?b n) = []"
    show "keeps_columns s t"
      unfolding keeps_columns_def
    proof (intro allI impI)
      fix n c c' assume bc: "built_column s n = Some c \<and> built_column t n = Some c'"
      then obtain f g where f: "n \<noteq> ''id''" "built_field ?a n = Some f" "built_field ?b n = Some g"
          "c = column_of f" "c' = column_of g"
        by (auto simp: built_column_def split: if_splits)
      then have "n \<in> set (changed_names ?a ?b)" by (auto simp: set_changed_names dest: built_field_key)
      with L f show "c = c'" by (auto simp: name_conflicts_Nil)
    qed
  next
    assume R: "keeps_columns s t"
    show "\<forall>n \<in> set (changed_names ?a ?b). fst (name_changes ?a ?b n) = []"
    proof
      fix n assume "n \<in> set (changed_names ?a ?b)"
      then have "n \<noteq> ''id''" by (simp add: set_changed_names)
      show "fst (name_changes ?a ?b n) = []"
        unfolding name_conflicts_Nil
      proof (intro allI impI)
        fix f g assume "built_field ?a n = Some f \<and> built_field ?b n = Some g"
        with \<open>n \<noteq> ''id''\<close> have "built_column s n = Some (column_of f)" "built_column t n = Some (column_of g)"
          by (simp_all add: built_column_def)
        with R show "column_of f = column_of g" unfolding keeps_columns_def by blast
      qed
    qed
  qed
  then have "concat (map (fst \<circ> name_changes ?a ?b) (changed_names ?a ?b)) = [] \<longleftrightarrow> keeps_columns s t"
    by simp
  then show ?thesis
    unfolding conflicts_of_changes keeps_key_def map_is_Nil_conv append_is_Nil_conv by auto
qed

lemma keeps_self: "keeps_columns s s" "keeps_key s s"
  by (auto simp: keeps_columns_def keeps_key_def)

section \<open>The checks a declared schema passes\<close>

datatype schema_error =
    DefaultFieldsEmpty
  | DefaultFieldTwice string
  | DefaultFieldUnknown string
  | DefaultFieldUnsearchable string
  | UnknownTokenizer string string nat
  | GhostIsKey string
  | GhostNotText string
  | GhostStoredOrFast string
  | GhostRoutes string
  | GhostReadsKey string string
  | GhostReadsUnknown string string
  | GhostReadsGhost string string
  | GhostSourceType string
  | GhostSameColumn string
  | GhostBothLists string
  | GhostNoList string
  | GhostEmptyList string
  | GhostConditionType string
  | GhostValueType string
  | IndexDescriptionLong nat
  | FieldDescriptionLong string nat nat

fun check_default_fields ::
  "index_schema \<Rightarrow> string list \<Rightarrow> string list \<Rightarrow> (schema_error, unit) result" where
  "check_default_fields s seen [] = Ok ()"
| "check_default_fields s seen (name # names) =
     (if name \<in> set seen then Err (DefaultFieldTwice name)
      else case om_get (ix_fields s) name of
        None \<Rightarrow> Err (DefaultFieldUnknown name)
      | Some f \<Rightarrow>
          if fd_is_shadow f \<or> \<not> fd_indexed f \<or> \<not> is_default_searchable (fd_field_type f)
          then Err (DefaultFieldUnsearchable name)
          else check_default_fields s (name # seen) names)"

definition validate_default_fields :: "index_schema \<Rightarrow> (schema_error, unit) result" where
  "validate_default_fields s =
     (case ix_default_fields s of
        None \<Rightarrow> Ok ()
      | Some names \<Rightarrow> if names = [] then Err DefaultFieldsEmpty else check_default_fields s [] names)"

definition TOKENIZERS :: "string list" where
  "TOKENIZERS =
     [''default'', ''raw'', ''whitespace'', ''en_stem'', ''de_stem'', ''de_stem_fold'', ''es_stem'',
      ''es_stem_fold'', ''fr_stem'', ''fr_stem_fold'', ''hr_stem'', ''hr_stem_fold'', ''it_stem'',
      ''it_stem_fold'', ''pt_stem'', ''pt_stem_fold'']"

definition is_known_tokenizer :: "string \<Rightarrow> bool" where
  "is_known_tokenizer name = (name \<in> set TOKENIZERS)"

definition validate_tokenizers :: "index_schema \<Rightarrow> (schema_error, unit) result" where
  "validate_tokenizers s =
     (case concat (map (\<lambda>(name, f).
             case fd_tokenizer f of
               Some t \<Rightarrow> if fd_field_type f = Text \<and> \<not> is_known_tokenizer t then [(name, t)] else []
             | None \<Rightarrow> []) (ix_fields s)) of
        [] \<Rightarrow> Ok ()
      | (name, t) # rest \<Rightarrow> Err (UnknownTokenizer name t (length rest)))"

definition ghost_reads_field :: "index_schema \<Rightarrow> string \<Rightarrow> string \<Rightarrow> (schema_error, field_def) result" where
  "ghost_reads_field s name read =
     (if read = ''id'' \<or> is_shadow_field s read then Err (GhostReadsKey name read)
      else case om_get (ix_fields s) read of
        None \<Rightarrow> Err (GhostReadsUnknown name read)
      | Some f \<Rightarrow> if fd_ghost f \<noteq> None then Err (GhostReadsGhost name read) else Ok f)"

definition condition_fits :: "field_type \<Rightarrow> (json \<Rightarrow> bool) option" where
  "condition_fits t =
     (case t of
        Text \<Rightarrow> Some (\<lambda>v. as_str v \<noteq> None)
      | String \<Rightarrow> Some (\<lambda>v. as_str v \<noteq> None)
      | I64 \<Rightarrow> Some is_i64
      | U64 \<Rightarrow> Some is_u64
      | Boolean \<Rightarrow> Some (\<lambda>v. as_bool v \<noteq> None)
      | _ \<Rightarrow> None)"

definition validate_condition ::
  "index_schema \<Rightarrow> string \<Rightarrow> ghost_condition \<Rightarrow> (schema_error, unit) result" where
  "validate_condition s name c =
     and_then (ghost_reads_field s name (gc_field c)) (\<lambda>discriminator.
     and_then (case (gc_in_values c, gc_not_in c) of
                 (Some vs, None) \<Rightarrow> Ok vs
               | (None, Some vs) \<Rightarrow> Ok vs
               | (Some _, Some _) \<Rightarrow> Err (GhostBothLists name)
               | (None, None) \<Rightarrow> Err (GhostNoList name)) (\<lambda>vs.
       if vs = [] then Err (GhostEmptyList name)
       else case condition_fits (fd_field_type discriminator) of
              None \<Rightarrow> Err (GhostConditionType name)
            | Some fits \<Rightarrow> if list_all fits vs then Ok () else Err (GhostValueType name)))"

definition validate_ghost ::
  "index_schema \<Rightarrow> string \<Rightarrow> field_def \<Rightarrow> ghost \<Rightarrow> (schema_error, unit) result" where
  "validate_ghost s name f g =
     (if name = ''id'' \<or> fd_is_shadow f then Err (GhostIsKey name)
      else if fd_field_type f \<noteq> Text then Err (GhostNotText name)
      else if fd_stored f \<or> is_fast f then Err (GhostStoredOrFast name)
      else if name = get_routing_field s then Err (GhostRoutes name)
      else and_then (ghost_reads_field s name (gh_source g)) (\<lambda>source.
        if fd_field_type source \<notin> {Text, String} then Err (GhostSourceType name)
        else case gh_when g of
               None \<Rightarrow> if fd_indexed source \<and> text_analysis source = text_analysis f
                       then Err (GhostSameColumn name) else Ok ()
             | Some c \<Rightarrow> validate_condition s name c))"

definition validate_ghosts :: "index_schema \<Rightarrow> (schema_error, unit) result" where
  "validate_ghosts s =
     try_fold (\<lambda>_ (name, f). case fd_ghost f of None \<Rightarrow> Ok () | Some g \<Rightarrow> validate_ghost s name f g)
       () (ix_fields s)"

definition MAX_INDEX_DESCRIPTION_CHARS :: nat where
  "MAX_INDEX_DESCRIPTION_CHARS = 512"

definition MAX_FIELD_DESCRIPTION_CHARS :: nat where
  "MAX_FIELD_DESCRIPTION_CHARS = 200"

definition validate_descriptions :: "index_schema \<Rightarrow> (schema_error, unit) result" where
  "validate_descriptions s =
     (case (case ix_description s of
              Some text \<Rightarrow> if MAX_INDEX_DESCRIPTION_CHARS < char_count text
                             then Some (char_count text) else None
            | None \<Rightarrow> None) of
        Some n \<Rightarrow> Err (IndexDescriptionLong n)
      | None \<Rightarrow>
          (case concat (map (\<lambda>(name, f).
                  case fd_description f of
                    Some text \<Rightarrow> if MAX_FIELD_DESCRIPTION_CHARS < char_count text
                                   then [(name, char_count text)] else []
                  | None \<Rightarrow> []) (ix_fields s)) of
             [] \<Rightarrow> Ok ()
           | (name, n) # rest \<Rightarrow> Err (FieldDescriptionLong name n (length rest))))"

definition select_default_fields :: "string list \<Rightarrow> string list option \<Rightarrow> nat \<Rightarrow> string list \<times> bool" where
  "select_default_fields candidates declared mx =
     (let selected = (case declared of
                        Some names \<Rightarrow> filter (\<lambda>n. n \<in> set candidates) names
                      | None \<Rightarrow> sort (remdups candidates));
          truncated = (0 < mx \<and> mx < length selected)
      in (if truncated then take mx selected else selected, truncated))"

subsection \<open>What the checks establish\<close>

lemma check_default_fields_Ok:
  "check_default_fields s seen names = Inr () \<longleftrightarrow>
     distinct names \<and> set names \<inter> set seen = {} \<and>
     (\<forall>n \<in> set names. \<exists>f. om_get (ix_fields s) n = Some f \<and> \<not> fd_is_shadow f \<and> fd_indexed f \<and>
        is_default_searchable (fd_field_type f))"
  by (induction names arbitrary: seen) (auto split: option.splits)

lemma try_fold_unit_Ok:
  "try_fold (\<lambda>_. h) () xs = Inr () \<longleftrightarrow> (\<forall>x \<in> set xs. h x = Inr ())"
  by (induction xs) (auto split: sum.splits)

lemma validate_ghosts_Ok:
  "validate_ghosts s = Inr () \<longleftrightarrow>
     (\<forall>(n, f) \<in> set (ix_fields s). case fd_ghost f of None \<Rightarrow> True | Some g \<Rightarrow> validate_ghost s n f g = Inr ())"
  unfolding validate_ghosts_def by (subst try_fold_unit_Ok) (auto split: option.splits)

lemma ghost_reads_field_Ok:
  "ghost_reads_field s n r = Inr f \<longleftrightarrow>
     r \<noteq> ''id'' \<and> \<not> is_shadow_field s r \<and> om_get (ix_fields s) r = Some f \<and> fd_ghost f = None"
  by (auto simp: ghost_reads_field_def split: option.splits)

lemma validate_condition_Ok:
  assumes "validate_condition s n c = Inr ()"
  shows "condition_values c \<noteq> []" "(gc_in_values c = None) \<noteq> (gc_not_in c = None)"
    "\<exists>f fits. om_get (ix_fields s) (gc_field c) = Some f \<and> condition_fits (fd_field_type f) = Some fits \<and>
       list_all fits (condition_values c)"
  using assms
  by (auto simp: validate_condition_def and_then_Ok_iff ghost_reads_field_Ok condition_values_def
      split: option.splits if_splits)

lemma validate_ghost_Ok:
  assumes "validate_ghost s n f g = Inr ()"
  shows "\<exists>src. om_get (ix_fields s) (gh_source g) = Some src \<and> fd_ghost src = None \<and>
           gh_source g \<noteq> ''id'' \<and> \<not> fd_is_shadow src \<and> fd_field_type src \<in> {Text, String}"
    "\<And>c. gh_when g = Some c \<Longrightarrow> validate_condition s n c = Inr ()"
    "n \<noteq> get_routing_field s" "fd_field_type f = Text" "\<not> fd_stored f" "\<not> is_fast f"
  using assms
  by (auto simp: validate_ghost_def and_then_Ok_iff ghost_reads_field_Ok is_shadow_field_def
      split: option.splits if_splits)

lemma fits_scalar:
  assumes "condition_fits t = Some fits" "fits v"
  shows "json_eq v v" "\<not> json_eq JNull v" "as_array v = None"
proof -
  have "jnum_eq n n" for n by (cases n) simp_all
  then show "json_eq v v" "\<not> json_eq JNull v" "as_array v = None"
    using assms by (cases t; cases v; auto simp: condition_fits_def is_i64_def is_u64_def)+
qed

lemma condition_in_matches:
  assumes "gc_not_in c = None" "json_in v (condition_values c)" "as_array v = None" "m_get body (gc_field c) = Some v"
  shows "condition_matches c body"
  using assms by (cases v) (simp_all add: condition_matches_def Let_def)

lemma validated_condition_matches:
  assumes "validate_condition s n c = Inr ()"
  shows "\<exists>body. m_contains body src \<and> condition_matches c body"
proof -
  obtain fits where fits: "\<And>v. v \<in> set (condition_values c) \<Longrightarrow> fits v"
    and t: "\<exists>t. condition_fits t = Some fits"
    using validate_condition_Ok(3) [OF assms] by (auto simp: list_all_iff)
  show ?thesis
  proof (cases "gc_not_in c")
    case None
    obtain v where v: "v \<in> set (condition_values c)"
      using validate_condition_Ok(1) [OF assms] by (meson list.set_sel(1))
    then have "json_eq v v" "as_array v = None"
      using fits_scalar fits t by blast+
    then have "json_in v (condition_values c)" "as_array v = None"
      using v by (auto simp: json_in_def list_ex_iff)
    then have "condition_matches c [(gc_field c, v), (src, JNull)]"
      by (rule condition_in_matches [OF None]) (simp add: m_get_def)
    then show ?thesis
      by (intro exI [of _ "[(gc_field c, v), (src, JNull)]"]) (simp add: m_contains_def)
  next
    case (Some vs)
    have "\<not> json_in JNull (condition_values c)"
      using fits_scalar fits t by (auto simp: json_in_def list_ex_iff)
    then have "condition_matches c [(src, JNull)]"
      using Some by (simp add: condition_matches_def Let_def m_get_def)
    then show ?thesis
      by (intro exI [of _ "[(src, JNull)]"]) (simp add: m_contains_def)
  qed
qed

section \<open>Properties\<close>

text \<open>
  A schema change is called conflicting exactly when the index as built would act against it: some
  field indexed before and after would need another column (another type, tokenizer or postings, both
  schemas read as they build and not as they are spelled), or documents already keyed one way would be
  keyed another.
\<close>

lemma conflicts_are_column_changes:
  "filter sc_conflicts (rebuild_changes s t) = [] \<longleftrightarrow> keeps_columns s t \<and> keeps_key s t"
  by (rule no_conflict_iff)

text \<open>
  A node that missed a drop is always found out. Whatever other records are counted, a node still
  holding the live schema that another node recorded as dropped is listed as having missed the drop, and
  every live schema left standing is newer than the highest drop recorded.
\<close>

lemma missed_drop_is_counted:
  assumes "(n, s) \<in> set rs" "(m, tombstone s) \<in> set rs" "ix_state s = Active" "ix_version s < u64_max"
  shows "n \<in> set (dc_missed (count_drops ix_version schema_records_drop rs a)) \<and>
    (\<forall>(k, u) \<in> set (dc_standing (count_drops ix_version schema_records_drop rs a)).
       ix_state u = Active \<longrightarrow> dc_dropped_at (count_drops ix_version schema_records_drop rs a) < ix_version u)"
  using schema_ver.dropped_schema_is_missed [OF assms(1,2) _ assms(4), of a] assms(3)
    schema_ver.standing_live_above [of _ _ rs a]
  by (auto simp: schema_records_drop_def)

text \<open>
  A ghost a validated schema declares can be fed. Its source and, if it has a condition, its
  discriminator are declared fields the stored body holds, neither is a ghost, and a document exists
  that the ghost reads; it is never the routing field.
\<close>

lemma validated_ghost_is_fed:
  assumes "validate_ghosts s = Inr ()" "(n, f) \<in> set (ix_fields s)" "fd_ghost f = Some g"
  shows "(\<exists>src. om_get (ix_fields s) (gh_source g) = Some src \<and> fd_ghost src = None \<and> \<not> fd_is_shadow src) \<and>
    n \<noteq> get_routing_field s \<and> (\<exists>body. ghost_feeds g body)"
proof -
  have ok: "validate_ghost s n f g = Inr ()"
    using assms by (fastforce simp: validate_ghosts_Ok)
  have "\<exists>body. ghost_feeds g body"
  proof (cases "gh_when g")
    case None
    then show ?thesis
      by (intro exI [of _ "[(gh_source g, JNull)]"]) (simp add: ghost_feeds_def m_contains_def)
  next
    case (Some c)
    have ok_c: "validate_condition s n c = Inr ()" using validate_ghost_Ok(2) [OF ok Some] .
    then show ?thesis
      using validated_condition_matches [OF ok_c, of "gh_source g"] Some by (auto simp: ghost_feeds_def)
  qed
  then show ?thesis
    using validate_ghost_Ok(1,3) [OF ok] by blast
qed

definition ghost_schema :: index_schema where
  "ghost_schema = schema_default\<lparr>ix_fields :=
     [(''text'', field_new ''text'' Text),
      (''text_en'', (field_new ''text_en'' Text)\<lparr>fd_tokenizer := Some ''en_stem'',
         fd_ghost := Some \<lparr>gh_source = ''text'', gh_when = None\<rparr>\<rparr>)]\<rparr>"

lemma ghost_schema_valid: "validate_ghosts ghost_schema = Inr ()"
  by (simp add: ghost_schema_def validate_ghosts_def validate_ghost_def schema_default_def field_new_def
      fast_by_default_def is_fast_def get_routing_field_def ghost_reads_field_def is_shadow_field_def
      text_analysis_def)

end
