(* ===== verification/Document.thy ===== *)
theory Document
  imports Schema_Change
begin

text \<open>
  From a stored body to what is indexed and what is answered (\<open>storage/src/schema.rs\<close>): the Tantivy
  document of a body, the fields stripped before it is stored, and the key put back when it is read.
\<close>

section \<open>The columns of a built index\<close>

datatype column_type = TStr | TU64 | TI64 | TF64 | TBool | TDate | TFacet | TBytes | TJson | TIpAddr

record schema_fields =
  sf_id :: tfield
  sf_seq :: "tfield option"
  sf_indexed_fields :: "(string, tfield) omap"
  sf_built_types :: "(string, column_type) omap"

definition declared_fits :: "field_type \<Rightarrow> column_type \<Rightarrow> bool" where
  "declared_fits declared built =
     ((declared, built) \<in> set
        [(Text, TStr), (String, TStr), (Json, TStr), (Json, TJson), (I64, TI64), (U64, TU64), (F64, TF64),
         (Date, TDate), (Boolean, TBool), (Bytes, TBytes), (Ip, TIpAddr), (Facet, TFacet)])"

fun type_of_column :: "column_type \<Rightarrow> field_type" where
  "type_of_column TStr = Text"
| "type_of_column TJson = Json"
| "type_of_column TI64 = I64"
| "type_of_column TU64 = U64"
| "type_of_column TF64 = F64"
| "type_of_column TDate = Date"
| "type_of_column TBool = Boolean"
| "type_of_column TBytes = Bytes"
| "type_of_column TIpAddr = Ip"
| "type_of_column TFacet = Facet"

definition writable_type :: "field_type \<Rightarrow> column_type \<Rightarrow> field_type" where
  "writable_type declared built = (if declared_fits declared built then declared else type_of_column built)"

definition write_type :: "schema_fields \<Rightarrow> string \<Rightarrow> field_type \<Rightarrow> field_type" where
  "write_type fs field declared =
     (case om_get (sf_built_types fs) field of
        Some built \<Rightarrow> writable_type declared built
      | None \<Rightarrow> declared)"

text \<open>
  The columns Tantivy's schema builder is given for a schema, in the order they are added: a field's
  handle is its position. The key's own column comes first.
\<close>

record column =
  cl_name :: string
  cl_type :: column_type
  cl_analysis :: "(string \<times> record_option) option"
  cl_indexed :: bool
  cl_fast :: bool
  cl_stored :: bool

fun column_type_of :: "field_type \<Rightarrow> column_type" where
  "column_type_of Text = TStr"
| "column_type_of String = TStr"
| "column_type_of I64 = TI64"
| "column_type_of U64 = TU64"
| "column_type_of F64 = TF64"
| "column_type_of Date = TDate"
| "column_type_of Boolean = TBool"
| "column_type_of Bytes = TBytes"
| "column_type_of Ip = TIpAddr"
| "column_type_of Json = TJson"
| "column_type_of Facet = TFacet"

definition builds_column :: "string \<Rightarrow> field_def \<Rightarrow> bool" where
  "builds_column name f =
     (\<not> (name = ''id'' \<or> name = ''_seq'' \<or> \<not> fd_indexed f \<or> fd_is_shadow f))"

definition column_for :: "string \<Rightarrow> field_def \<Rightarrow> column" where
  "column_for name f =
     \<lparr>cl_name = name, cl_type = column_type_of (fd_field_type f), cl_analysis = text_analysis f,
      cl_indexed = True, cl_fast = (fd_field_type f \<in> {Text, String, I64, U64, F64, Date, Ip} \<and> is_fast f),
      cl_stored = (fd_field_type f = Text \<and> fd_stored f)\<rparr>"

definition id_column :: column where
  "id_column = \<lparr>cl_name = ''id'', cl_type = TStr, cl_analysis = Some (''raw'', Basic),
     cl_indexed = True, cl_fast = True, cl_stored = True\<rparr>"

definition create_schema_from_definition :: "index_schema \<Rightarrow> column list" where
  "create_schema_from_definition s =
     id_column # map (\<lambda>(n, f). column_for n f) (filter (\<lambda>(n, f). builds_column n f) (ix_fields s))"

text \<open>The field map of an index, read from its columns.\<close>

fun field_map :: "nat \<Rightarrow> column list \<Rightarrow> (string, tfield \<times> column_type) omap" where
  "field_map i [] = []"
| "field_map i (c # cs) =
     (if cl_name c = ''id'' \<or> cl_name c = ''_seq'' then field_map (Suc i) cs
      else om_insert (cl_name c) (i, cl_type c) (field_map (Suc i) cs))"

fun column_index :: "string \<Rightarrow> nat \<Rightarrow> column list \<Rightarrow> nat option" where
  "column_index n i [] = None"
| "column_index n i (c # cs) = (if cl_name c = n then Some i else column_index n (Suc i) cs)"

definition load_fields_from_existing_index :: "column list \<Rightarrow> (string, schema_fields) result" where
  "load_fields_from_existing_index cs =
     (case column_index ''id'' 0 cs of
        None \<Rightarrow> Err ''id''
      | Some i \<Rightarrow>
          Ok \<lparr>sf_id = i, sf_seq = column_index ''_seq'' 0 cs,
              sf_indexed_fields = om_map (\<lambda>_. fst) (field_map 0 cs),
              sf_built_types = om_map (\<lambda>_. snd) (field_map 0 cs)\<rparr>)"

section \<open>The document of a body\<close>

text \<open>One member of the body, under its own column.\<close>

definition add_member ::
  "deps \<Rightarrow> schema_fields \<Rightarrow> index_schema \<Rightarrow> bad_value \<Rightarrow> tdoc \<Rightarrow> string \<times> json \<Rightarrow> (store_error, tdoc) result" where
  "add_member d fs s bad doc = (\<lambda>(name, v).
     case om_get (ix_fields s) name of
       None \<Rightarrow> Ok doc
     | Some f \<Rightarrow>
         if fd_indexed f \<and> \<not> fd_is_shadow f \<and> \<not> is_ghost f
         then (case om_get (sf_indexed_fields fs) name of
                 None \<Rightarrow> Ok doc
               | Some col \<Rightarrow>
                   add_json_value_to_doc d col name (write_type fs name (fd_field_type f)) v bad doc)
         else Ok doc)"

text \<open>One field of the schema, fed from its source where it is a ghost the body feeds.\<close>

definition add_ghost ::
  "deps \<Rightarrow> schema_fields \<Rightarrow> members \<Rightarrow> bad_value \<Rightarrow> tdoc \<Rightarrow> string \<times> field_def \<Rightarrow> (store_error, tdoc) result" where
  "add_ghost d fs body bad doc = (\<lambda>(name, f).
     case fd_ghost f of
       None \<Rightarrow> Ok doc
     | Some g \<Rightarrow>
         if \<not> fd_indexed f then Ok doc
         else (case (m_get body (gh_source g), om_get (sf_indexed_fields fs) name) of
                 (Some v, Some col) \<Rightarrow>
                   if ghost_feeds g body
                   then add_json_value_to_doc d col name (write_type fs name (fd_field_type f)) v bad doc
                   else Ok doc
               | _ \<Rightarrow> Ok doc))"

definition document ::
  "deps \<Rightarrow> schema_fields \<Rightarrow> index_schema \<Rightarrow> string \<Rightarrow> nat \<Rightarrow> json option \<Rightarrow> bad_value \<Rightarrow> (store_error, tdoc) result" where
  "document d fs s doc_id seq body bad =
     (let doc = (sf_id fs, VText doc_id) # (case sf_seq fs of Some c \<Rightarrow> [(c, VU64 seq)] | None \<Rightarrow> [])
      in case Option.bind body as_object of
           None \<Rightarrow> Ok doc
         | Some m \<Rightarrow>
             and_then (try_fold (add_member d fs s bad) doc m) (\<lambda>doc.
               try_fold (add_ghost d fs m bad) doc (ix_fields s)))"

section \<open>What is stored and what is answered\<close>

definition filter_unstored_fields_owned :: "json \<Rightarrow> index_schema \<Rightarrow> json" where
  "filter_unstored_fields_owned blob s =
     (case blob of
        JObject m \<Rightarrow>
          JObject (m_retain (\<lambda>k. \<not> (case om_get (ix_fields s) k of
                                       Some f \<Rightarrow> fd_is_shadow f \<or> is_ghost f | None \<Rightarrow> False)) m)
      | _ \<Rightarrow> blob)"

definition document_key_field :: "index_schema \<Rightarrow> string" where
  "document_key_field s = (case shadow_names s of [] \<Rightarrow> ''id'' | n # _ \<Rightarrow> n)"

definition reconstruct_shadow_fields_owned :: "json \<Rightarrow> index_schema \<Rightarrow> string \<Rightarrow> json" where
  "reconstruct_shadow_fields_owned blob s doc_id =
     (case blob of
        JObject m \<Rightarrow>
          (let obj = (if has_ghost_fields s then m_retain (\<lambda>k. \<not> is_ghost_field s k) m else m);
               id_val = (case m_get obj ''id'' of Some v \<Rightarrow> v | None \<Rightarrow> JString doc_id)
           in if \<not> has_shadow_fields s
              then (case obj of
                      (k, _) # _ \<Rightarrow>
                        if k = ''id'' then JObject obj
                        else JObject (m_append (m_insert ''id'' id_val []) (m_remove ''id'' obj))
                    | [] \<Rightarrow> JObject (m_append (m_insert ''id'' id_val []) (m_remove ''id'' obj)))
              else JObject (m_append (fold (\<lambda>n. m_insert n id_val) (shadow_names s) [])
                              (m_remove ''id'' obj)))
      | _ \<Rightarrow> blob)"

section \<open>A replay indexes what the write indexed\<close>

lemma values_of_replay:
  assumes "values_of d field t Refuse v = Inr vs"
  shows "values_of d field t SkipAndWarn v = Inr vs"
proof -
  have bytes: "bytes_value field Refuse xs acc = Inr ws \<Longrightarrow> bytes_value field SkipAndWarn xs acc = Inr ws" for xs acc ws
    by (induction xs arbitrary: acc) (auto split: option.splits)
  have scalar: "scalar_value d field t Refuse x = Inr ws \<Longrightarrow> scalar_value d field t SkipAndWarn x = Inr ws" for x ws
    by (cases t) (auto simp: scalar_value_def facet_value_def split: option.splits if_splits)
  have "try_fold (\<lambda>acc x. and_then (scalar_value d field t Refuse x) (\<lambda>vs. Ok (acc @ vs))) acc xs = Inr ws \<Longrightarrow>
        try_fold (\<lambda>acc x. and_then (scalar_value d field t SkipAndWarn x) (\<lambda>vs. Ok (acc @ vs))) acc xs = Inr ws"
    for acc xs ws
    by (induction xs arbitrary: acc) (auto simp: and_then_Ok_iff dest!: scalar split: sum.splits)
  with assms bytes show ?thesis
    by (cases t) (auto simp: values_of_def split: option.splits)
qed

lemma add_json_replay:
  "add_json_value_to_doc d col field t v Refuse doc = Inr doc' \<Longrightarrow>
   add_json_value_to_doc d col field t v SkipAndWarn doc = Inr doc'"
  by (auto simp: add_json_value_to_doc_def and_then_Ok_iff dest: values_of_replay)

lemma add_member_replay:
  "add_member d fs s Refuse doc x = Inr doc' \<Longrightarrow> add_member d fs s SkipAndWarn doc x = Inr doc'"
  by (cases x) (auto simp: add_member_def split: option.splits if_splits intro: add_json_replay)

lemma add_ghost_replay:
  assumes "add_ghost d fs m Refuse doc x = Inr doc'"
  shows "add_ghost d fs m SkipAndWarn doc x = Inr doc'"
proof (cases x)
  case (Pair n f)
  with assms show ?thesis
    by (cases "fd_ghost f"; cases "om_get (sf_indexed_fields fs) n"; cases "m_get m (gh_source (the (fd_ghost f)))")
       (auto simp: add_ghost_def split: if_splits intro: add_json_replay)
qed

lemma try_fold_mono:
  assumes "try_fold f s xs = Inr s'" "\<And>s x s'. f s x = Inr s' \<Longrightarrow> g s x = Inr s'"
  shows "try_fold g s xs = Inr s'"
  using assms(1)
proof (induction xs arbitrary: s)
  case (Cons x xs)
  then obtain s1 where "f s x = Inr s1" "try_fold f s1 xs = Inr s'"
    by (auto split: sum.splits)
  with Cons.IH assms(2) show ?case by simp
qed simp

lemma document_replay:
  assumes "document d fs s k seq body Refuse = Inr doc"
  shows "document d fs s k seq body SkipAndWarn = Inr doc"
proof (cases "Option.bind body as_object")
  case None
  with assms show ?thesis by (simp add: document_def)
next
  case (Some m)
  let ?d0 = "(sf_id fs, VText k) # (case sf_seq fs of Some c \<Rightarrow> [(c, VU64 seq)] | None \<Rightarrow> [])"
  from assms Some obtain doc1 where
    1: "try_fold (add_member d fs s Refuse) ?d0 m = Inr doc1"
    and 2: "try_fold (add_ghost d fs m Refuse) doc1 (ix_fields s) = Inr doc"
    by (auto simp: document_def Let_def and_then_Ok_iff)
  have "try_fold (add_member d fs s SkipAndWarn) ?d0 m = Inr doc1"
    by (rule try_fold_mono [OF 1 add_member_replay])
  moreover have "try_fold (add_ghost d fs m SkipAndWarn) doc1 (ix_fields s) = Inr doc"
    by (rule try_fold_mono [OF 2 add_ghost_replay])
  ultimately show ?thesis using Some by (simp add: document_def Let_def)
qed

section \<open>Every value fits its column\<close>

definition column_takes :: "column_type \<Rightarrow> tvalue \<Rightarrow> bool" where
  "column_takes b v = (value_kind v = column_kind (type_of_column b))"

lemma writable_kind: "column_kind (writable_type t b) = column_kind (type_of_column b)"
  by (cases t; cases b) (simp_all add: writable_type_def declared_fits_def column_kind_def)

text \<open>The columns of a field map whose every column has a built type.\<close>

definition fields_built :: "schema_fields \<Rightarrow> bool" where
  "fields_built fs \<longleftrightarrow>
     (\<forall>n. om_get (sf_indexed_fields fs) n \<noteq> None \<longrightarrow> om_get (sf_built_types fs) n \<noteq> None)"

lemma loaded_fields_built:
  "load_fields_from_existing_index cs = Inr fs \<Longrightarrow> fields_built fs"
  by (auto simp: load_fields_from_existing_index_def fields_built_def split: option.splits)

definition entry_fits :: "schema_fields \<Rightarrow> tfield \<times> tvalue \<Rightarrow> bool" where
  "entry_fits fs e \<longleftrightarrow>
     (\<exists>n b. om_get (sf_indexed_fields fs) n = Some (fst e) \<and> om_get (sf_built_types fs) n = Some b \<and>
            column_takes b (snd e))"

lemma add_json_fits:
  assumes "add_json_value_to_doc d col n (write_type fs n t) v bad doc = Inr doc'"
    and "om_get (sf_indexed_fields fs) n = Some col" "fields_built fs" "e \<in> set doc'" "e \<notin> set doc"
  shows "entry_fits fs e"
proof -
  obtain b where b: "om_get (sf_built_types fs) n = Some b"
    using assms(2,3) by (force simp: fields_built_def)
  from assms(1,4,5) obtain vs x where "values_of d n (write_type fs n t) bad v = Inr vs"
      "x \<in> set vs" "e = (col, x)"
    by (auto simp: add_json_value_to_doc_def and_then_Ok_iff)
  moreover from this have "value_kind x = column_kind (type_of_column b)"
    using values_of_kind b by (force simp: write_type_def writable_kind)
  ultimately show ?thesis using assms(2) b by (auto simp: entry_fits_def column_takes_def)
qed

lemma document_fits:
  assumes "document d fs s k seq body bad = Inr doc" "fields_built fs" "e \<in> set doc"
  shows "e = (sf_id fs, VText k) \<or> sf_seq fs = Some (fst e) \<and> snd e = VU64 seq \<or> entry_fits fs e"
proof -
  let ?base = "\<lambda>e. e = (sf_id fs, VText k) \<or> sf_seq fs = Some (fst e) \<and> snd e = VU64 seq"
  let ?P = "\<lambda>doc. \<forall>e \<in> set doc. ?base e \<or> entry_fits fs e"
  let ?d0 = "(sf_id fs, VText k) # (case sf_seq fs of Some c \<Rightarrow> [(c, VU64 seq)] | None \<Rightarrow> [])"
  have P0: "?P ?d0" by (auto split: option.splits)
  have member: "?P doc'" if "?P doc" "add_member d fs s bad doc x = Inr doc'" for doc doc' x
    using that assms(2) add_json_fits
    by (cases x) (fastforce simp: add_member_def split: option.splits if_splits)
  have ghost: "?P doc'" if "?P doc" "add_ghost d fs m bad doc x = Inr doc'" for doc doc' x m
    using that assms(2) add_json_fits
    by (cases x) (fastforce simp: add_ghost_def split: option.splits if_splits)
  have "?P doc"
  proof (cases "Option.bind body as_object")
    case None
    then have "doc = ?d0" using assms(1) by (simp add: document_def)
    then show ?thesis using P0 by blast
  next
    case (Some m)
    from assms(1) Some obtain doc1 where
      1: "try_fold (add_member d fs s bad) ?d0 m = Inr doc1"
      and 2: "try_fold (add_ghost d fs m bad) doc1 (ix_fields s) = Inr doc"
      by (auto simp: document_def Let_def and_then_Ok_iff)
    have "?P doc1" by (rule try_fold_invariant [where P = ?P, OF 1 P0]) (use member in blast)
    show ?thesis by (rule try_fold_invariant [where P = ?P, OF 2 \<open>?P doc1\<close>]) (use ghost in blast)
  qed
  with assms(3) show ?thesis by blast
qed

section \<open>A read answers what was written\<close>

definition unstored :: "index_schema \<Rightarrow> string \<Rightarrow> bool" where
  "unstored s k = (is_shadow_field s k \<or> is_ghost_field s k)"

lemma filter_unstored_eq:
  "filter_unstored_fields_owned (JObject m) s = JObject (m_retain (\<lambda>k. \<not> unstored s k) m)"
proof -
  have "(case om_get (ix_fields s) k of Some f \<Rightarrow> fd_is_shadow f \<or> is_ghost f | None \<Rightarrow> False) = unstored s k" for k
    by (simp add: unstored_def is_shadow_field_def is_ghost_field_def split: option.splits)
  then show ?thesis by (simp add: filter_unstored_fields_owned_def)
qed

lemma shadow_names_iff:
  assumes "schema_wf s"
  shows "n \<in> set (shadow_names s) \<longleftrightarrow> is_shadow_field s n"
proof -
  have "is_shadow_field s n \<longleftrightarrow> (\<exists>f. om_get (ix_fields s) n = Some f \<and> fd_is_shadow f)"
    by (simp add: is_shadow_field_def split: option.splits)
  with assms show ?thesis
    by (force simp: shadow_names_def schema_wf_def om_get_iff)
qed

lemma has_shadow_iff: "has_shadow_fields s \<longleftrightarrow> shadow_names s \<noteq> []"
  by (force simp: has_shadow_fields_def shadow_names_def list_ex_iff filter_empty_conv)

lemma has_ghost_iff: "\<not> has_ghost_fields s \<Longrightarrow> \<not> is_ghost_field s n"
  by (auto simp: has_ghost_fields_def is_ghost_field_def list_ex_iff dest: om_get_Some_in split: option.splits)

lemma m_get_shadows:
  "m_get (fold (\<lambda>n. m_insert n v) ns m) k = (if k \<in> set ns then Some v else m_get m k)"
  by (induction ns arbitrary: m) auto

lemma members_wf_shadows [simp]: "members_wf m \<Longrightarrow> members_wf (fold (\<lambda>n. m_insert n v) ns m)"
  by (induction ns arbitrary: m) auto

lemma members_wf_small [simp]: "members_wf []" "members_wf [e]"
  by (simp_all add: members_wf_def)

lemma m_get_simps [simp]:
  "m_get [] k = None"
  "m_get ((k', v) # m) k = (if k = k' then Some v else m_get m k)"
  by (simp_all add: m_get_def)

definition answered_id :: "index_schema \<Rightarrow> members \<Rightarrow> string \<Rightarrow> json" where
  "answered_id s m doc_id =
     (case (if is_ghost_field s ''id'' then None else m_get m ''id'') of Some v \<Rightarrow> v | None \<Rightarrow> JString doc_id)"

lemma reconstruct_lookup:
  assumes "members_wf m" "schema_wf s"
  shows "\<exists>out. reconstruct_shadow_fields_owned (JObject m) s doc_id = JObject out \<and> members_wf out \<and>
    (\<forall>k. m_get out k =
       (if k = ''id'' \<and> \<not> has_shadow_fields s then Some (answered_id s m doc_id)
        else if \<not> is_ghost_field s k \<and> k \<noteq> ''id'' \<and> m_get m k \<noteq> None then m_get m k
        else if has_shadow_fields s \<and> is_shadow_field s k then Some (answered_id s m doc_id) else None))"
proof -
  define obj where "obj = (if has_ghost_fields s then m_retain (\<lambda>k. \<not> is_ghost_field s k) m else m)"
  have wf: "members_wf obj" using assms by (simp add: obj_def)
  have get: "m_get obj k = (if is_ghost_field s k then None else m_get m k)" for k
    using has_ghost_iff [of s k] by (auto simp: obj_def)
  let ?id = "case m_get obj ''id'' of Some v \<Rightarrow> v | None \<Rightarrow> JString doc_id"
  have ans: "?id = answered_id s m doc_id" by (simp add: get answered_id_def)
  show ?thesis
  proof (cases "has_shadow_fields s")
    case False
    let ?out = "m_append (m_insert ''id'' ?id []) (m_remove ''id'' obj)"
    have out: "m_get ?out k = (if k = ''id'' then Some ?id else m_get obj k)" for k
      using wf by (auto simp: m_get_append split: option.splits)
    show ?thesis
    proof (cases "\<exists>v r. obj = (''id'', v) # r")
      case True
      then obtain v r where o: "obj = (''id'', v) # r" by blast
      then have "m_get obj ''id'' = Some v" by simp
      then have idv: "m_get obj ''id'' = Some (answered_id s m doc_id)" using ans by simp
      have "reconstruct_shadow_fields_owned (JObject m) s doc_id = JObject obj"
        using False o by (simp add: reconstruct_shadow_fields_owned_def obj_def [symmetric] Let_def)
      moreover have "m_get obj k = (if k = ''id'' then Some (answered_id s m doc_id)
          else if \<not> is_ghost_field s k \<and> k \<noteq> ''id'' \<and> m_get m k \<noteq> None then m_get m k else None)" for k
        using idv get [of k] by auto
      ultimately show ?thesis
        using False wf by (intro exI [of _ obj]) auto
    next
      case no_id: False
      then have "reconstruct_shadow_fields_owned (JObject m) s doc_id = JObject ?out"
        using False by (auto simp: reconstruct_shadow_fields_owned_def obj_def [symmetric] Let_def split: list.splits)
      then show ?thesis
        using False wf out get ans by (intro exI [of _ ?out]) auto
    qed
  next
    case True
    let ?out = "m_append (fold (\<lambda>n. m_insert n ?id) (shadow_names s) []) (m_remove ''id'' obj)"
    have out: "m_get ?out k = (if k \<noteq> ''id'' \<and> m_get obj k \<noteq> None then m_get obj k
                 else if is_shadow_field s k then Some ?id else None)" for k
      using wf by (auto simp: m_get_append m_get_shadows shadow_names_iff [OF assms(2)] split: option.splits)
    have "reconstruct_shadow_fields_owned (JObject m) s doc_id = JObject ?out"
      using True by (simp add: reconstruct_shadow_fields_owned_def obj_def [symmetric] Let_def)
    then show ?thesis
      using True wf out get ans by (intro exI [of _ ?out]) auto
  qed
qed

section \<open>Properties\<close>

text \<open>
  C14: the index never receives a value its column cannot take. Whatever the schema declares, every
  value of a document built for an index opened from its columns goes to a column built for that kind
  of value; Tantivy's indexing thread, which dies on any other, never sees one.
\<close>

theorem values_fit_their_columns:
  assumes "load_fields_from_existing_index cs = Inr fs"
    and "document d fs s k seq body bad = Inr doc" "e \<in> set doc"
  shows "e = (sf_id fs, VText k) \<or> sf_seq fs = Some (fst e) \<and> snd e = VU64 seq \<or> entry_fits fs e"
  using document_fits [OF assms(2) loaded_fields_built [OF assms(1)] assms(3)] .

definition sample_columns :: "column list" where
  "sample_columns =
     create_schema_from_definition (schema_default\<lparr>ix_fields := [(''n'', field_new ''n'' I64)]\<rparr>)"

definition sample_loaded :: schema_fields where
  "sample_loaded =
     \<lparr>sf_id = 0, sf_seq = None, sf_indexed_fields = [(''n'', 1)], sf_built_types = [(''n'', TI64)]\<rparr>"

lemma sample_loaded_fields: "load_fields_from_existing_index sample_columns = Inr sample_loaded"
  by (simp add: load_fields_from_existing_index_def sample_columns_def sample_loaded_def
      create_schema_from_definition_def id_column_def column_for_def builds_column_def field_new_def om_map_def)

text \<open>A schema that was retyped after the index was built still adds integers to an integer column.\<close>

theorem values_fit_their_columns_witness:
  "(1, VI64 5) = (sf_id sample_loaded, VText ''k'') \<or>
   sf_seq sample_loaded = Some (fst (1, VI64 5)) \<and> snd (1 :: nat, VI64 5) = VU64 3 \<or>
   entry_fits sample_loaded (1, VI64 5)"
  by (rule values_fit_their_columns [OF sample_loaded_fields,
        where d = plain_deps and s = "schema_default\<lparr>ix_fields := [(''n'', field_new ''n'' Text)]\<rparr>"
          and body = "Some (JObject [(''n'', JNumber (PosInt 5))])" and bad = Refuse
          and doc = "[(0, VText ''k''), (1, VI64 5)]"])
     (simp_all add: document_def sample_loaded_def add_member_def add_ghost_def field_new_def is_ghost_def
        write_type_def writable_type_def declared_fits_def add_json_value_to_doc_def values_of_def
        one_or_list_def scalar_value_def of_option_def i64_max_def)



end
