(* ===== verification/Doc_Validation.thy ===== *)
theory Doc_Validation
  imports Document
begin

text \<open>
  What a node checks before a write reaches a shard (\<open>server/src/node/search.rs\<close>): the identifier, the
  shadow and ghost fields, and whether every field can hold its value. The last check is the writer's
  own question asked in advance, and the section on agreement proves that the two answers agree.
\<close>

section \<open>The checks\<close>

datatype validation_error =
    BodyNotAnObject
  | EmptyIdentifier
  | IdentifierDisagrees
  | ShadowDisagrees string
  | GhostWritten string
  | Unstorable string

definition names_identifier :: "deps \<Rightarrow> json \<Rightarrow> string \<Rightarrow> bool" where
  "names_identifier d v ident =
     (case v of
        JString text \<Rightarrow> text = ident
      | JNumber n \<Rightarrow> (case dp_parse_number d ident of Some n' \<Rightarrow> jnum_eq n' n | None \<Rightarrow> False)
      | _ \<Rightarrow> False)"

definition unusable_document_identity :: "deps \<Rightarrow> string \<Rightarrow> json \<Rightarrow> validation_error option" where
  "unusable_document_identity d ident doc =
     (case as_object doc of
        None \<Rightarrow> Some BodyNotAnObject
      | Some obj \<Rightarrow>
          if ident = [] then Some EmptyIdentifier
          else case m_get obj ''id'' of
                 None \<Rightarrow> None
               | Some body_id \<Rightarrow> if names_identifier d body_id ident then None else Some IdentifierDisagrees)"

definition disagreeing_shadow_field :: "deps \<Rightarrow> json \<Rightarrow> index_schema \<Rightarrow> string \<Rightarrow> validation_error option" where
  "disagreeing_shadow_field d doc s ident =
     (if \<not> has_shadow_fields s then None
      else case as_object doc of
        None \<Rightarrow> None
      | Some obj \<Rightarrow>
          map_option ShadowDisagrees
            (find (\<lambda>name. case m_get obj name of Some v \<Rightarrow> \<not> names_identifier d v ident | None \<Rightarrow> False)
               (shadow_names s)))"

definition written_ghost_field :: "json \<Rightarrow> index_schema \<Rightarrow> validation_error option" where
  "written_ghost_field doc s =
     (if \<not> has_ghost_fields s then None
      else case as_object doc of
        None \<Rightarrow> None
      | Some obj \<Rightarrow>
          (case filter (is_ghost_field s) (map fst obj) of
             [] \<Rightarrow> None
           | n # ns \<Rightarrow> Some (GhostWritten (foldl min n ns))))"

definition scalar_type_is_storable :: "deps \<Rightarrow> field_type \<Rightarrow> json \<Rightarrow> bool" where
  "scalar_type_is_storable d declared v =
     (case declared of
        U64 \<Rightarrow> as_u64 v \<noteq> None
      | I64 \<Rightarrow> as_i64 v \<noteq> None
      | F64 \<Rightarrow> as_f64 v \<noteq> None
      | String \<Rightarrow> as_str v \<noteq> None
      | _ \<Rightarrow> declared = infer_type_from_value d v)"

text \<open>Whether one value is refused.\<close>

definition unstorable_scalar :: "deps \<Rightarrow> field_type \<Rightarrow> json \<Rightarrow> (panic, bool) result" where
  "unstorable_scalar d declared v =
     (case v of
        JNull \<Rightarrow> Ok False
      | JArray _ \<Rightarrow> Ok True
      | JObject _ \<Rightarrow> Ok True
      | _ \<Rightarrow>
          if declared = Ip then Ok (Option.bind (as_str v) parse_ip = None)
          else if declared = Facet
               then Ok (case as_str v of Some path \<Rightarrow> facet_path_error d path | None \<Rightarrow> True)
          else if declared = Date then and_then (is_date_value d v) (\<lambda>b. Ok (\<not> b))
          else Ok (\<not> scalar_type_is_storable d declared v))"

fun any_unstorable :: "deps \<Rightarrow> field_type \<Rightarrow> json list \<Rightarrow> (panic, bool) result" where
  "any_unstorable d declared [] = Ok False"
| "any_unstorable d declared (v # vs) =
     and_then (unstorable_scalar d declared v) (\<lambda>b. if b then Ok True else any_unstorable d declared vs)"

definition unstorable_value :: "deps \<Rightarrow> field_type \<Rightarrow> json \<Rightarrow> (panic, bool) result" where
  "unstorable_value d declared v =
     (if v = JNull then Ok False
      else case declared of
        Text \<Rightarrow> Ok False
      | Json \<Rightarrow> Ok False
      | Bytes \<Rightarrow> Ok (case as_array v of Some items \<Rightarrow> list_ex byte_value_error items | None \<Rightarrow> True)
      | _ \<Rightarrow> (case as_array v of
                 Some items \<Rightarrow> any_unstorable d declared items
               | None \<Rightarrow> unstorable_scalar d declared v))"

record validation =
  vr_needs_evolution :: bool
  vr_new_fields :: "(string \<times> field_type) list"
  vr_validation_error :: "validation_error option"

definition rejected :: "validation_error \<Rightarrow> validation" where
  "rejected e = \<lparr>vr_needs_evolution = False, vr_new_fields = [], vr_validation_error = Some e\<rparr>"

text \<open>The fields of the body: each fits, widens a learned field, or is new.\<close>

fun validate_members :: "deps \<Rightarrow> index_schema \<Rightarrow> members \<Rightarrow> (string \<times> field_type) list \<Rightarrow> (panic, validation) result" where
  "validate_members d s [] acc =
     Ok \<lparr>vr_needs_evolution = (acc \<noteq> []), vr_new_fields = acc, vr_validation_error = None\<rparr>"
| "validate_members d s ((key, v) # m) acc =
     (if key = ''id'' then validate_members d s m acc
      else case om_get (ix_fields s) key of
        None \<Rightarrow> validate_members d s m (acc @ [(key, infer_type_from_value d v)])
      | Some f \<Rightarrow>
          and_then (unstorable_value d (fd_field_type f) v) (\<lambda>bad.
            if \<not> bad then validate_members d s m acc
            else if fd_learned f \<and> \<not> fd_indexed f
            then let w = widened (fd_field_type f) (infer_type_from_value d v)
                 in and_then (unstorable_value d w v) (\<lambda>still.
                      validate_members d s m (acc @ [(key, if still then Text else w)]))
            else Ok (rejected (Unstorable key))))"

definition validate_document :: "deps \<Rightarrow> string \<Rightarrow> json \<Rightarrow> index_schema \<Rightarrow> (panic, validation) result" where
  "validate_document d ident doc s =
     (case unusable_document_identity d ident doc of
        Some e \<Rightarrow> Ok (rejected e)
      | None \<Rightarrow>
          (case disagreeing_shadow_field d doc s ident of
             Some e \<Rightarrow> Ok (rejected e)
           | None \<Rightarrow>
               (case written_ghost_field doc s of
                  Some e \<Rightarrow> Ok (rejected e)
                | None \<Rightarrow> validate_members d s (case as_object doc of Some m \<Rightarrow> m | None \<Rightarrow> []) [])))"

section \<open>The validator answers the writer's question\<close>

text \<open>
  How many values a field is owed for a JSON value: one per element that is not null; a JSON column
  takes any value whole, and a byte array is one value unless it is empty.
\<close>

definition values_owed :: "field_type \<Rightarrow> json \<Rightarrow> nat" where
  "values_owed t v =
     (if t = Json then 1
      else if t = Bytes then (if v = JNull \<or> v = JArray [] then 0 else 1)
      else length (filter (\<lambda>x. x \<noteq> JNull) (one_or_list v)))"

definition fully_indexed :: "deps \<Rightarrow> string \<Rightarrow> field_type \<Rightarrow> json \<Rightarrow> bool" where
  "fully_indexed d field t v =
     (case values_of d field t Refuse v of Inl _ \<Rightarrow> False | Inr vs \<Rightarrow> length vs = values_owed t v)"

definition elementwise :: "field_type \<Rightarrow> bool" where
  "elementwise t = (t \<notin> {Text, Json, Bytes})"

lemma infer_Boolean: "infer_scalar_type d v = Boolean \<longleftrightarrow> as_bool v \<noteq> None"
  by (cases v) (auto simp: infer_scalar_type_def infer_string_type_def)

lemmas scalar_defs = unstorable_scalar_def scalar_value_def of_option_def elementwise_def
  scalar_type_is_storable_def facet_path_error_def facet_value_def is_date_value_def date_of_value_def
  infer_type_from_value_def infer_scalar_type_def infer_string_type_def epoch_seconds_to_tantivy_def
  and_then_Ok_iff

lemma scalar_length:
  assumes "unstorable_scalar d t v = Inr b" "elementwise t" "scalar_value d field t Refuse v = Inr vs"
  shows "length vs = (if v = JNull \<or> b then 0 else 1)"
  using assms by (cases t; cases v) (auto simp: scalar_defs split: option.splits if_splits)

lemma scalar_accepted:
  assumes "unstorable_scalar d t v = Inr False" "elementwise t"
  shows "\<exists>vs. scalar_value d field t Refuse v = Inr vs"
  using assms by (cases t; cases v) (auto simp: scalar_defs split: option.splits if_splits)

lemma scalar_at_most_one:
  assumes "elementwise t" "scalar_value d field t Refuse v = Inr vs"
  shows "length vs \<le> (if v = JNull then 0 else 1)"
  using assms by (cases t; cases v) (auto simp: scalar_defs split: option.splits if_splits)

definition add_scalars ::
  "deps \<Rightarrow> string \<Rightarrow> field_type \<Rightarrow> tvalue list \<Rightarrow> json list \<Rightarrow> (store_error, tvalue list) result" where
  "add_scalars d field t =
     try_fold (\<lambda>acc x. and_then (scalar_value d field t Refuse x) (\<lambda>vs. Ok (acc @ vs)))"

lemma add_scalars_simps [simp]:
  "add_scalars d field t acc [] = Inr acc"
  "add_scalars d field t acc (x # xs) =
     and_then (scalar_value d field t Refuse x) (\<lambda>vs. add_scalars d field t (acc @ vs) xs)"
  by (simp_all add: add_scalars_def and_then_def split: sum.splits)

abbreviation non_null :: "json list \<Rightarrow> nat" where
  "non_null xs \<equiv> length (filter (\<lambda>x. x \<noteq> JNull) xs)"

lemma add_scalars_bound:
  assumes "elementwise t" "add_scalars d field t acc xs = Inr ws"
  shows "length ws \<le> length acc + non_null xs"
  using assms(2)
proof (induction xs arbitrary: acc)
  case (Cons x xs)
  then obtain vs where vs: "scalar_value d field t Refuse x = Inr vs"
    and rest: "add_scalars d field t (acc @ vs) xs = Inr ws"
    by (auto simp: and_then_Ok_iff)
  from Cons.IH [OF rest] scalar_at_most_one [OF assms(1) vs] show ?case
    by (auto split: if_splits)
qed simp

lemma add_scalars_accepted:
  assumes "elementwise t" "any_unstorable d t xs = Inr False"
  shows "\<exists>vs. add_scalars d field t acc xs = Inr (acc @ vs) \<and> length vs = non_null xs"
  using assms(2)
proof (induction xs arbitrary: acc)
  case (Cons x xs)
  then have x: "unstorable_scalar d t x = Inr False" and xs: "any_unstorable d t xs = Inr False"
    by (auto simp: and_then_Ok_iff split: if_splits)
  obtain vs where vs: "scalar_value d field t Refuse x = Inr vs"
    using scalar_accepted [OF x assms(1)] by blast
  obtain ws where "add_scalars d field t (acc @ vs) xs = Inr ((acc @ vs) @ ws)" "length ws = non_null xs"
    using Cons.IH [OF xs] by blast
  with vs scalar_length [OF x assms(1) vs] show ?case
    by (intro exI [of _ "vs @ ws"]) auto
qed simp

lemma add_scalars_refused:
  assumes "elementwise t" "any_unstorable d t xs = Inr True" "add_scalars d field t acc xs = Inr ws"
  shows "length ws < length acc + non_null xs"
  using assms(2,3)
proof (induction xs arbitrary: acc)
  case (Cons x xs)
  then obtain b vs where x: "unstorable_scalar d t x = Inr b"
    and vs: "scalar_value d field t Refuse x = Inr vs"
    and rest: "add_scalars d field t (acc @ vs) xs = Inr ws"
    by (auto simp: and_then_Ok_iff)
  show ?case
  proof (cases b)
    case True
    then have "x \<noteq> JNull" using x by (auto simp: unstorable_scalar_def)
    with True scalar_length [OF x assms(1) vs] add_scalars_bound [OF assms(1) rest] show ?thesis by simp
  next
    case False
    with Cons.prems x have "any_unstorable d t xs = Inr True" by simp
    from Cons.IH [OF this rest] scalar_at_most_one [OF assms(1) vs] show ?thesis
      by (auto split: if_splits)
  qed
qed simp

lemma unstorable_elementwise:
  assumes "elementwise t" "unstorable_value d t v = Inr b"
  shows "any_unstorable d t (one_or_list v) = Inr b"
proof (cases "v = JNull")
  case True
  with assms show ?thesis by (simp add: unstorable_value_def one_or_list_def unstorable_scalar_def)
next
  case False
  with assms show ?thesis
    by (cases t; cases "as_array v")
       (auto simp: elementwise_def unstorable_value_def one_or_list_def and_then_Ok_iff)
qed

lemma values_of_elementwise:
  "elementwise t \<Longrightarrow> values_of d field t Refuse v = add_scalars d field t [] (one_or_list v)"
  by (cases t) (simp_all add: elementwise_def values_of_def add_scalars_def)

lemma text_values_owed: "length (concat (map (text_value d) xs)) = non_null xs"
proof (induction xs)
  case (Cons x xs)
  then show ?case by (cases x) simp_all
qed simp

lemma bytes_agree:
  assumes "unstorable_value d Bytes v = Inr b"
  shows "fully_indexed d field Bytes v \<longleftrightarrow> \<not> b"
proof (cases "as_array v")
  case None
  with assms show ?thesis
    by (cases v) (auto simp: unstorable_value_def fully_indexed_def values_of_def values_owed_def)
next
  case (Some xs)
  then have v: "v = JArray xs" by (cases v) simp_all
  with assms have "b = list_ex byte_value_error xs" by (simp add: unstorable_value_def)
  then have b: "b \<longleftrightarrow> \<not> list_all (\<lambda>v. byte_of v \<noteq> None) xs"
    by (auto simp: byte_value_error_def list_ex_iff list_all_iff)
  show ?thesis
  proof (cases b)
    case True
    with b v show ?thesis by (simp add: fully_indexed_def values_of_def bytes_value_refused)
  next
    case False
    with b v show ?thesis
      by (auto simp: fully_indexed_def values_of_def bytes_value_accepted values_owed_def)
  qed
qed

lemma validator_agrees:
  assumes "unstorable_value d t v = Inr b"
  shows "fully_indexed d field t v \<longleftrightarrow> \<not> b"
proof (cases "elementwise t")
  case True
  have any: "any_unstorable d t (one_or_list v) = Inr b"
    by (rule unstorable_elementwise [OF True assms])
  have owed: "values_owed t v = non_null (one_or_list v)"
    using True by (auto simp: values_owed_def elementwise_def)
  show ?thesis
  proof (cases b)
    case False
    with any have "any_unstorable d t (one_or_list v) = Inr False" by simp
    from add_scalars_accepted [OF True this, of field "[]"] False show ?thesis
      by (auto simp: fully_indexed_def values_of_elementwise [OF True] owed)
  next
    case T: True
    with any have "any_unstorable d t (one_or_list v) = Inr True" by simp
    from add_scalars_refused [OF True this, of field "[]"] T show ?thesis
      by (fastforce simp: fully_indexed_def values_of_elementwise [OF True] owed split: sum.splits)
  qed
next
  case False
  then consider "t = Text" | "t = Json" | "t = Bytes" by (auto simp: elementwise_def)
  then show ?thesis
  proof cases
    case 1
    with assms show ?thesis
      by (auto simp: unstorable_value_def fully_indexed_def values_of_def values_owed_def text_values_owed
          simp del: length_concat split: if_splits)
  next
    case 2
    with assms show ?thesis
      by (auto simp: unstorable_value_def fully_indexed_def values_of_def values_owed_def split: if_splits)
  next
    case 3
    with assms bytes_agree show ?thesis by blast
  qed
qed

section \<open>A validated document can be indexed\<close>

definition columns_match :: "schema_fields \<Rightarrow> index_schema \<Rightarrow> bool" where
  "columns_match fs s \<longleftrightarrow>
     om_get (sf_indexed_fields fs) ''id'' = None \<and>
     (\<forall>n f b. om_get (ix_fields s) n = Some f \<longrightarrow> om_get (sf_built_types fs) n = Some b \<longrightarrow>
        declared_fits (fd_field_type f) b)"

lemma write_type_declared:
  "columns_match fs s \<Longrightarrow> om_get (ix_fields s) n = Some f \<Longrightarrow> write_type fs n (fd_field_type f) = fd_field_type f"
  by (auto simp: columns_match_def write_type_def writable_type_def split: option.splits)

lemma validate_members_tail:
  assumes "validate_members d s ((key, v) # m) acc = Inr r" "vr_validation_error r = None"
  shows "\<exists>acc'. validate_members d s m acc' = Inr r"
proof (cases "om_get (ix_fields s) key")
  case None
  with assms show ?thesis by (auto split: if_splits)
next
  case (Some f)
  with assms show ?thesis
    by (auto simp: and_then_Ok_iff rejected_def Let_def split: if_splits)
qed

lemma validate_members_head:
  assumes "validate_members d s ((key, v) # m) acc = Inr r" "vr_validation_error r = None"
    and "key \<noteq> ''id''" "om_get (ix_fields s) key = Some f" "fd_indexed f"
  shows "unstorable_value d (fd_field_type f) v = Inr False"
  using assms by (auto simp: and_then_Ok_iff rejected_def Let_def split: if_splits)

lemma validate_members_fits:
  assumes "validate_members d s m acc = Inr r" "vr_validation_error r = None"
    and "(n, v) \<in> set m" "n \<noteq> ''id''" "om_get (ix_fields s) n = Some f" "fd_indexed f"
  shows "unstorable_value d (fd_field_type f) v = Inr False"
  using assms(1,3)
proof (induction m arbitrary: acc)
  case (Cons e m)
  obtain key w where e: "e = (key, w)" by (cases e)
  show ?case
  proof (cases "(n, v) = e")
    case True
    with validate_members_head [of d s key w m acc r] Cons.prems assms(2,4-) e show ?thesis by simp
  next
    case False
    with validate_members_tail [of d s key w m acc r] Cons assms(2) e show ?thesis by auto
  qed
qed simp

lemma try_fold_total:
  "(\<And>s x. x \<in> set xs \<Longrightarrow> \<exists>s'. f s x = Inr s') \<Longrightarrow> \<exists>s'. try_fold f s xs = Inr s'"
proof (induction xs arbitrary: s)
  case (Cons x xs)
  then obtain s1 where "f s x = Inr s1" by (meson list.set_intros(1))
  with Cons show ?case by simp
qed simp

lemma add_json_total:
  "values_of d n t bad v = Inr vs \<Longrightarrow> \<exists>doc'. add_json_value_to_doc d col n t v bad doc = Inr doc'"
  by (simp add: add_json_value_to_doc_def)

lemma add_ghost_total:
  assumes "fd_ghost f \<noteq> None \<Longrightarrow> write_type fs n (fd_field_type f) = Text"
  shows "\<exists>doc'. add_ghost d fs m bad doc (n, f) = Inr doc'"
proof (cases "fd_ghost f")
  case (Some g)
  then have t: "write_type fs n (fd_field_type f) = Text" using assms by simp
  have total: "\<exists>doc'. add_json_value_to_doc d col n Text v bad doc = Inr doc'" for col v
    by (rule add_json_total) (simp add: values_of_def)
  show ?thesis
    using total
    by (cases "m_get m (gh_source g)"; cases "om_get (sf_indexed_fields fs) n")
       (simp_all add: add_ghost_def Some t)
qed (simp add: add_ghost_def)

lemma document_total:
  assumes "columns_match fs s" "schema_wf s" "validate_ghosts s = Inr ()"
    and "\<And>n v f. \<lbrakk>(n, v) \<in> set m; n \<noteq> ''id''; om_get (ix_fields s) n = Some f; fd_indexed f\<rbrakk> \<Longrightarrow>
           unstorable_value d (fd_field_type f) v = Inr False"
  shows "\<exists>doc. document d fs s k seq (Some (JObject m)) Refuse = Inr doc"
proof -
  have "\<exists>doc'. add_member d fs s Refuse doc x = Inr doc'" if "x \<in> set m" for doc x
  proof -
    obtain n v where x: "x = (n, v)" by (cases x)
    have "\<exists>doc'. add_json_value_to_doc d col n (fd_field_type f) v Refuse doc = Inr doc'"
      if f: "om_get (ix_fields s) n = Some f" "fd_indexed f" "om_get (sf_indexed_fields fs) n = Some col" for f col
    proof -
      have "n \<noteq> ''id''" using f(3) assms(1) by (auto simp: columns_match_def)
      then have "fully_indexed d n (fd_field_type f) v"
        using validator_agrees assms(4) f(1,2) \<open>x \<in> set m\<close> x by blast
      then show ?thesis
        by (auto simp: fully_indexed_def intro: add_json_total split: sum.splits)
    qed
    then show ?thesis
      using write_type_declared [OF assms(1)]
      by (auto simp: add_member_def x split: option.splits)
  qed
  then obtain doc1 where 1: "try_fold (add_member d fs s Refuse)
      ((sf_id fs, VText k) # (case sf_seq fs of Some c \<Rightarrow> [(c, VU64 seq)] | None \<Rightarrow> [])) m = Inr doc1"
    using try_fold_total [of m "add_member d fs s Refuse"] by blast
  have ghost: "\<exists>doc'. add_ghost d fs m Refuse doc x = Inr doc'" if "x \<in> set (ix_fields s)" for doc x
  proof -
    obtain n f where x: "x = (n, f)" by (cases x)
    then have get: "om_get (ix_fields s) n = Some f"
      using that assms(2) by (simp add: schema_wf_def om_get_iff)
    have "fd_ghost f \<noteq> None \<Longrightarrow> fd_field_type f = Text"
      using assms(3) that x validate_ghost_Ok(4) by (fastforce simp: validate_ghosts_Ok)
    then have "fd_ghost f \<noteq> None \<Longrightarrow> write_type fs n (fd_field_type f) = Text"
      using write_type_declared [OF assms(1) get] by simp
    then show ?thesis unfolding x by (rule add_ghost_total)
  qed
  obtain doc where "try_fold (add_ghost d fs m Refuse) doc1 (ix_fields s) = Inr doc"
    using try_fold_total [of "ix_fields s" "add_ghost d fs m Refuse", OF ghost] by blast
  with 1 show ?thesis by (simp add: document_def Let_def)
qed

lemma validated_document_builds:
  assumes "columns_match fs s" "schema_wf s" "validate_ghosts s = Inr ()"
    and "validate_document d ident doc s = Inr r" "vr_validation_error r = None"
  shows "\<exists>tdoc. document d fs s ident seq (Some doc) Refuse = Inr tdoc"
proof -
  obtain m where m: "doc = JObject m" "validate_members d s m [] = Inr r"
    using assms(4,5)
    by (cases doc) (auto simp: validate_document_def unusable_document_identity_def rejected_def split: option.splits if_splits)
  show ?thesis
    unfolding m(1)
    by (rule document_total [OF assms(1-3)]) (rule validate_members_fits [OF m(2) assms(5)])
qed

section \<open>Properties\<close>



text \<open>A schema of two declared columns, an index built for it and a document it accepts.\<close>

definition sample_schema :: index_schema where
  "sample_schema = schema_default\<lparr>ix_fields := [(''n'', field_new ''n'' I64), (''tag'', field_new ''tag'' Facet)]\<rparr>"

definition sample_fields :: schema_fields where
  "sample_fields =
     \<lparr>sf_id = 0, sf_seq = None, sf_indexed_fields = [(''n'', 1), (''tag'', 2)],
      sf_built_types = [(''n'', TI64), (''tag'', TFacet)]\<rparr>"

definition sample_doc :: json where
  "sample_doc = JObject [(''n'', JArray [JNumber (PosInt 9), JNull, JNumber (NegInt (-3))]), (''tag'', JString ''/a'')]"

lemma sample_wf: "schema_wf sample_schema" "columns_match sample_fields sample_schema"
    "validate_ghosts sample_schema = Inr ()"
  by (auto simp: sample_schema_def sample_fields_def schema_default_def schema_wf_def om_inv_def u64_max_def
      columns_match_def field_new_def declared_fits_def validate_ghosts_def split: if_splits)

lemma sample_valid:
  "validate_document plain_deps ''k'' sample_doc sample_schema =
     Inr \<lparr>vr_needs_evolution = False, vr_new_fields = [], vr_validation_error = None\<rparr>"
  by (simp add: validate_document_def sample_doc_def sample_schema_def schema_default_def plain_deps_def
      unusable_document_identity_def disagreeing_shadow_field_def written_ghost_field_def
      has_shadow_fields_def has_ghost_fields_def field_new_def unstorable_value_def unstorable_scalar_def
      scalar_type_is_storable_def facet_path_error_def i64_max_def is_ghost_def)


text \<open>
  C38: a date field can make the validator panic instead of refusing. A text of seven bytes whose
  fifth character is a hyphen is sliced at byte four whatever its characters are, so when that byte
  is inside a character, and no earlier date format reads the text, the check neither accepts nor
  refuses the value but unwinds.
\<close>

theorem date_check_panics:
  assumes "parse_date_early d s = None" "length s = 7" "nth_char_is 4 CHR ''-'' s" "is_continuation (s ! 4)"
  shows "unstorable_value d Date (JString s) = Inl (NotACharBoundary 4)"
proof -
  have "is_date_value d (JString s) = Inl (NotACharBoundary 4)"
    using assms
    by (simp add: is_date_value_def date_of_value_def parse_date_str_to_tantivy_def parse_date_secs_def
        year_month_secs_def slice_def char_boundary_def)
  then show ?thesis
    by (simp add: unstorable_value_def unstorable_scalar_def)
qed

lemma plain_no_date: "length s = 7 \<Longrightarrow> parse_date_early plain_deps s = None"
  by (simp add: parse_date_early_def plain_deps_def or_else_def parse_naive_datetime_def map_filter_def)

text \<open>\<open>abc\<close>, an e with an acute accent, a hyphen and \<open>d\<close>.\<close>

theorem date_check_panics_witness:
  "unstorable_value plain_deps Date (JString [CHR ''a'', CHR ''b'', CHR ''c'', CHR 0xC3, CHR 0xA9, CHR ''-'', CHR ''d'']) =
     Inl (NotACharBoundary 4)"
  by (rule date_check_panics)
     (simp_all add: plain_no_date nth_char_is_def is_continuation_def upt_rec)

end
