(* ===== verification/Routing.thy ===== *)
theory Routing
  imports Schema Cluster_Ring
begin

text \<open>
  The routing ladder (\<open>server/src/node/routing.rs\<close>) and the shard a write is sent to
  (\<open>route_write\<close> in \<open>server/src/node/orchestrator.rs\<close>). What the ladder relies on of the ring is the
  locale \<open>placement\<close>, interpreted by the consistent hash ring.
\<close>

section \<open>The ladder\<close>

text \<open>The field's value as text: a number prints as its JSON.\<close>

definition extract_routing_value :: "deps \<Rightarrow> json \<Rightarrow> string \<Rightarrow> string option" where
  "extract_routing_value d doc field =
     (case as_object doc of
        None \<Rightarrow> None
      | Some obj \<Rightarrow>
          (case m_get obj field of
             Some (JString s) \<Rightarrow> Some s
           | Some (JNumber n) \<Rightarrow> Some (dp_json_text d (JNumber n))
           | Some (JBool b) \<Rightarrow> Some (if b then ''true'' else ''false'')
           | _ \<Rightarrow> None))"

definition hex_digit :: "nat \<Rightarrow> char" where
  "hex_digit n = (if n < 10 then char_of (48 + n) else char_of (87 + n))"

definition hex_byte :: "char \<Rightarrow> string" where
  "hex_byte c = [hex_digit (of_char c div 16), hex_digit (of_char c mod 16)]"

definition MAX_PREFIX_LEN :: nat where
  "MAX_PREFIX_LEN = 64"

definition derive_routing_key_from_doc :: "deps \<Rightarrow> json \<Rightarrow> string option" where
  "derive_routing_key_from_doc d doc =
     (let bs = dp_json_text d doc in
      if bs = [] then Some ''empty-doc''
      else Some (concat (map hex_byte (if MAX_PREFIX_LEN < length bs then take MAX_PREFIX_LEN bs else bs))))"

definition routing_key_without_schema :: "deps \<Rightarrow> string option \<Rightarrow> string \<Rightarrow> json \<Rightarrow> string option" where
  "routing_key_without_schema d routing_key ident doc =
     or_else routing_key (or_else (if ident \<noteq> [] then Some ident else None) (derive_routing_key_from_doc d doc))"

definition routing_key_for :: "deps \<Rightarrow> string \<Rightarrow> string option \<Rightarrow> string \<Rightarrow> json \<Rightarrow> string option" where
  "routing_key_for d routing_field routing_key ident doc =
     or_else (extract_routing_value d doc routing_field) (routing_key_without_schema d routing_key ident doc)"

definition effective_routing_key :: "deps \<Rightarrow> index_schema \<Rightarrow> string \<Rightarrow> string option \<Rightarrow> json \<Rightarrow> string option" where
  "effective_routing_key d s ident routing_key doc = routing_key_for d (get_routing_field s) routing_key ident doc"

datatype orchestrator_error = ValidationError string | NotReady string

definition effective_delete_routing_key ::
  "index_schema \<Rightarrow> string \<Rightarrow> string option \<Rightarrow> (orchestrator_error, string) result" where
  "effective_delete_routing_key s ident routing_key =
     (let field = get_routing_field s in
      if field = ''id'' \<or> is_shadow_field s field then Ok ident
      else case routing_key of
             Some key \<Rightarrow> if key \<noteq> [] then Ok key else Err (ValidationError field)
           | None \<Rightarrow> Err (ValidationError field))"

text \<open>\<open>route_write\<close>: the ring's owner, or the first shard of this node where the ring is empty.\<close>

definition route_write ::
  "('r \<Rightarrow> string \<Rightarrow> uuid option) \<Rightarrow> 'r \<Rightarrow> uuid list \<Rightarrow> string option \<Rightarrow> (orchestrator_error, uuid) result" where
  "route_write owner ring shards routing_key =
     (case routing_key of
        None \<Rightarrow> Err (ValidationError ''Missing routing key for write'')
      | Some key \<Rightarrow>
          (case or_else (owner ring key) (case shards of [] \<Rightarrow> None | s # _ \<Rightarrow> Some s) of
             None \<Rightarrow> Err (NotReady ''No shard selected'')
           | Some target \<Rightarrow> Ok target))"

section \<open>What the ladder relies on\<close>

locale placement =
  fixes valid :: "'r \<Rightarrow> bool"
    and nodes :: "'r \<Rightarrow> uuid set"
    and owner :: "'r \<Rightarrow> string \<Rightarrow> uuid option"
  assumes owner_member: "valid r \<Longrightarrow> owner r k = Some n \<Longrightarrow> n \<in> nodes r"
    and owner_total: "valid r \<Longrightarrow> nodes r \<noteq> {} \<Longrightarrow> owner r k \<noteq> None"
begin

lemma route_on_ring:
  assumes "valid r" "nodes r \<noteq> {}"
  shows "\<exists>n \<in> nodes r. route_write owner r shards (Some k) = Inr n \<and> owner r k = Some n"
proof -
  obtain n where n: "owner r k = Some n" using owner_total [OF assms] by auto
  then have "route_write owner r shards (Some k) = Inr n" by (simp add: route_write_def or_else_def)
  with n owner_member [OF assms(1) n] show ?thesis by blast
qed

end

interpretation ring: placement ring_inv members "get_owner xxh3" for xxh3
proof
  fix r k n
  assume inv: "ring_inv r"
  { assume "get_owner xxh3 r k = Some n"
    then show "n \<in> members r"
      using inv by (auto simp: get_owner_def owner_at_nearest members_iff) }
  { assume "members r \<noteq> {}"
    then show "get_owner xxh3 r k \<noteq> None"
      using inv by (auto simp: get_owner_def owner_None_iff ring_is_empty_def members_def) }
qed

lemma ladder_total: "\<exists>k. effective_routing_key d s ident routing_key doc = Some k"
  by (auto simp: effective_routing_key_def routing_key_for_def routing_key_without_schema_def
      derive_routing_key_from_doc_def or_else_def Let_def split: option.splits)

lemma schema_outranks_caller:
  "extract_routing_value d doc (get_routing_field s) = Some k \<Longrightarrow>
   effective_routing_key d s ident routing_key doc = Some k"
  by (simp add: effective_routing_key_def routing_key_for_def or_else_def)

definition key_routed :: "index_schema \<Rightarrow> bool" where
  "key_routed s = (get_routing_field s = ''id'' \<or> is_shadow_field s (get_routing_field s))"

lemma delete_key_routed: "key_routed s \<Longrightarrow> effective_delete_routing_key s ident rk = Inr ident"
  by (simp add: effective_delete_routing_key_def key_routed_def Let_def)

section \<open>Properties\<close>

text \<open>
  C21: every write is routed, and to a shard of the ring: the ladder always ends in a key, and when the
  ring has a node the write goes to the node the ring names for that key. Where the document carries
  the schema's routing field, that value decides whatever key the caller sent.
\<close>

theorem every_write_is_routed:
  assumes "members (ring_after ops) \<noteq> {}"
  shows "\<exists>k. effective_routing_key d s ident rk doc = Some k \<and>
     (\<exists>n \<in> members (ring_after ops).
        route_write (get_owner xxh3) (ring_after ops) shards (Some k) = Inr n \<and>
        get_owner xxh3 (ring_after ops) k = Some n) \<and>
     (case extract_routing_value d doc (get_routing_field s) of Some v \<Rightarrow> k = v | None \<Rightarrow> True)"
proof -
  obtain k where k: "effective_routing_key d s ident rk doc = Some k" using ladder_total by blast
  moreover have "case extract_routing_value d doc (get_routing_field s) of Some v \<Rightarrow> k = v | None \<Rightarrow> True"
    using k schema_outranks_caller by (auto split: option.splits)
  moreover have "\<exists>n \<in> members (ring_after ops). route_write (get_owner xxh3) (ring_after ops) shards (Some k) = Inr n \<and>
      get_owner xxh3 (ring_after ops) k = Some n"
    by (rule ring.route_on_ring) (use assms in simp_all)
  ultimately show ?thesis by blast
qed

theorem every_write_is_routed_witness:
  "\<exists>k. effective_routing_key plain_deps schema_default ''k1'' None JNull = Some k \<and>
     (\<exists>n \<in> members (ring_after [Join \<lparr>ni_uuid = 7, ni_name = ''007'', ni_vnode_tokens = [10], ni_keypair = None\<rparr>]).
        route_write (get_owner (\<lambda>_. 3)) (ring_after [Join \<lparr>ni_uuid = 7, ni_name = ''007'', ni_vnode_tokens = [10], ni_keypair = None\<rparr>]) [] (Some k) = Inr n \<and>
        get_owner (\<lambda>_. 3) (ring_after [Join \<lparr>ni_uuid = 7, ni_name = ''007'', ni_vnode_tokens = [10], ni_keypair = None\<rparr>]) k = Some n) \<and>
     (case extract_routing_value plain_deps JNull (get_routing_field schema_default) of Some v \<Rightarrow> k = v | None \<Rightarrow> True)"
  by (rule every_write_is_routed) (simp add: members_def ring_after_def ring_new_def add_node_def)

text \<open>
  A delete finds its write. On an index routed by the document key, a document written under an
  identifier with no other routing key, whose routing field where present spells the identifier, is
  routed by that identifier, and so is its delete, whatever routing key the delete carries.
\<close>

lemma delete_follows_write:
  assumes "ident \<noteq> []" "rk \<in> {None, Some ident}"
    and "extract_routing_value d doc (get_routing_field s) \<in> {None, Some ident}" "key_routed s"
  shows "effective_routing_key d s ident rk doc = Some ident \<and>
    effective_delete_routing_key s ident delete_key = Inr ident"
  using assms
  by (auto simp: effective_routing_key_def routing_key_for_def routing_key_without_schema_def or_else_def
      delete_key_routed)

text \<open>
  C35: a write that names a routing key of its own is routed away from its delete. On an index routed by
  the key, a document that does not repeat its identifier is routed by the caller's key, while a delete
  of the same identifier under the same caller's key is routed by the identifier.
\<close>

theorem caller_key_splits_write_and_delete:
  assumes "caller \<noteq> ident" "get_routing_field s = ''id''" "as_object doc = Some obj" "m_get obj ''id'' = None"
  shows "effective_routing_key d s ident (Some caller) doc = Some caller \<and>
    effective_delete_routing_key s ident (Some caller) = Inr ident \<and>
    Some caller \<noteq> Some ident"
  using assms
  by (simp add: effective_routing_key_def routing_key_for_def routing_key_without_schema_def or_else_def
      extract_routing_value_def effective_delete_routing_key_def)

theorem caller_key_splits_write_and_delete_witness:
  "effective_routing_key plain_deps schema_default ''k1'' (Some ''acme'') (JObject [(''title'', JNull)]) = Some ''acme'' \<and>
   effective_delete_routing_key schema_default ''k1'' (Some ''acme'') = Inr ''k1'' \<and>
   Some ''acme'' \<noteq> Some ''k1''"
  by (rule caller_key_splits_write_and_delete [where obj = "[(''title'', JNull)]"])
     (simp_all add: get_routing_field_def schema_default_def m_get_def)

end
