(* ===== verification/Index_Name.thy ===== *)
theory Index_Name
  imports Field_Type
begin

text \<open>
  Index names: the check the HTTP layer makes of every name in a route
  (\<open>server/src/http_server/catalogue.rs\<close>, \<open>validate_index_name\<close>) and the check the store makes before it
  joins a name to its directory (\<open>storage/src/store.rs\<close>, \<open>resolve_index_dir\<close>), with the part of
  \<open>std::path::Path::components\<close> on Unix it relies on.
\<close>

section \<open>The HTTP layer\<close>

datatype name_error = EmptyName | TooLong | BadStart | DotDot | Separator | BadCharacter

definition is_ascii_alphanumeric :: "char \<Rightarrow> bool" where
  "is_ascii_alphanumeric c =
     (let n = of_char c :: nat in 48 \<le> n \<and> n \<le> 57 \<or> 65 \<le> n \<and> n \<le> 90 \<or> 97 \<le> n \<and> n \<le> 122)"

definition validate_index_name :: "string \<Rightarrow> (name_error, unit) result" where
  "validate_index_name index =
     (if index = [] then Err EmptyName
      else if length index > 255 then Err TooLong
      else if \<not> is_ascii_alphanumeric (hd index) then Err BadStart
      else if str_contains index ''..'' then Err DotDot
      else if CHR ''/'' \<in> set index \<or> CHR 0x5C \<in> set index then Err Separator
      else if \<not> list_all (\<lambda>c. is_ascii_alphanumeric c \<or> c = CHR ''_'' \<or> c = CHR ''-'' \<or> c = CHR ''.'') index
        then Err BadCharacter
      else Ok ())"

section \<open>The store\<close>

datatype path_component = RootDir | CurDir | ParentDir | Normal string

text \<open>
  The components of a Unix path: a leading slash is the root, repeated slashes and dots that are not the
  first component are dropped.
\<close>

definition component_of :: "string \<Rightarrow> path_component" where
  "component_of s = (if s = ''.'' then CurDir else if s = ''..'' then ParentDir else Normal s)"

definition path_components :: "string \<Rightarrow> path_component list" where
  "path_components p =
     (let parts = split_on CHR ''/'' p;
          kept = map component_of (filter (\<lambda>s. s \<noteq> [] \<and> s \<noteq> ''.'') (tl parts))
      in if p \<noteq> [] \<and> hd p = CHR ''/'' then RootDir # kept
         else if hd parts = [] then kept else component_of (hd parts) # kept)"

definition resolve_index_dir :: "string \<Rightarrow> string \<Rightarrow> (store_error, string) result" where
  "resolve_index_dir base index =
     (case path_components index of
        [Normal _] \<Rightarrow> Ok (base @ ''/'' @ index)
      | _ \<Rightarrow> Err (InvalidIndexName index))"

section \<open>What the two checks give\<close>

lemma component_of_Normal: "component_of s = Normal t \<longleftrightarrow> t = s \<and> s \<noteq> ''.'' \<and> s \<noteq> ''..''"
  by (auto simp: component_of_def)

lemma validated_no_slash: "validate_index_name n = Inr () \<Longrightarrow> CHR ''/'' \<notin> set n"
  by (simp add: validate_index_name_def split: if_splits)

lemma validated_start: "validate_index_name n = Inr () \<Longrightarrow> n \<noteq> [] \<and> is_ascii_alphanumeric (hd n)"
  by (simp add: validate_index_name_def split: if_splits)

lemma validated_components:
  assumes "validate_index_name n = Inr ()"
  shows "path_components n = [Normal n]"
proof -
  note no = validated_no_slash [OF assms] and st = validated_start [OF assms]
  have "\<not> is_ascii_alphanumeric CHR ''.''" by (simp add: is_ascii_alphanumeric_def)
  with st have "component_of n = Normal n" by (auto simp: component_of_def)
  with no st show ?thesis
    by (cases n) (auto simp: path_components_def split_on_no_sep)
qed

text \<open>A path of one normal component holds no other name: what follows it are slashes and dots.\<close>

lemma single_component_inside:
  assumes "resolve_index_dir base n = Inr p"
  shows "\<exists>c. path_components n = [Normal c] \<and> p = base @ ''/'' @ n"
  using assms
  by (auto simp: resolve_index_dir_def split: list.splits path_component.splits)

lemma split_on_pieces: "x \<in> set (split_on c s) \<Longrightarrow> c \<notin> set x"
proof (induction s arbitrary: x)
  case (Cons a s)
  then show ?case by (cases "split_on c s") (auto split: if_splits)
qed simp

lemma path_component_Normal:
  assumes "Normal c \<in> set (path_components n)"
  shows "CHR ''/'' \<notin> set c \<and> c \<noteq> ''.'' \<and> c \<noteq> ''..''"
proof -
  obtain p ps where parts: "split_on CHR ''/'' n = p # ps"
    by (cases "split_on CHR ''/'' n") auto
  from assms have "\<exists>s \<in> set (p # ps). component_of s = Normal c"
    by (auto simp: path_components_def Let_def parts split: if_splits)
  with split_on_pieces [of _ "CHR ''/''" n] show ?thesis
    by (auto simp: component_of_Normal parts)
qed

text \<open>
  C23: an index has a directory of its own. A name the HTTP layer accepts is accepted by the store as one
  path component, that very name, so the directory is a child of the shard's index directory, and two
  accepted names never share a directory.
\<close>

theorem index_directory_is_private:
  assumes "validate_index_name a = Inr ()" "validate_index_name b = Inr ()"
  shows "resolve_index_dir base a = Inr (base @ ''/'' @ a) \<and> path_components a = [Normal a] \<and>
    (resolve_index_dir base a = resolve_index_dir base b \<longleftrightarrow> a = b)"
  using validated_components [OF assms(1)] validated_components [OF assms(2)]
  by (simp add: resolve_index_dir_def)

theorem index_directory_is_private_witness:
  "resolve_index_dir ''s/indices'' ''a1'' \<noteq> resolve_index_dir ''s/indices'' ''b.c''"
  using index_directory_is_private [of "''a1''" "''b.c''" "''s/indices''"]
  by (auto simp: validate_index_name_def is_ascii_alphanumeric_def starts_with_def)

lemma split_on_trailing: "c \<notin> set s \<Longrightarrow> split_on c (s @ [c]) = [s, []]"
  by (simp add: split_on_append_sep)

text \<open>
  The store's own check does not reject every separator. A name with a slash after it is resolved too,
  to the one component of the name without it: two names the store keeps apart in its tables, one
  directory.
\<close>

lemma trailing_slash_shares_a_directory:
  assumes "validate_index_name a = Inr ()"
  shows "path_components (a @ ''/'') = path_components a \<and>
    resolve_index_dir base (a @ ''/'') = Inr (base @ ''/'' @ a @ ''/'') \<and> a @ ''/'' \<noteq> a"
proof -
  note no = validated_no_slash [OF assms] and st = validated_start [OF assms]
  have "path_components (a @ ''/'') = [component_of a]"
    using no st by (cases a) (auto simp: path_components_def split_on_trailing)
  moreover have "path_components a = [component_of a]"
    using no st by (cases a) (auto simp: path_components_def split_on_no_sep)
  moreover from this have "component_of a = Normal a"
    using validated_components [OF assms] by simp
  ultimately show ?thesis by (simp add: resolve_index_dir_def)
qed

end
