(* ===== verification/Wal_Codec.thy ===== *)
theory Wal_Codec
  imports Field_Type
begin

text \<open>
  The two records recovery reads (\<open>storage/src/store.rs\<close>): the entry a write leaves in the write-ahead log
  of its index, and the sequence a commit stamps into Tantivy's commit payload. The parser of the entries
  an older build wrote is serde's, and a parameter.
\<close>

section \<open>UTF-8\<close>

text \<open>
  \<open>std::str::from_utf8\<close>: one character off the front, by the table of well-formed byte sequences of the
  Unicode standard.
\<close>

definition in_range :: "nat \<Rightarrow> nat \<Rightarrow> char \<Rightarrow> bool" where
  "in_range a b c = (let n = of_char c in a \<le> n \<and> n \<le> b)"

fun utf8_char :: "string \<Rightarrow> string option" where
  "utf8_char [] = None"
| "utf8_char (b # r) =
     (if in_range 0 0x7F b then Some r
      else if in_range 0xC2 0xDF b
      then (case r of c # r' \<Rightarrow> if in_range 0x80 0xBF c then Some r' else None | [] \<Rightarrow> None)
      else if in_range 0xE0 0xEF b
      then (case r of
              c1 # c2 # r' \<Rightarrow>
                if in_range (if of_char b = (0xE0 :: nat) then 0xA0 else 0x80)
                     (if of_char b = (0xED :: nat) then 0x9F else 0xBF) c1 \<and> in_range 0x80 0xBF c2
                then Some r' else None
            | _ \<Rightarrow> None)
      else if in_range 0xF0 0xF4 b
      then (case r of
              c1 # c2 # c3 # r' \<Rightarrow>
                if in_range (if of_char b = (0xF0 :: nat) then 0x90 else 0x80)
                     (if of_char b = (0xF4 :: nat) then 0x8F else 0xBF) c1 \<and>
                   in_range 0x80 0xBF c2 \<and> in_range 0x80 0xBF c3
                then Some r' else None
            | _ \<Rightarrow> None)
      else None)"

lemma utf8_char_length: "utf8_char s = Some r \<Longrightarrow> length r < length s"
  by (cases s) (auto split: if_splits list.splits)

function utf8_valid :: "string \<Rightarrow> bool" where
  "utf8_valid s = (s = [] \<or> (case utf8_char s of Some r \<Rightarrow> utf8_valid r | None \<Rightarrow> False))"
  by pat_completeness auto
termination
  by (relation "measure length") (auto dest: utf8_char_length)

declare utf8_valid.simps [simp del]

lemma utf8_valid_Nil [simp]: "utf8_valid []"
  by (simp add: utf8_valid.simps)

lemma utf8_valid_ascii: "list_all (in_range 0 0x7F) s \<Longrightarrow> utf8_valid s"
proof (induction s)
  case (Cons c s)
  then have "utf8_char (c # s) = Some s" by simp
  with Cons show ?case by (subst utf8_valid.simps) simp
qed simp

section \<open>Entries of the log\<close>

datatype wal_op = Put string "json option" | Delete string

fun wal_op_id :: "wal_op \<Rightarrow> string" where
  "wal_op_id (Put i _) = i"
| "wal_op_id (Delete i) = i"

definition WAL_ENTRY_ID_ONLY :: char where
  "WAL_ENTRY_ID_ONLY = CHR 0x01"

definition encode_wal_entry :: "string \<Rightarrow> bytes" where
  "encode_wal_entry doc_id = WAL_ENTRY_ID_ONLY # doc_id"

definition decode_wal_entry :: "(bytes \<Rightarrow> wal_op option) \<Rightarrow> bytes \<Rightarrow> (store_error, string) result" where
  "decode_wal_entry from_json b =
     (if b \<noteq> [] \<and> hd b = WAL_ENTRY_ID_ONLY
      then (if utf8_valid (tl b) then Ok (tl b)
            else Err (Serialization ''WAL entry id is not valid UTF-8''))
      else (case from_json b of
              Some legacy \<Rightarrow> Ok (wal_op_id legacy)
            | None \<Rightarrow> Err (Serialization ''WAL entry'')))"

lemma decode_encode_wal_entry [simp]:
  "utf8_valid i \<Longrightarrow> decode_wal_entry fj (encode_wal_entry i) = Inr i"
  by (simp add: decode_wal_entry_def encode_wal_entry_def)

section \<open>The checkpoint payload\<close>

definition CHECKPOINT_PAYLOAD_PREFIX :: string where
  "CHECKPOINT_PAYLOAD_PREFIX = ''cameodb:wal_seq=''"

definition encode_checkpoint_payload :: "nat \<Rightarrow> string" where
  "encode_checkpoint_payload seq = CHECKPOINT_PAYLOAD_PREFIX @ dec_digits seq"

text \<open>\<open>parse::<u64>\<close>: one plus sign is allowed, a number past the width is an error.\<close>

definition parse_u64 :: "string \<Rightarrow> nat option" where
  "parse_u64 s = (case parse_small s of Some n \<Rightarrow> if n \<le> u64_max then Some n else None | None \<Rightarrow> None)"

definition decode_checkpoint_payload :: "string \<Rightarrow> nat option" where
  "decode_checkpoint_payload payload = Option.bind (strip_prefix CHECKPOINT_PAYLOAD_PREFIX payload) parse_u64"

lemma digit_char:
  assumes "n < 10"
  shows "of_char (char_of (48 + n) :: char) = 48 + (n :: nat)"
  using assms by simp

lemma dec_digits_ascii: "all_ascii_digits (dec_digits n)"
proof (induction n rule: dec_digits.induct)
  case (1 n)
  then show ?case
    by (subst dec_digits.simps) (auto simp: all_ascii_digits_def)
qed

lemma dec_digits_not_Nil: "dec_digits n \<noteq> []"
  by (subst dec_digits.simps) simp

definition digits_read :: "string \<Rightarrow> nat" where
  "digits_read = foldl (\<lambda>n c. 10 * n + (of_char c - 48)) 0"

lemma digits_read_print: "digits_read (dec_digits n) = n"
proof (induction n rule: dec_digits.induct)
  case (1 n)
  show ?case
  proof (cases "n < 10")
    case True
    then show ?thesis by (subst dec_digits.simps) (simp add: digits_read_def)
  next
    case False
    then have "digits_read (dec_digits n) = 10 * digits_read (dec_digits (n div 10)) + n mod 10"
      by (subst dec_digits.simps) (simp add: digits_read_def)
    with 1 [OF False] show ?thesis by simp
  qed
qed

lemma parse_small_print: "parse_small (dec_digits n) = Some n"
proof -
  obtain c r where cr: "dec_digits n = c # r" using dec_digits_not_Nil [of n] by (cases "dec_digits n") auto
  with dec_digits_ascii [of n] have "c \<noteq> CHR ''+''" by (auto simp: all_ascii_digits_def)
  with cr dec_digits_ascii [of n] digits_read_print [of n] show ?thesis
    by (simp add: parse_small_def digits_read_def)
qed

lemma decode_encode_payload: "n \<le> u64_max \<Longrightarrow> decode_checkpoint_payload (encode_checkpoint_payload n) = Some n"
  by (simp add: decode_checkpoint_payload_def encode_checkpoint_payload_def parse_u64_def parse_small_print)

lemma decode_payload_bound: "decode_checkpoint_payload p = Some n \<Longrightarrow> n \<le> u64_max"
  by (auto simp: decode_checkpoint_payload_def parse_u64_def bind_eq_Some_conv split: option.splits if_splits)

text \<open>
  C22: what a write and a commit record for recovery reads back: a log entry gives the identifier it was
  written for whatever the parser of the older entries does, and a payload gives the sequence it was
  stamped with, for every sequence of 64 bits.
\<close>

theorem recovery_records_read_back:
  assumes "utf8_valid i" "n < u64_mod"
  shows "decode_wal_entry from_json (encode_wal_entry i) = Inr i \<and>
    decode_checkpoint_payload (encode_checkpoint_payload n) = Some n"
  using assms by (simp add: decode_encode_payload u64_max_less)

theorem recovery_records_read_back_witness:
  "decode_wal_entry (\<lambda>_. None) (encode_wal_entry ''k1'') = Inr ''k1'' \<and>
   decode_checkpoint_payload (encode_checkpoint_payload 42) = Some 42"
  by (rule recovery_records_read_back) (simp_all add: utf8_valid_ascii in_range_def u64_mod_def)

end
