(* ===== verification/Store.thy ===== *)
theory Store
  imports Document Index_Name Wal_Codec "HOL-Library.Multiset"
begin

text \<open>
  The storage engine of a shard (\<open>storage/src/store.rs\<close>): rows and a write-ahead log in redb, a Tantivy
  index derived from them, and the operations that write, commit, close, reopen, recover and drop an
  index. redb, Tantivy and serde are parameters (\<open>engines\<close>); what the code relies on of them is
  \<open>engines_ok\<close>. Locks are not modelled: an operation runs to its end, as the writer and init locks make
  it, and which indexes another thread holds at that moment is a parameter (\<open>busy\<close>).
\<close>

section \<open>The two engines\<close>

text \<open>The tables of a shard's redb file; a table that does not exist is empty.\<close>

record tables =
  tb_data :: "string \<Rightarrow> (string, json option) omap"
  tb_wal :: "string \<Rightarrow> (nat, bytes) omap"
  tb_meta :: "string \<Rightarrow> nat option"
  tb_schema :: "string \<Rightarrow> index_schema option"

text \<open>
  redb: what a read transaction sees, what a crash leaves on disk, a write transaction committed at
  \<open>Durability::Immediate\<close> (\<^term>\<open>True\<close>) or \<open>Durability::None\<close>, and reopening the file after a crash.
  Tantivy: an index with the writer open on it, so with what it has committed and what it would commit
  next; adding and committing fail once the writer is dead. Dropping a writer is \<open>tv_rollback\<close>.
\<close>

record ('k, 't) engines =
  kv_view :: "'k \<Rightarrow> tables"
  kv_disk :: "'k \<Rightarrow> tables"
  kv_commit :: "bool \<Rightarrow> tables \<Rightarrow> 'k \<Rightarrow> 'k"
  kv_reopen :: "'k \<Rightarrow> 'k"
  tv_create :: "column list \<Rightarrow> 't"
  tv_columns :: "'t \<Rightarrow> column list"
  tv_docs :: "'t \<Rightarrow> tdoc multiset"
  tv_buffered :: "'t \<Rightarrow> tdoc multiset"
  tv_payload :: "'t \<Rightarrow> string option"
  tv_top_by_seq :: "'t \<Rightarrow> tdoc option"
  tv_delete_term :: "tfield \<Rightarrow> string \<Rightarrow> 't \<Rightarrow> 't"
  tv_add_document :: "tdoc \<Rightarrow> 't \<Rightarrow> 't option"
  tv_commit :: "string option \<Rightarrow> 't \<Rightarrow> 't option"
  tv_rollback :: "'t \<Rightarrow> 't"
  from_legacy :: "bytes \<Rightarrow> wal_op option"

definition kv_ok :: "('k, 't) engines \<Rightarrow> bool" where
  "kv_ok e \<longleftrightarrow>
     (\<forall>b t k. kv_view e (kv_commit e b t k) = t) \<and>
     (\<forall>t k. kv_disk e (kv_commit e True t k) = t) \<and>
     (\<forall>t k. kv_disk e (kv_commit e False t k) = kv_disk e k) \<and>
     (\<forall>k. kv_view e (kv_reopen e k) = kv_disk e k \<and> kv_disk e (kv_reopen e k) = kv_disk e k)"

definition tv_ok :: "('k, 't) engines \<Rightarrow> bool" where
  "tv_ok e \<longleftrightarrow>
     (\<forall>cs. tv_columns e (tv_create e cs) = cs \<and> tv_docs e (tv_create e cs) = {#} \<and>
        tv_buffered e (tv_create e cs) = {#} \<and> tv_payload e (tv_create e cs) = None) \<and>
     (\<forall>f s t. tv_columns e (tv_delete_term e f s t) = tv_columns e t \<and>
        tv_docs e (tv_delete_term e f s t) = tv_docs e t \<and>
        tv_payload e (tv_delete_term e f s t) = tv_payload e t \<and>
        tv_top_by_seq e (tv_delete_term e f s t) = tv_top_by_seq e t \<and>
        tv_buffered e (tv_delete_term e f s t) = filter_mset (\<lambda>d. (f, VText s) \<notin> set d) (tv_buffered e t)) \<and>
     (\<forall>d t t'. tv_add_document e d t = Some t' \<longrightarrow>
        tv_columns e t' = tv_columns e t \<and> tv_docs e t' = tv_docs e t \<and> tv_payload e t' = tv_payload e t \<and>
        tv_top_by_seq e t' = tv_top_by_seq e t \<and> tv_buffered e t' = add_mset d (tv_buffered e t)) \<and>
     (\<forall>p t t'. tv_commit e p t = Some t' \<longrightarrow>
        tv_columns e t' = tv_columns e t \<and> tv_docs e t' = tv_buffered e t \<and>
        tv_buffered e t' = tv_buffered e t \<and> tv_payload e t' = p) \<and>
     (\<forall>t. tv_columns e (tv_rollback e t) = tv_columns e t \<and> tv_docs e (tv_rollback e t) = tv_docs e t \<and>
        tv_payload e (tv_rollback e t) = tv_payload e t \<and> tv_top_by_seq e (tv_rollback e t) = tv_top_by_seq e t \<and>
        tv_buffered e (tv_rollback e t) = tv_docs e t)"

definition engines_ok :: "('k, 't) engines \<Rightarrow> bool" where
  "engines_ok e \<longleftrightarrow> kv_ok e \<and> tv_ok e"

section \<open>The store\<close>

record config =
  cf_indices :: string
  cf_wal_sync :: bool
  cf_default_batch_size :: nat
  cf_max_open_indexes :: nat

text \<open>
  What the store holds: the redb file, the Tantivy directory of every index, and the caches keyed by index
  name. The field handles are not kept apart: they are always those of the directory's columns. Readers,
  memory budgets, size and warmup caches do not bear on what is stored or indexed and are left out.
\<close>

record ('k, 't) hybrid_store =
  hs_kv :: 'k
  hs_dirs :: "string \<Rightarrow> 't option"
  hs_writers :: "string \<Rightarrow> bool"
  hs_seq :: "string \<Rightarrow> nat option"
  hs_ops :: "string \<Rightarrow> nat option"
  hs_schemas :: "string \<Rightarrow> index_schema option"
  hs_open :: "(string, nat) omap"
  hs_tick :: nat

type_synonym ('k, 't, 'a) outcome = "('k, 't) hybrid_store \<times> (store_error, 'a) result"

definition view :: "('k, 't) engines \<Rightarrow> ('k, 't) hybrid_store \<Rightarrow> tables" where
  "view e st = kv_view e (hs_kv st)"

definition set_dir :: "string \<Rightarrow> 't \<Rightarrow> ('k, 't) hybrid_store \<Rightarrow> ('k, 't) hybrid_store" where
  "set_dir index t st = st\<lparr>hs_dirs := (hs_dirs st)(index := Some t)\<rparr>"

text \<open>One write transaction: the tables as they are read, changed, committed.\<close>

definition commit_txn ::
  "('k, 't) engines \<Rightarrow> bool \<Rightarrow> (tables \<Rightarrow> tables) \<Rightarrow> ('k, 't) hybrid_store \<Rightarrow> ('k, 't) hybrid_store" where
  "commit_txn e immediate f st = st\<lparr>hs_kv := kv_commit e immediate (f (kv_view e (hs_kv st))) (hs_kv st)\<rparr>"

definition barrier_kv :: "('k, 't) engines \<Rightarrow> config \<Rightarrow> 'k \<Rightarrow> 'k" where
  "barrier_kv e cfg k = (if cf_wal_sync cfg then k else kv_commit e True (kv_view e k) k)"

definition durability_barrier ::
  "('k, 't) engines \<Rightarrow> config \<Rightarrow> ('k, 't) hybrid_store \<Rightarrow> ('k, 't) hybrid_store" where
  "durability_barrier e cfg st = st\<lparr>hs_kv := barrier_kv e cfg (hs_kv st)\<rparr>"

definition index_dir :: "config \<Rightarrow> string \<Rightarrow> (store_error, string) result" where
  "index_dir cfg index = resolve_index_dir (cf_indices cfg) index"

definition load_fields :: "column list \<Rightarrow> (store_error, schema_fields) result" where
  "load_fields cs = (case load_fields_from_existing_index cs of Inl n \<Rightarrow> Err (FieldNotFound n) | Inr fs \<Rightarrow> Ok fs)"

section \<open>Schemas\<close>

definition record_option_name :: "record_option \<Rightarrow> string" where
  "record_option_name r =
     (case r of Basic \<Rightarrow> ''Basic'' | WithFreqs \<Rightarrow> ''WithFreqs'' | WithFreqsAndPositions \<Rightarrow> ''WithFreqsAndPositions'')"

definition derived_field :: "column \<Rightarrow> field_def" where
  "derived_field c =
     \<lparr>fd_name = cl_name c,
      fd_field_type = (if cl_type c = TStr \<and> cl_stored c \<and> \<not> cl_indexed c then String
                       else type_of_column (cl_type c)),
      fd_indexed = cl_indexed c, fd_stored = cl_stored c, fd_fast = Some (cl_fast c), fd_is_shadow = False,
      fd_description = None,
      fd_tokenizer = (if cl_type c = TStr
                      then Some (case cl_analysis c of Some (tok, _) \<Rightarrow> tok | None \<Rightarrow> ''default'') else None),
      fd_index_record_option = (if cl_type c = TStr
                      then Some (case cl_analysis c of Some (_, r) \<Rightarrow> record_option_name r
                                                     | None \<Rightarrow> ''WithFreqsAndPositions'') else None),
      fd_learned = False, fd_ghost = None\<rparr>"

text \<open>The schema whose fields are those Tantivy persisted, without the key and the retired sequence column.\<close>

definition derive_index_schema_from_tantivy :: "column list \<Rightarrow> index_schema" where
  "derive_index_schema_from_tantivy cs =
     \<lparr>ix_fields = fold (\<lambda>c. om_insert (cl_name c) (derived_field c))
                    (filter (\<lambda>c. cl_name c \<noteq> ''id'' \<and> cl_name c \<noteq> ''_seq'') cs) [],
      ix_state = Active, ix_version = 1, ix_description = None, ix_tenant = None,
      ix_default_fields = None, ix_routing_field_name = ''id'', ix_id_fields = []\<rparr>"

definition get_schema :: "('k, 't) engines \<Rightarrow> string \<Rightarrow> ('k, 't) hybrid_store \<Rightarrow> index_schema option" where
  "get_schema e index st = tb_schema (view e st) index"

definition cache_loaded_schema ::
  "string \<Rightarrow> index_schema \<Rightarrow> ('k, 't) hybrid_store \<Rightarrow> ('k, 't) hybrid_store \<times> index_schema" where
  "cache_loaded_schema index loaded st =
     (case hs_schemas st index of
        Some s \<Rightarrow> (st, s)
      | None \<Rightarrow> (st\<lparr>hs_schemas := (hs_schemas st)(index := Some loaded)\<rparr>, loaded))"

definition loaded_schema ::
  "('k, 't) engines \<Rightarrow> string \<Rightarrow> ('k, 't) hybrid_store \<Rightarrow> index_schema option" where
  "loaded_schema e index st =
     (case hs_dirs st index of
        Some t \<Rightarrow>
          (let derived = ix_fields (derive_index_schema_from_tantivy (tv_columns e t)) in
           case (derived, get_schema e index st) of
             ([], Some stored) \<Rightarrow> Some stored
           | (_, stored) \<Rightarrow>
               (let base = (case stored of Some s \<Rightarrow> s | None \<Rightarrow> schema_default) in
                Some (base\<lparr>ix_fields := fold (\<lambda>(n, f) m. if om_get m n = None then om_insert n f m else m)
                                            derived (ix_fields base)\<rparr>)))
      | None \<Rightarrow> get_schema e index st)"

definition get_schema_cached ::
  "('k, 't) engines \<Rightarrow> config \<Rightarrow> string \<Rightarrow> ('k, 't) hybrid_store \<Rightarrow> ('k, 't, index_schema option) outcome" where
  "get_schema_cached e cfg index st =
     (case hs_schemas st index of
        Some s \<Rightarrow> (st, Ok (Some s))
      | None \<Rightarrow>
          case index_dir cfg index of
            Inl x \<Rightarrow> (st, Err x)
          | Inr _ \<Rightarrow>
              case loaded_schema e index st of
                None \<Rightarrow> (st, Ok None)
              | Some s \<Rightarrow> (case cache_loaded_schema index s st of (st', s') \<Rightarrow> (st', Ok (Some s'))))"

definition store_schema ::
  "('k, 't) engines \<Rightarrow> string \<Rightarrow> index_schema \<Rightarrow> ('k, 't) hybrid_store \<Rightarrow> ('k, 't) hybrid_store" where
  "store_schema e index s st = commit_txn e True (\<lambda>T. T\<lparr>tb_schema := (tb_schema T)(index := Some s)\<rparr>) st"

definition store_schema_and_cache ::
  "('k, 't) engines \<Rightarrow> string \<Rightarrow> index_schema \<Rightarrow> ('k, 't) hybrid_store \<Rightarrow> ('k, 't, unit) outcome" where
  "store_schema_and_cache e index s st =
     (case validate_tokenizers s of
        Inl _ \<Rightarrow> (st, Err (Serialization ''unknown tokenizer''))
      | Inr _ \<Rightarrow> ((store_schema e index s st)\<lparr>hs_schemas := (hs_schemas st)(index := Some s)\<rparr>, Ok ()))"

definition index_was_dropped :: "('k, 't) engines \<Rightarrow> string \<Rightarrow> ('k, 't) hybrid_store \<Rightarrow> bool" where
  "index_was_dropped e index st =
     (case hs_schemas st index of
        Some s \<Rightarrow> ix_state s = Dropped
      | None \<Rightarrow> (case get_schema e index st of Some s \<Rightarrow> ix_state s = Dropped | None \<Rightarrow> False))"

definition index_exists :: "('k, 't) engines \<Rightarrow> string \<Rightarrow> ('k, 't) hybrid_store \<Rightarrow> bool" where
  "index_exists e index st =
     (case hs_schemas st index of
        Some s \<Rightarrow> ix_state s = Active
      | None \<Rightarrow> hs_writers st index \<or>
                (case get_schema e index st of Some s \<Rightarrow> ix_state s = Active | None \<Rightarrow> False))"

definition document_count :: "('k, 't) engines \<Rightarrow> string \<Rightarrow> ('k, 't) hybrid_store \<Rightarrow> nat" where
  "document_count e index st = length (tb_data (view e st) index)"

definition pending_wal_entries :: "('k, 't) engines \<Rightarrow> string \<Rightarrow> ('k, 't) hybrid_store \<Rightarrow> nat" where
  "pending_wal_entries e index st = length (tb_wal (view e st) index)"

section \<open>Pending operations and sequences\<close>

definition get_operations_count :: "string \<Rightarrow> ('k, 't) hybrid_store \<Rightarrow> nat" where
  "get_operations_count index st = (case hs_ops st index of Some n \<Rightarrow> n | None \<Rightarrow> 0)"

definition add_operations :: "string \<Rightarrow> nat \<Rightarrow> ('k, 't) hybrid_store \<Rightarrow> ('k, 't) hybrid_store" where
  "add_operations index n st =
     st\<lparr>hs_ops := (hs_ops st)(index := Some ((get_operations_count index st + n) mod u64_mod))\<rparr>"

definition reset_operations_counter :: "string \<Rightarrow> ('k, 't) hybrid_store \<Rightarrow> ('k, 't) hybrid_store" where
  "reset_operations_counter index st =
     (case hs_ops st index of
        Some _ \<Rightarrow> st\<lparr>hs_ops := (hs_ops st)(index := Some 0)\<rparr>
      | None \<Rightarrow> st)"

definition recovery_commit_threshold :: "config \<Rightarrow> nat" where
  "recovery_commit_threshold cfg = max (min (max (cf_default_batch_size cfg) 1 * 10) u64_max) 25000"

section \<open>The checkpoint of an index\<close>

definition get_max_wal_id_for_index :: "(nat, bytes) omap \<Rightarrow> nat" where
  "get_max_wal_id_for_index wal = (case wal of [] \<Rightarrow> 0 | _ \<Rightarrow> fst (last wal))"

definition tantivy_checkpoint_seq :: "('k, 't) engines \<Rightarrow> 't \<Rightarrow> nat option" where
  "tantivy_checkpoint_seq e t = Option.bind (tv_payload e t) decode_checkpoint_payload"

text \<open>The sequence stored on the document the \<open>_seq\<close> column orders last.\<close>

definition get_highest_indexed_seq :: "('k, 't) engines \<Rightarrow> 't \<Rightarrow> (store_error, nat) result" where
  "get_highest_indexed_seq e t =
     (case column_index ''_seq'' 0 (tv_columns e t) of
        None \<Rightarrow> Err (FieldNotFound ''_seq field missing'')
      | Some f \<Rightarrow>
          (case tv_top_by_seq e t of
             None \<Rightarrow> Ok 0
           | Some doc \<Rightarrow>
               (case find (\<lambda>(g, _). g = f) doc of
                  Some (_, VU64 n) \<Rightarrow> Ok n
                | _ \<Rightarrow> Err (CorruptIndex ''no stored _seq value''))))"

text \<open>
  The checkpoint as its three sources give it, \<open>persisted\<close> the row of the recovery table; the flag says it
  came from the scan, which is then recorded.
\<close>

definition checkpoint_sources :: "('k, 't) engines \<Rightarrow> nat option \<Rightarrow> 't \<Rightarrow> (store_error, nat \<times> bool) result" where
  "checkpoint_sources e persisted t =
     (case (tantivy_checkpoint_seq e t, persisted) of
        (Some a, Some b) \<Rightarrow> Ok (max a b, False)
      | (Some a, None) \<Rightarrow> Ok (a, False)
      | (None, Some b) \<Rightarrow> Ok (b, False)
      | (None, None) \<Rightarrow>
          if column_index ''_seq'' 0 (tv_columns e t) = None then Ok (0, False)
          else and_then (get_highest_indexed_seq e t) (\<lambda>n. Ok (n, n \<noteq> 0)))"

definition persist_committed_seq ::
  "('k, 't) engines \<Rightarrow> string \<Rightarrow> nat \<Rightarrow> ('k, 't) hybrid_store \<Rightarrow> ('k, 't) hybrid_store" where
  "persist_committed_seq e index seq st = commit_txn e True (\<lambda>T. T\<lparr>tb_meta := (tb_meta T)(index := Some seq)\<rparr>) st"

definition checkpoint_seq ::
  "('k, 't) engines \<Rightarrow> string \<Rightarrow> 't \<Rightarrow> ('k, 't) hybrid_store \<Rightarrow> ('k, 't, nat) outcome" where
  "checkpoint_seq e index t st =
     (case checkpoint_sources e (tb_meta (view e st) index) t of
        Inl x \<Rightarrow> (st, Err x)
      | Inr (seq, scanned) \<Rightarrow> (if scanned then persist_committed_seq e index seq st else st, Ok seq))"

text \<open>A commit's sequence recorded and the log entries it covers dropped, in one transaction.\<close>

definition truncate_wal :: "string \<Rightarrow> nat \<Rightarrow> tables \<Rightarrow> tables" where
  "truncate_wal index seq T =
     T\<lparr>tb_wal := (tb_wal T)(index := om_retain (\<lambda>n _. \<not> n \<le> seq) (tb_wal T index)),
       tb_meta := (tb_meta T)(index := Some seq)\<rparr>"

definition checkpoint_committed ::
  "('k, 't) engines \<Rightarrow> string \<Rightarrow> nat \<Rightarrow> ('k, 't) hybrid_store \<Rightarrow> ('k, 't) hybrid_store" where
  "checkpoint_committed e index seq st =
     (if seq = 0 then st else commit_txn e True (truncate_wal index seq) st)"

definition checkpoint_after_commit ::
  "('k, 't) engines \<Rightarrow> string \<Rightarrow> nat option \<Rightarrow> ('k, 't) hybrid_store \<Rightarrow> ('k, 't) hybrid_store" where
  "checkpoint_after_commit e index seq st =
     reset_operations_counter index (case seq of Some n \<Rightarrow> checkpoint_committed e index n st | None \<Rightarrow> st)"

section \<open>Recovery\<close>

text \<open>One identifier of the tail brought to its committed row: the document it stands as, or none.\<close>

definition replay_id ::
  "('k, 't) engines \<Rightarrow> deps \<Rightarrow> schema_fields \<Rightarrow> index_schema \<Rightarrow> (string, json option) omap \<Rightarrow>
   nat \<Rightarrow> string \<Rightarrow> 't \<Rightarrow> (store_error, 't) result" where
  "replay_id e d fs s rows seq i t =
     (case om_get rows i of
        Some body \<Rightarrow>
          and_then (document d fs s i seq body SkipAndWarn) (\<lambda>doc.
            case tv_add_document e doc (tv_delete_term e (sf_id fs) i t) of
              Some t' \<Rightarrow> Ok t'
            | None \<Rightarrow> Err (Tantivy ''writer killed''))
      | None \<Rightarrow> Ok (tv_delete_term e (sf_id fs) i t))"

text \<open>
  The replay loop over the tail: each identifier is applied at its first entry, and every threshold of
  entries the writer is committed at the entry's sequence, behind a durability barrier. The result counts
  the entries replayed and those not yet committed; on an error the writer is the caller's to drop.
\<close>

fun replay ::
  "('k, 't) engines \<Rightarrow> config \<Rightarrow> deps \<Rightarrow> schema_fields \<Rightarrow> index_schema \<Rightarrow> (string, json option) omap \<Rightarrow>
   (nat \<times> bytes) list \<Rightarrow> string list \<Rightarrow> nat \<Rightarrow> nat \<Rightarrow> 'k \<Rightarrow> 't \<Rightarrow> 'k \<times> 't \<times> (store_error, nat \<times> nat) result" where
  "replay e cfg d fs s rows [] applied n since k t = (k, t, Ok (n, since))"
| "replay e cfg d fs s rows ((seq, w) # es) applied n since k t =
     (case decode_wal_entry (from_legacy e) w of
        Inl x \<Rightarrow> (k, t, Err x)
      | Inr i \<Rightarrow>
          if i \<in> set applied then replay e cfg d fs s rows es applied (Suc n) (Suc since) k t
          else
            case replay_id e d fs s rows seq i t of
              Inl x \<Rightarrow> (k, t, Err x)
            | Inr t' \<Rightarrow>
                if recovery_commit_threshold cfg \<le> Suc since
                then (case tv_commit e (Some (encode_checkpoint_payload seq)) t' of
                        None \<Rightarrow> (barrier_kv e cfg k, t', Err (Tantivy ''commit''))
                      | Some t'' \<Rightarrow>
                          replay e cfg d fs s rows es (i # applied) (Suc n) 0 (barrier_kv e cfg k) t'')
                else replay e cfg d fs s rows es (i # applied) (Suc n) (Suc since) k t')"

definition wal_range :: "nat \<Rightarrow> nat \<Rightarrow> (nat, bytes) omap \<Rightarrow> (nat \<times> bytes) list" where
  "wal_range a b wal = filter (\<lambda>(n, _). a \<le> n \<and> n \<le> b) wal"

text \<open>
  \<open>recover_index\<close> on the directory's index, which is left with the writer's buffer in it. The answer is the
  entries replayed, the highest sequence of the log and the checkpoint.
\<close>

definition recover_index ::
  "('k, 't) engines \<Rightarrow> config \<Rightarrow> deps \<Rightarrow> string \<Rightarrow> 't \<Rightarrow> ('k, 't) hybrid_store \<Rightarrow>
   ('k, 't, nat \<times> nat \<times> nat) outcome" where
  "recover_index e cfg d index t st =
     (let max_wal = get_max_wal_id_for_index (tb_wal (view e st) index) in
      case checkpoint_seq e index t st of
        (st1, Inl x) \<Rightarrow> (st1, Err x)
      | (st1, Inr c) \<Rightarrow>
          if max_wal = 0 then (st1, Ok (0, 0, c))
          else if max_wal \<le> c then (checkpoint_committed e index c st1, Ok (0, max_wal, c))
          else
            case get_schema_cached e cfg index st1 of
              (st2, Inl x) \<Rightarrow> (st2, Err x)
            | (st2, Inr s) \<Rightarrow>
                case load_fields (tv_columns e t) of
                  Inl x \<Rightarrow> (st2, Err x)
                | Inr fs \<Rightarrow>
                    case replay e cfg d fs (case s of Some s \<Rightarrow> s | None \<Rightarrow> schema_default)
                           (tb_data (view e st2) index) (wal_range (c + 1) max_wal (tb_wal (view e st2) index))
                           [] 0 0 (hs_kv st2) t of
                      (k, t', r) \<Rightarrow>
                        let st3 = set_dir index t' (st2\<lparr>hs_kv := k\<rparr>) in
                        case r of
                          Inl x \<Rightarrow> (st3, Err x)
                        | Inr (n, since) \<Rightarrow>
                            (if 0 < since then add_operations index since st3 else st3, Ok (n, max_wal, c)))"

section \<open>Commit and close\<close>

definition commit_locked_writer ::
  "('k, 't) engines \<Rightarrow> config \<Rightarrow> string \<Rightarrow> ('k, 't) hybrid_store \<Rightarrow> ('k, 't, nat option) outcome" where
  "commit_locked_writer e cfg index st =
     (let st1 = durability_barrier e cfg st in
      case hs_dirs st1 index of
        None \<Rightarrow> (st1, Err (Tantivy ''commit''))
      | Some t \<Rightarrow>
          (case tv_commit e (map_option encode_checkpoint_payload (hs_seq st index)) t of
             None \<Rightarrow> (st1, Err (Tantivy ''commit''))
           | Some t' \<Rightarrow> (set_dir index t' st1, Ok (hs_seq st index))))"

text \<open>Dropping a writer loses its buffer.\<close>

definition drop_writer :: "('k, 't) engines \<Rightarrow> string \<Rightarrow> ('k, 't) hybrid_store \<Rightarrow> ('k, 't) hybrid_store" where
  "drop_writer e index st =
     (if hs_writers st index
      then st\<lparr>hs_writers := (hs_writers st)(index := False),
              hs_dirs := (hs_dirs st)(index := map_option (tv_rollback e) (hs_dirs st index))\<rparr>
      else st)"

definition drop_index_caches :: "('k, 't) engines \<Rightarrow> string \<Rightarrow> ('k, 't) hybrid_store \<Rightarrow> ('k, 't) hybrid_store" where
  "drop_index_caches e index st =
     (drop_writer e index st)
       \<lparr>hs_seq := (hs_seq st)(index := None), hs_schemas := (hs_schemas st)(index := None),
        hs_ops := (hs_ops st)(index := None), hs_open := om_remove index (hs_open st)\<rparr>"

definition close_index ::
  "('k, 't) engines \<Rightarrow> config \<Rightarrow> (string \<Rightarrow> bool) \<Rightarrow> string \<Rightarrow> ('k, 't) hybrid_store \<Rightarrow>
   ('k, 't) hybrid_store \<times> bool" where
  "close_index e cfg busy index st =
     (if busy index then (st, False)
      else if \<not> hs_writers st index then (drop_index_caches e index st, True)
      else
        let st1 = (if 0 < get_operations_count index st
                   then (case commit_locked_writer e cfg index st of
                           (st1, Inr seq) \<Rightarrow> checkpoint_after_commit e index seq st1
                         | (st1, Inl _) \<Rightarrow> st1)
                   else st)
        in (drop_index_caches e index st1, True))"

definition force_remove_writer ::
  "('k, 't) engines \<Rightarrow> string \<Rightarrow> ('k, 't) hybrid_store \<Rightarrow> ('k, 't) hybrid_store \<times> bool" where
  "force_remove_writer e index st = (drop_writer e index st, hs_writers st index)"

section \<open>The open-index cap\<close>

definition per_shard_open_index_cap :: "nat \<Rightarrow> nat \<Rightarrow> nat" where
  "per_shard_open_index_cap node_cap total_shards =
     (if node_cap = 0 then 0
      else let shards = max total_shards 1 in max ((node_cap + shards - 1) div shards) 1)"

definition touch_open_index :: "string \<Rightarrow> ('k, 't) hybrid_store \<Rightarrow> ('k, 't) hybrid_store" where
  "touch_open_index index st =
     (case om_get (hs_open st) index of
        Some _ \<Rightarrow> st\<lparr>hs_open := om_insert index (hs_tick st) (hs_open st), hs_tick := Suc (hs_tick st)\<rparr>
      | None \<Rightarrow> st)"

text \<open>One step of the search for the least recently used index that is free.\<close>

definition cooler ::
  "(string \<Rightarrow> bool) \<Rightarrow> string \<Rightarrow> string \<times> nat \<Rightarrow> (nat \<times> string) option \<Rightarrow> (nat \<times> string) option" where
  "cooler busy exclude entry coldest =
     (if fst entry = exclude \<or> busy (fst entry) then coldest
      else case coldest of
             None \<Rightarrow> Some (snd entry, fst entry)
           | Some (best, _) \<Rightarrow> if snd entry < best then Some (snd entry, fst entry) else coldest)"

definition coldest_closable_index ::
  "(string \<Rightarrow> bool) \<Rightarrow> string \<Rightarrow> (string, nat) omap \<Rightarrow> string option" where
  "coldest_closable_index busy exclude opened = map_option snd (fold (cooler busy exclude) opened None)"

lemma hs_open_commit_txn [simp]: "hs_open (commit_txn e b f st) = hs_open st"
  by (simp add: commit_txn_def)

lemma hs_open_checkpoint [simp]: "hs_open (checkpoint_after_commit e index seq st) = hs_open st"
  by (simp add: checkpoint_after_commit_def checkpoint_committed_def reset_operations_counter_def
      split: option.splits)

lemma hs_open_commit_locked: "commit_locked_writer e cfg index st = (st', r) \<Longrightarrow> hs_open st' = hs_open st"
  by (auto simp: commit_locked_writer_def durability_barrier_def set_dir_def Let_def split: option.splits)

lemma hs_open_drop_writer [simp]: "hs_open (drop_writer e index st) = hs_open st"
  by (simp add: drop_writer_def)

lemma hs_open_close:
  "close_index e cfg busy index st = (st', True) \<Longrightarrow> hs_open st' = om_remove index (hs_open st)"
  by (auto simp: close_index_def drop_index_caches_def Let_def dest: hs_open_commit_locked
      split: if_splits prod.splits sum.splits)

lemma cooler_mem:
  assumes "\<And>p. acc = Some p \<Longrightarrow> snd p \<noteq> exclude \<and> \<not> busy (snd p) \<and> snd p \<in> S"
    and "fst ` set xs \<subseteq> S" "fold (cooler busy exclude) xs acc = Some p"
  shows "snd p \<noteq> exclude \<and> \<not> busy (snd p) \<and> snd p \<in> S"
  using assms
proof (induction xs arbitrary: acc)
  case (Cons x xs)
  have step: "snd q \<noteq> exclude \<and> \<not> busy (snd q) \<and> snd q \<in> S" if "cooler busy exclude x acc = Some q" for q
    using that Cons.prems(1) [of q] Cons.prems(2)
    by (auto simp: cooler_def split: if_splits option.splits prod.splits)
  show ?case by (rule Cons.IH [OF step]) (use Cons.prems in simp_all)
qed simp

lemma cooler_least:
  assumes "fold (cooler busy exclude) xs acc = r"
  shows "(\<forall>b n. acc = Some (b, n) \<longrightarrow> (\<exists>b' n'. r = Some (b', n') \<and> b' \<le> b)) \<and>
    (\<forall>x \<in> set xs. fst x \<noteq> exclude \<and> \<not> busy (fst x) \<longrightarrow> (\<exists>b' n'. r = Some (b', n') \<and> b' \<le> snd x))"
  using assms
proof (induction xs arbitrary: acc)
  case (Cons x xs)
  from Cons.prems have r: "fold (cooler busy exclude) xs (cooler busy exclude x acc) = r" by simp
  note IH = Cons.IH [OF r, THEN conjunct1] and IHx = Cons.IH [OF r, THEN conjunct2]
  have acc: "\<exists>b' n'. r = Some (b', n') \<and> b' \<le> b" if "acc = Some (b, n)" for b n
  proof -
    from that obtain b1 n1 where "cooler busy exclude x acc = Some (b1, n1)" "b1 \<le> b"
      by (cases "fst x = exclude \<or> busy (fst x)"; cases "snd x < b") (auto simp: cooler_def)
    with IH show ?thesis by (meson le_trans)
  qed
  have x: "\<exists>b' n'. r = Some (b', n') \<and> b' \<le> snd x" if "fst x \<noteq> exclude \<and> \<not> busy (fst x)"
  proof -
    from that obtain b1 n1 where "cooler busy exclude x acc = Some (b1, n1)" "b1 \<le> snd x"
      by (cases acc; cases "snd x < fst (the acc)") (auto simp: cooler_def)
    with IH show ?thesis by (meson le_trans)
  qed
  from acc x IHx show ?case by simp
qed simp

lemma coldest_closable:
  assumes "coldest_closable_index busy exclude opened = Some v"
  shows "v \<in> set (om_keys opened) \<and> v \<noteq> exclude \<and> \<not> busy v"
proof -
  from assms obtain b where "fold (cooler busy exclude) opened None = Some (b, v)"
    by (auto simp: coldest_closable_index_def)
  from cooler_mem [OF _ _ this, of "set (om_keys opened)"] show ?thesis
    by (auto simp: om_keys_def)
qed

lemma coldest_none:
  "coldest_closable_index busy exclude opened = None \<Longrightarrow> (n, u) \<in> set opened \<Longrightarrow> n = exclude \<or> busy n"
  using cooler_least [of busy exclude opened None, OF refl, THEN conjunct2]
  by (fastforce simp: coldest_closable_index_def)

text \<open>
  The loop that makes room for one more open index. A busy index is passed over when the victim is chosen,
  so a chosen victim closes and the loop ends when the set is small enough or no victim is left.
\<close>

function make_room ::
  "('k, 't) engines \<Rightarrow> config \<Rightarrow> (string \<Rightarrow> bool) \<Rightarrow> string \<Rightarrow> ('k, 't) hybrid_store \<Rightarrow> ('k, 't) hybrid_store" where
  "make_room e cfg busy index st =
     (if length (hs_open st) < cf_max_open_indexes cfg then st
      else
        case coldest_closable_index busy index (hs_open st) of
          None \<Rightarrow> st
        | Some victim \<Rightarrow>
            (case close_index e cfg busy victim st of
               (st', closed) \<Rightarrow> if closed then make_room e cfg busy index st' else st))"
  by pat_completeness auto
termination
proof (relation "measure (\<lambda>(e, cfg, busy, index, st). length (hs_open st))", goal_cases)
  case (2 e cfg busy index st victim st' closed)
  then have "victim \<in> set (om_keys (hs_open st))" by (simp add: coldest_closable)
  moreover from 2 have "close_index e cfg busy victim st = (st', True)" by simp
  then have "hs_open st' = om_remove victim (hs_open st)" by (rule hs_open_close)
  ultimately show ?case
    by (auto simp: om_remove_def om_retain_def om_keys_def intro!: length_filter_less)
qed simp

declare make_room.simps [simp del]

definition admit_open_index ::
  "('k, 't) engines \<Rightarrow> config \<Rightarrow> (string \<Rightarrow> bool) \<Rightarrow> string \<Rightarrow> ('k, 't) hybrid_store \<Rightarrow> ('k, 't) hybrid_store" where
  "admit_open_index e cfg busy index st =
     (let tick = hs_tick st; st1 = st\<lparr>hs_tick := Suc tick\<rparr> in
      case om_get (hs_open st1) index of
        Some _ \<Rightarrow> st1\<lparr>hs_open := om_insert index tick (hs_open st1)\<rparr>
      | None \<Rightarrow>
          let st2 = (if 0 < cf_max_open_indexes cfg then make_room e cfg busy index st1 else st1)
          in st2\<lparr>hs_open := om_insert index tick (hs_open st2)\<rparr>)"

end
