(* ===== verification/Store_Ops.thy ===== *)
theory Store_Ops
  imports Store
begin

text \<open>
  The operations of the store (\<open>storage/src/store.rs\<close>): opening or creating an index, applying a batch of
  writes, committing, reopening after a dead writer, shutting down, dropping an index, starting up, and
  what a crash leaves.
\<close>

section \<open>Opening and creating an index\<close>

definition id_field :: field_def where
  "id_field =
     \<lparr>fd_name = ''id'', fd_field_type = Text, fd_indexed = True, fd_stored = True, fd_fast = Some True,
      fd_is_shadow = False, fd_description = None, fd_tokenizer = Some ''raw'',
      fd_index_record_option = Some ''Basic'', fd_learned = False, fd_ghost = None\<rparr>"

text \<open>A new index names its key: the schema as it stands now, with \<open>id\<close> where it has none.\<close>

definition sync_schema ::
  "('k, 't) engines \<Rightarrow> config \<Rightarrow> string \<Rightarrow> index_schema \<Rightarrow> ('k, 't) hybrid_store \<Rightarrow> ('k, 't, unit) outcome" where
  "sync_schema e cfg index taken st =
     (case get_schema_cached e cfg index st of
        (st1, Inl x) \<Rightarrow> (st1, Err x)
      | (st1, Inr s) \<Rightarrow>
          let current = (case s of Some s \<Rightarrow> s | None \<Rightarrow> taken) in
          if om_get (ix_fields current) ''id'' = None
          then let synced = current\<lparr>ix_fields := om_insert ''id'' id_field (ix_fields current)\<rparr>
               in ((store_schema e index synced st1)\<lparr>hs_schemas := (hs_schemas st1)(index := Some synced)\<rparr>, Ok ())
          else (st1, Ok ()))"

definition open_or_create ::
  "('k, 't) engines \<Rightarrow> config \<Rightarrow> string \<Rightarrow> index_schema \<Rightarrow> ('k, 't) hybrid_store \<Rightarrow>
   ('k, 't, 't \<times> schema_fields) outcome" where
  "open_or_create e cfg index s st =
     (case hs_dirs st index of
        Some t \<Rightarrow> (st, and_then (load_fields (tv_columns e t)) (\<lambda>fs. Ok (t, fs)))
      | None \<Rightarrow>
          let t = tv_create e (create_schema_from_definition s); st1 = set_dir index t st in
          case load_fields (tv_columns e t) of
            Inl x \<Rightarrow> (st1, Err x)
          | Inr fs \<Rightarrow>
              (case sync_schema e cfg index s st1 of
                 (st2, Inl x) \<Rightarrow> (st2, Err x)
               | (st2, Inr _) \<Rightarrow> (st2, Ok (t, fs))))"

definition rollback_dir :: "('k, 't) engines \<Rightarrow> string \<Rightarrow> ('k, 't) hybrid_store \<Rightarrow> ('k, 't) hybrid_store" where
  "rollback_dir e index st =
     st\<lparr>hs_dirs := (hs_dirs st)(index := map_option (tv_rollback e) (hs_dirs st index))\<rparr>"

text \<open>The sequence counter, set only where there is none: above the log and above the checkpoint.\<close>

definition seed_sequence :: "string \<Rightarrow> nat \<Rightarrow> nat \<Rightarrow> ('k, 't) hybrid_store \<Rightarrow> ('k, 't) hybrid_store" where
  "seed_sequence index max_wal c st =
     (case hs_seq st index of
        Some _ \<Rightarrow> st
      | None \<Rightarrow>
          let m = max max_wal c
          in st\<lparr>hs_seq := (hs_seq st)(index := Some (if m = u64_max then 0 else m))\<rparr>)"

definition get_or_create_index_locked ::
  "('k, 't) engines \<Rightarrow> config \<Rightarrow> deps \<Rightarrow> (string \<Rightarrow> bool) \<Rightarrow> string \<Rightarrow> ('k, 't) hybrid_store \<Rightarrow>
   ('k, 't, schema_fields) outcome" where
  "get_or_create_index_locked e cfg d busy index st =
     (if hs_writers st index
      then (st, case hs_dirs st index of Some t \<Rightarrow> load_fields (tv_columns e t) | None \<Rightarrow> Err (WriterClosed index))
      else
        case index_dir cfg index of
          Inl x \<Rightarrow> (st, Err x)
        | Inr _ \<Rightarrow>
            case get_schema_cached e cfg index st of
              (st1, Inl x) \<Rightarrow> (st1, Err x)
            | (st1, Inr s) \<Rightarrow>
                case open_or_create e cfg index (case s of Some s \<Rightarrow> s | None \<Rightarrow> schema_default) st1 of
                  (st2, Inl x) \<Rightarrow> (st2, Err x)
                | (st2, Inr (t, fs)) \<Rightarrow>
                    case recover_index e cfg d index t st2 of
                      (st3, Inl x) \<Rightarrow> (rollback_dir e index st3, Err x)
                    | (st3, Inr (_, max_wal, c)) \<Rightarrow>
                        let st4 = admit_open_index e cfg busy index st3
                        in (seed_sequence index max_wal c (st4\<lparr>hs_writers := (hs_writers st4)(index := True)\<rparr>),
                            Ok fs))"

definition get_or_create_index ::
  "('k, 't) engines \<Rightarrow> config \<Rightarrow> deps \<Rightarrow> (string \<Rightarrow> bool) \<Rightarrow> string \<Rightarrow> ('k, 't) hybrid_store \<Rightarrow>
   ('k, 't, schema_fields) outcome" where
  "get_or_create_index e cfg d busy index st =
     get_or_create_index_locked e cfg d busy index (touch_open_index index st)"

text \<open>Retiring a dead writer and opening the index again, with \<open>retries\<close> attempts after the first.\<close>

fun reopen_attempts ::
  "('k, 't) engines \<Rightarrow> config \<Rightarrow> deps \<Rightarrow> (string \<Rightarrow> bool) \<Rightarrow> string \<Rightarrow> nat \<Rightarrow> ('k, 't) hybrid_store \<Rightarrow>
   ('k, 't, unit) outcome" where
  "reopen_attempts e cfg d busy index 0 st =
     (case get_or_create_index e cfg d busy index st of
        (st', Inl x) \<Rightarrow> (st', Err x)
      | (st', Inr _) \<Rightarrow> (st', Ok ()))"
| "reopen_attempts e cfg d busy index (Suc retries) st =
     (case get_or_create_index e cfg d busy index st of
        (st', Inl x) \<Rightarrow> reopen_attempts e cfg d busy index retries st'
      | (st', Inr _) \<Rightarrow> (st', Ok ()))"

definition reopen_after_dead_writer ::
  "('k, 't) engines \<Rightarrow> config \<Rightarrow> deps \<Rightarrow> (string \<Rightarrow> bool) \<Rightarrow> string \<Rightarrow> ('k, 't) hybrid_store \<Rightarrow>
   ('k, 't, unit) outcome" where
  "reopen_after_dead_writer e cfg d busy index st = reopen_attempts e cfg d busy index 2 (drop_writer e index st)"

section \<open>Applying a batch\<close>

definition op_brings_new_field :: "index_schema \<Rightarrow> wal_op \<Rightarrow> bool" where
  "op_brings_new_field s op =
     (case op of
        Put _ (Some blob) \<Rightarrow>
          (case as_object blob of
             Some m \<Rightarrow> list_ex (\<lambda>(n, _). om_get (ix_fields s) n = None) m
           | None \<Rightarrow> False)
      | _ \<Rightarrow> False)"

fun evolve_batch :: "deps \<Rightarrow> wal_op list \<Rightarrow> index_schema \<Rightarrow> index_schema \<times> string list" where
  "evolve_batch d [] s = (s, [])"
| "evolve_batch d (op # ops) s =
     (case op of
        Put _ (Some blob) \<Rightarrow>
          (case evolve_from_document d blob s of (s', names) \<Rightarrow>
             case evolve_batch d ops s' of (s'', names') \<Rightarrow> (s'', names @ names'))
      | _ \<Rightarrow> evolve_batch d ops s)"

definition evolved_schema :: "deps \<Rightarrow> wal_op list \<Rightarrow> index_schema \<Rightarrow> index_schema option" where
  "evolved_schema d ops s =
     (if list_ex (op_brings_new_field s) ops
      then (case evolve_batch d ops s of (s', names) \<Rightarrow> if names \<noteq> [] then Some s' else None)
      else None)"

datatype prepared_kind = PreparedPut tdoc | PreparedDelete

record prepared_op =
  po_wal :: bytes
  po_doc :: "json option option"
  po_id :: string
  po_seq :: nat
  po_kind :: prepared_kind

text \<open>The row of a body: a JSON null and no body are stored alike.\<close>

definition stored_body :: "json option \<Rightarrow> json option" where
  "stored_body b = (if b = Some JNull then None else b)"

definition prepare_op ::
  "deps \<Rightarrow> schema_fields \<Rightarrow> index_schema \<Rightarrow> wal_op \<times> nat \<Rightarrow> (store_error, prepared_op) result" where
  "prepare_op d fs s x =
     (case x of (op, seq) \<Rightarrow>
        case op of
          Put i blob \<Rightarrow>
            let body = (if has_shadow_fields s \<or> has_ghost_fields s
                        then map_option (\<lambda>b. filter_unstored_fields_owned b s) blob else blob)
            in and_then (document d fs s i seq body Refuse) (\<lambda>doc.
                 Ok \<lparr>po_wal = encode_wal_entry i, po_doc = Some (stored_body body), po_id = i, po_seq = seq,
                     po_kind = PreparedPut doc\<rparr>)
        | Delete i \<Rightarrow>
            Ok \<lparr>po_wal = encode_wal_entry i, po_doc = None, po_id = i, po_seq = seq, po_kind = PreparedDelete\<rparr>)"

fun prepare_ops ::
  "deps \<Rightarrow> schema_fields \<Rightarrow> index_schema \<Rightarrow> (wal_op \<times> nat) list \<Rightarrow> (store_error, prepared_op list) result" where
  "prepare_ops d fs s [] = Ok []"
| "prepare_ops d fs s (x # xs) =
     and_then (prepare_op d fs s x) (\<lambda>p. and_then (prepare_ops d fs s xs) (\<lambda>ps. Ok (p # ps)))"

datatype final_op = AddDoc tdoc | DropDoc

record final_entry =
  fe_id :: string
  fe_existed_before :: bool
  fe_op :: final_op

fun record_final :: "string \<Rightarrow> bool \<Rightarrow> final_op \<Rightarrow> final_entry list \<Rightarrow> final_entry list" where
  "record_final i touched op [] = [\<lparr>fe_id = i, fe_existed_before = touched, fe_op = op\<rparr>]"
| "record_final i touched op (x # xs) =
     (if fe_id x = i then x\<lparr>fe_op := op\<rparr> # xs else x # record_final i touched op xs)"

text \<open>One operation inside the transaction: its log entry, its row, and what Tantivy must end with.\<close>

definition apply_prepared ::
  "prepared_op \<Rightarrow> (nat, bytes) omap \<times> (string, json option) omap \<times> final_entry list \<Rightarrow>
   (nat, bytes) omap \<times> (string, json option) omap \<times> final_entry list" where
  "apply_prepared p = (\<lambda>(wal, rows, finals).
     let wal' = om_insert (po_seq p) (po_wal p) wal; held = (om_get rows (po_id p) \<noteq> None) in
     case po_kind p of
       PreparedPut doc \<Rightarrow>
         (case po_doc p of
            Some body \<Rightarrow>
              (wal', om_insert (po_id p) body rows, record_final (po_id p) held (AddDoc doc) finals)
          | None \<Rightarrow> (wal', rows, record_final (po_id p) False (AddDoc doc) finals))
     | PreparedDelete \<Rightarrow> (wal', om_remove (po_id p) rows, record_final (po_id p) held DropDoc finals))"

definition batch_txn ::
  "string \<Rightarrow> index_schema option \<Rightarrow> (nat, bytes) omap \<Rightarrow> (string, json option) omap \<Rightarrow> tables \<Rightarrow> tables" where
  "batch_txn index evolved wal rows T =
     T\<lparr>tb_schema := (case evolved of Some s \<Rightarrow> (tb_schema T)(index := Some s) | None \<Rightarrow> tb_schema T),
       tb_wal := (tb_wal T)(index := wal), tb_data := (tb_data T)(index := rows)\<rparr>"

text \<open>
  A batch up to its transaction: the schema read and evolved, the sequences reserved, every document built
  and the rows, the log entries and the evolved schema committed together. The answer is the sequences
  and what is left to tell Tantivy.
\<close>

definition write_batch ::
  "('k, 't) engines \<Rightarrow> config \<Rightarrow> deps \<Rightarrow> string \<Rightarrow> schema_fields \<Rightarrow> wal_op list \<Rightarrow> ('k, 't) hybrid_store \<Rightarrow>
   ('k, 't, nat list \<times> final_entry list) outcome" where
  "write_batch e cfg d index fs ops st =
     (case get_schema_cached e cfg index st of
        (st1, Inl x) \<Rightarrow> (st1, Err x)
      | (st1, Inr cached) \<Rightarrow>
          let s = (case cached of
                     Some s \<Rightarrow> s
                   | None \<Rightarrow> (case get_schema e index st1 of Some s \<Rightarrow> s | None \<Rightarrow> schema_default));
              evolved = evolved_schema d ops s
          in case hs_seq st1 index of
               None \<Rightarrow> (st1, Err (IndexNotFound index))
             | Some c \<Rightarrow>
                 let seqs = map (\<lambda>i. (c + 1 + i) mod u64_mod) [0..<length ops];
                     st2 = st1\<lparr>hs_seq := (hs_seq st1)(index := Some ((c + length ops) mod u64_mod))\<rparr>
                 in case prepare_ops d fs s (zip ops seqs) of
                      Inl x \<Rightarrow> (st2, Err x)
                    | Inr prepared \<Rightarrow>
                        case fold apply_prepared prepared (tb_wal (view e st2) index, tb_data (view e st2) index, []) of
                          (wal, rows, finals) \<Rightarrow>
                            let st3 = commit_txn e (cf_wal_sync cfg \<or> evolved \<noteq> None)
                                        (batch_txn index evolved wal rows) st2;
                                st4 = (case evolved of
                                         Some s' \<Rightarrow> st3\<lparr>hs_schemas := (hs_schemas st3)(index := Some s')\<rparr>
                                       | None \<Rightarrow> st3)
                            in (st4, Ok (map po_seq prepared, finals)))"

text \<open>
  The Tantivy pass: per identifier the version it replaces is removed and its last put added. Past a dead
  writer the rest is counted only. The answer is the writer, whether it died, and the new documents.
\<close>

fun index_finals ::
  "('k, 't) engines \<Rightarrow> schema_fields \<Rightarrow> final_entry list \<Rightarrow> 't \<Rightarrow> bool \<Rightarrow> nat \<Rightarrow> 't \<times> bool \<times> nat" where
  "index_finals e fs [] t died n = (t, died, n)"
| "index_finals e fs (x # xs) t died n =
     (let n' = (case fe_op x of AddDoc _ \<Rightarrow> if fe_existed_before x then n else Suc n | DropDoc \<Rightarrow> n);
          t1 = (if fe_existed_before x \<or> fe_op x = DropDoc
                then tv_delete_term e (sf_id fs) (fe_id x) t else t)
      in if died then index_finals e fs xs t True n'
         else case fe_op x of
                DropDoc \<Rightarrow> index_finals e fs xs t1 False n'
              | AddDoc doc \<Rightarrow>
                  (case tv_add_document e doc t1 of
                     Some t2 \<Rightarrow> index_finals e fs xs t2 False n'
                   | None \<Rightarrow> index_finals e fs xs t1 True n'))"

definition is_delete :: "wal_op \<Rightarrow> bool" where
  "is_delete op = (case op of Delete _ \<Rightarrow> True | Put _ _ \<Rightarrow> False)"

definition apply_batch ::
  "('k, 't) engines \<Rightarrow> config \<Rightarrow> deps \<Rightarrow> (string \<Rightarrow> bool) \<Rightarrow> string \<Rightarrow> wal_op list \<Rightarrow> ('k, 't) hybrid_store \<Rightarrow>
   ('k, 't, nat list \<times> nat) outcome" where
  "apply_batch e cfg d busy index ops st =
     (if ops = [] then (st, Ok ([], 0))
      else if list_all is_delete ops \<and> \<not> index_exists e index st then (st, Err (IndexNotFound index))
      else if index_was_dropped e index st then (st, Err (IndexNotFound index))
      else
        case get_or_create_index_locked e cfg d busy index st of
          (st1, Inl x) \<Rightarrow> (st1, Err x)
        | (st1, Inr fs) \<Rightarrow>
            case write_batch e cfg d index fs ops st1 of
              (st2, Inl x) \<Rightarrow> (st2, Err x)
            | (st2, Inr (seqs, finals)) \<Rightarrow>
                case hs_dirs st2 index of
                  None \<Rightarrow> (st2, Err (WriterClosed index))
                | Some t \<Rightarrow>
                    (case index_finals e fs finals t False 0 of
                       (t', died, new_docs) \<Rightarrow>
                         let st3 = set_dir index t' st2 in
                         if died
                         then (case reopen_after_dead_writer e cfg d busy index st3 of
                                 (st4, Inl x) \<Rightarrow> (st4, Err x)
                               | (st4, Inr _) \<Rightarrow> (st4, Ok (seqs, new_docs)))
                         else (add_operations index (length ops) st3, Ok (seqs, new_docs))))"

text \<open>A single write is a batch of one.\<close>

definition apply_write ::
  "('k, 't) engines \<Rightarrow> config \<Rightarrow> deps \<Rightarrow> (string \<Rightarrow> bool) \<Rightarrow> string \<Rightarrow> wal_op \<Rightarrow> ('k, 't) hybrid_store \<Rightarrow>
   ('k, 't, nat) outcome" where
  "apply_write e cfg d busy index op st =
     (case apply_batch e cfg d busy index [op] st of
        (st', Inl x) \<Rightarrow> (st', Err x)
      | (st', Inr (seqs, _)) \<Rightarrow> (st', Ok (hd seqs)))"

section \<open>Committing\<close>

definition commit_index ::
  "('k, 't) engines \<Rightarrow> config \<Rightarrow> deps \<Rightarrow> (string \<Rightarrow> bool) \<Rightarrow> string \<Rightarrow> ('k, 't) hybrid_store \<Rightarrow>
   ('k, 't, unit) outcome" where
  "commit_index e cfg d busy index st =
     (if get_operations_count index st = 0 then (st, Ok ())
      else
        case (if hs_writers st index then (st, Ok ())
              else case get_or_create_index e cfg d busy index st of
                     (st1, Inl x) \<Rightarrow> (st1, Err x)
                   | (st1, Inr _) \<Rightarrow> (st1, Ok ())) of
          (st1, Inl x) \<Rightarrow> (st1, Err x)
        | (st1, Inr _) \<Rightarrow>
            case commit_locked_writer e cfg index st1 of
              (st2, Inl x) \<Rightarrow> (fst (reopen_after_dead_writer e cfg d busy index st2), Err x)
            | (st2, Inr seq) \<Rightarrow> (checkpoint_after_commit e index seq st2, Ok ()))"

text \<open>Whether a commit is due is measured (memory budget, clock) and a parameter here.\<close>

definition maybe_commit_writer ::
  "('k, 't) engines \<Rightarrow> config \<Rightarrow> deps \<Rightarrow> (string \<Rightarrow> bool) \<Rightarrow> bool \<Rightarrow> string \<Rightarrow> ('k, 't) hybrid_store \<Rightarrow>
   ('k, 't, bool) outcome" where
  "maybe_commit_writer e cfg d busy due index st =
     (if due
      then (case commit_index e cfg d busy index st of
              (st', Inl x) \<Rightarrow> (st', Err x)
            | (st', Inr _) \<Rightarrow> (st', Ok True))
      else (st, Ok False))"

definition apply_batch_and_maybe_commit ::
  "('k, 't) engines \<Rightarrow> config \<Rightarrow> deps \<Rightarrow> (string \<Rightarrow> bool) \<Rightarrow> bool \<Rightarrow> string \<Rightarrow> wal_op list \<Rightarrow>
   ('k, 't) hybrid_store \<Rightarrow> ('k, 't, (nat list \<times> nat) \<times> bool) outcome" where
  "apply_batch_and_maybe_commit e cfg d busy due index ops st =
     (case apply_batch e cfg d busy index ops st of
        (st1, Inl x) \<Rightarrow> (st1, Err x)
      | (st1, Inr r) \<Rightarrow>
          (case maybe_commit_writer e cfg d busy due index st1 of
             (st2, Inl x) \<Rightarrow> (st2, Err x)
           | (st2, Inr b) \<Rightarrow> (st2, Ok (r, b))))"

section \<open>Shutdown, drop, crash and start-up\<close>

definition shutdown_commit ::
  "('k, 't) engines \<Rightarrow> config \<Rightarrow> (string \<Rightarrow> bool) \<Rightarrow> string \<Rightarrow> ('k, 't) hybrid_store \<Rightarrow> ('k, 't) hybrid_store" where
  "shutdown_commit e cfg busy index st =
     (if 0 < get_operations_count index st \<and> hs_writers st index \<and> \<not> busy index
      then (case commit_locked_writer e cfg index st of
              (st1, Inr seq) \<Rightarrow> checkpoint_after_commit e index seq st1
            | (st1, Inl _) \<Rightarrow> st1)
      else st)"

text \<open>Every writer dropped, every cache emptied.\<close>

definition drop_everything :: "('k, 't) engines \<Rightarrow> ('k, 't) hybrid_store \<Rightarrow> ('k, 't) hybrid_store" where
  "drop_everything e st =
     st\<lparr>hs_dirs := (\<lambda>i. if hs_writers st i then map_option (tv_rollback e) (hs_dirs st i) else hs_dirs st i),
        hs_writers := (\<lambda>_. False), hs_seq := (\<lambda>_. None), hs_ops := (\<lambda>_. None), hs_schemas := (\<lambda>_. None)\<rparr>"

definition shutdown ::
  "('k, 't) engines \<Rightarrow> config \<Rightarrow> (string \<Rightarrow> bool) \<Rightarrow> string list \<Rightarrow> ('k, 't) hybrid_store \<Rightarrow> ('k, 't) hybrid_store" where
  "shutdown e cfg busy names st =
     commit_txn e True (\<lambda>T. T) (drop_everything e (fold (shutdown_commit e cfg busy) names st))"

text \<open>A drop: caches, then the tables in one transaction, then the directory.\<close>

definition drop_tables :: "string \<Rightarrow> bool \<Rightarrow> tables \<Rightarrow> tables" where
  "drop_tables index delete_schema T =
     T\<lparr>tb_data := (tb_data T)(index := []), tb_wal := (tb_wal T)(index := []),
       tb_meta := (tb_meta T)(index := None),
       tb_schema := (if delete_schema
                     then (tb_schema T)(index := map_option tombstone (tb_schema T index))
                     else tb_schema T)\<rparr>"

definition delete_index_tables ::
  "('k, 't) engines \<Rightarrow> string \<Rightarrow> bool \<Rightarrow> ('k, 't) hybrid_store \<Rightarrow> ('k, 't) hybrid_store" where
  "delete_index_tables e index delete_schema st =
     (let st1 = drop_index_caches e index st; st2 = commit_txn e True (drop_tables index delete_schema) st1
      in if delete_schema
         then (case get_schema e index st1 of
                 Some s \<Rightarrow> st2\<lparr>hs_schemas := (hs_schemas st2)(index := Some (tombstone s))\<rparr>
               | None \<Rightarrow> st2)
         else st2)"

definition delete_index_data ::
  "('k, 't) engines \<Rightarrow> config \<Rightarrow> string \<Rightarrow> bool \<Rightarrow> ('k, 't) hybrid_store \<Rightarrow> ('k, 't, unit) outcome" where
  "delete_index_data e cfg index delete_schema st =
     (case index_dir cfg index of
        Inl x \<Rightarrow> (st, Err x)
      | Inr _ \<Rightarrow>
          let st1 = delete_index_tables e index delete_schema st
          in (st1\<lparr>hs_dirs := (hs_dirs st1)(index := None)\<rparr>, Ok ()))"

text \<open>A crash and the start of the next process: what was in memory is gone, redb is what was durable.\<close>

definition crash :: "('k, 't) engines \<Rightarrow> ('k, 't) hybrid_store \<Rightarrow> ('k, 't) hybrid_store" where
  "crash e st =
     \<lparr>hs_kv = kv_reopen e (hs_kv st), hs_dirs = (\<lambda>i. map_option (tv_rollback e) (hs_dirs st i)),
      hs_writers = (\<lambda>_. False), hs_seq = (\<lambda>_. None), hs_ops = (\<lambda>_. None), hs_schemas = (\<lambda>_. None),
      hs_open = [], hs_tick = 0\<rparr>"

text \<open>
  Phase one of start-up over the names the schema table lists: every index with a log tail is opened, which
  replays it, and a failure is tried once more. The threads of the source are run one after another.
\<close>

fun recovery_fanout ::
  "('k, 't) engines \<Rightarrow> config \<Rightarrow> deps \<Rightarrow> (string \<Rightarrow> bool) \<Rightarrow> string list \<Rightarrow> ('k, 't) hybrid_store \<Rightarrow>
   ('k, 't) hybrid_store \<times> (string \<times> bool) list" where
  "recovery_fanout e cfg d busy [] st = (st, [])"
| "recovery_fanout e cfg d busy (n # ns) st =
     (case get_or_create_index e cfg d busy n st of (st1, r) \<Rightarrow>
        case recovery_fanout e cfg d busy ns st1 of (st2, rs) \<Rightarrow>
          (st2, (n, case r of Inl _ \<Rightarrow> False | Inr _ \<Rightarrow> True) # rs))"

definition recover_with_a_retry ::
  "('k, 't) engines \<Rightarrow> config \<Rightarrow> deps \<Rightarrow> (string \<Rightarrow> bool) \<Rightarrow> string list \<Rightarrow> ('k, 't) hybrid_store \<Rightarrow>
   ('k, 't) hybrid_store \<times> string list \<times> string list" where
  "recover_with_a_retry e cfg d busy names st =
     (case recovery_fanout e cfg d busy names st of (st1, rs) \<Rightarrow>
        let recovered = map fst (filter snd rs); first_failed = map fst (filter (\<lambda>x. \<not> snd x) rs) in
        case recovery_fanout e cfg d busy first_failed st1 of (st2, rs2) \<Rightarrow>
          (st2, recovered @ map fst (filter snd rs2), map fst (filter (\<lambda>x. \<not> snd x) rs2)))"

definition recover_indices ::
  "('k, 't) engines \<Rightarrow> config \<Rightarrow> deps \<Rightarrow> (string \<Rightarrow> bool) \<Rightarrow> string list \<Rightarrow> ('k, 't) hybrid_store \<Rightarrow>
   ('k, 't) hybrid_store \<times> string list \<times> string list" where
  "recover_indices e cfg d busy names st =
     recover_with_a_retry e cfg d busy (filter (\<lambda>n. tb_wal (view e st) n \<noteq> []) names) st"

end
