(* ===== verification/Store_Inv.thy ===== *)
theory Store_Inv
  imports Store_Ops
begin

text \<open>
  The invariant of the store and its preservation by every operation. For an index it says that the last
  commit of Tantivy agrees with redb on every identifier the log tail does not name, both with what redb
  shows and with what redb would show after a crash; that an open writer's buffer agrees with redb
  everywhere; and that the sequence counter is above the log and above the checkpoint.
\<close>

section \<open>Documents of an identifier\<close>

definition docs_of :: "schema_fields \<Rightarrow> string \<Rightarrow> tdoc multiset \<Rightarrow> tdoc multiset" where
  "docs_of fs i M = filter_mset (\<lambda>x. (sf_id fs, VText i) \<in> set x) M"

text \<open>
  An identifier is indexed as its row says: no document where there is no row, and exactly one, built from
  the body of the row, where there is one.
\<close>

definition row_indexed :: "deps \<Rightarrow> schema_fields \<Rightarrow> string \<Rightarrow> json option option \<Rightarrow> tdoc multiset \<Rightarrow> bool" where
  "row_indexed d fs i row M \<longleftrightarrow>
     (case row of
        None \<Rightarrow> docs_of fs i M = {#}
      | Some body \<Rightarrow> \<exists>s seq doc. document d fs s i seq body SkipAndWarn = Inr doc \<and> docs_of fs i M = {#doc#})"

definition fields_apart :: "schema_fields \<Rightarrow> bool" where
  "fields_apart fs \<longleftrightarrow>
     fields_built fs \<and> sf_seq fs \<noteq> Some (sf_id fs) \<and> (\<forall>n. om_get (sf_indexed_fields fs) n \<noteq> Some (sf_id fs))"

lemma column_index_nth:
  "column_index n i cs = Some j \<Longrightarrow> i \<le> j \<and> j - i < length cs \<and> cl_name (cs ! (j - i)) = n"
proof (induction n i cs rule: column_index.induct)
  case (2 n i c cs)
  show ?case
  proof (cases "cl_name c = n")
    case True
    with 2 show ?thesis by simp
  next
    case False
    with 2 have "Suc i \<le> j \<and> j - Suc i < length cs \<and> cl_name (cs ! (j - Suc i)) = n" by simp
    moreover from this have "j - i = Suc (j - Suc i)" by linarith
    ultimately show ?thesis by auto
  qed
qed simp

lemma field_map_inv [simp]: "om_inv (field_map i cs)"
  by (induction i cs rule: field_map.induct) auto

lemma field_map_nth:
  "om_get (field_map i cs) n = Some (j, b) \<Longrightarrow>
   i \<le> j \<and> j - i < length cs \<and> cl_name (cs ! (j - i)) = n \<and> n \<noteq> ''id'' \<and> n \<noteq> ''_seq''"
proof (induction cs arbitrary: i)
  case (Cons c cs)
  show ?case
  proof (cases "om_get (field_map (Suc i) cs) n = Some (j, b)")
    case True
    from Cons.IH [OF this] have "j - i = Suc (j - Suc i)" by linarith
    with Cons.IH [OF True] show ?thesis by simp
  next
    case False
    with Cons.prems have "cl_name c = n \<and> j = i \<and> n \<noteq> ''id'' \<and> n \<noteq> ''_seq''"
      by (cases "cl_name c = ''id'' \<or> cl_name c = ''_seq''"; cases "n = cl_name c") simp_all
    then show ?thesis by simp
  qed
qed simp

lemma load_fields_apart:
  assumes "load_fields cs = Inr fs"
  shows "fields_apart fs"
proof -
  from assms have l: "load_fields_from_existing_index cs = Inr fs"
    by (simp add: load_fields_def split: sum.splits)
  then obtain i where i: "column_index ''id'' 0 cs = Some i" and fs: "sf_id fs = i"
      "sf_seq fs = column_index ''_seq'' 0 cs" "sf_indexed_fields fs = om_map (\<lambda>_. fst) (field_map 0 cs)"
    by (auto simp: load_fields_from_existing_index_def split: option.splits)
  from column_index_nth [OF i] have nm: "cl_name (cs ! i) = ''id''" by simp
  have "sf_seq fs \<noteq> Some i"
    using column_index_nth [of "''_seq''" 0 cs i] nm fs(2) by auto
  moreover have "om_get (sf_indexed_fields fs) n \<noteq> Some i" for n
    using field_map_nth [of 0 cs n i] nm by (auto simp: fs(3))
  ultimately show ?thesis
    using loaded_fields_built [OF l] fs(1) by (simp add: fields_apart_def)
qed

lemma try_fold_keeps:
  assumes "try_fold f x ys = Inr z" "k \<in> set x" "\<And>x y z. f x y = Inr z \<Longrightarrow> set x \<subseteq> set z"
  shows "k \<in> set z"
  using assms(1,2)
proof (induction ys arbitrary: x)
  case (Cons y ys)
  from Cons.prems(1) obtain x1 where "f x y = Inr x1" "try_fold f x1 ys = Inr z"
    by (auto split: sum.splits)
  with Cons.IH Cons.prems(2) assms(3) show ?case by blast
qed simp

lemma add_json_keeps: "add_json_value_to_doc d c n t v bad x = Inr z \<Longrightarrow> set x \<subseteq> set z"
  by (auto simp: add_json_value_to_doc_def and_then_Ok_iff)

lemma add_member_keeps: "add_member d fs s bad x y = Inr z \<Longrightarrow> set x \<subseteq> set z"
  by (cases y) (auto simp: add_member_def split: option.splits if_splits dest: add_json_keeps)

lemma add_ghost_keeps:
  assumes "add_ghost d fs b bad x y = Inr z"
  shows "set x \<subseteq> set z"
proof (cases y)
  case (Pair n f)
  with assms show ?thesis
    by (cases "fd_ghost f"; cases "om_get (sf_indexed_fields fs) n"; cases "m_get b (gh_source (the (fd_ghost f)))")
       (auto simp: add_ghost_def split: if_splits dest: add_json_keeps)
qed

lemma document_holds_key:
  assumes "document d fs s i seq body bad = Inr doc"
  shows "(sf_id fs, VText i) \<in> set doc"
proof (cases "Option.bind body as_object")
  case None
  with assms show ?thesis by (auto simp: document_def)
next
  case (Some m)
  let ?d0 = "(sf_id fs, VText i) # (case sf_seq fs of Some c \<Rightarrow> [(c, VU64 seq)] | None \<Rightarrow> [])"
  from assms Some obtain doc1 where
    1: "try_fold (add_member d fs s bad) ?d0 m = Inr doc1"
    and 2: "try_fold (add_ghost d fs m bad) doc1 (ix_fields s) = Inr doc"
    by (auto simp: document_def Let_def and_then_Ok_iff)
  have "(sf_id fs, VText i) \<in> set doc1"
    by (rule try_fold_keeps [OF 1 _ add_member_keeps]) simp_all
  then show ?thesis by (rule try_fold_keeps [OF 2 _ add_ghost_keeps])
qed

lemma document_key:
  assumes "document d fs s i seq body bad = Inr doc" "fields_apart fs"
  shows "(sf_id fs, VText j) \<in> set doc \<longleftrightarrow> j = i"
proof
  assume "(sf_id fs, VText j) \<in> set doc"
  from document_fits [OF assms(1) _ this] assms(2) show "j = i"
    by (auto simp: fields_apart_def entry_fits_def)
next
  show "j = i \<Longrightarrow> (sf_id fs, VText j) \<in> set doc"
    using document_holds_key [OF assms(1)] by simp
qed

lemma document_seq_irrelevant:
  "document d fs s i seq (stored_body b) bad = document d fs s i seq b bad"
  by (simp add: document_def stored_body_def)

lemma docs_of_add: "docs_of fs j (add_mset x M) = (if (sf_id fs, VText j) \<in> set x then add_mset x (docs_of fs j M) else docs_of fs j M)"
  by (simp add: docs_of_def)

lemma docs_of_delete_self: "docs_of fs i (filter_mset (\<lambda>x. (sf_id fs, VText i) \<notin> set x) M) = {#}"
  by (simp add: docs_of_def filter_filter_mset)

lemma row_indexed_delete_other:
  assumes "row_indexed d fs j row M" "j \<noteq> i" "fields_apart fs"
  shows "row_indexed d fs j row (filter_mset (\<lambda>x. (sf_id fs, VText i) \<notin> set x) M)"
proof -
  have c: "docs_of fs j (filter_mset (\<lambda>x. (sf_id fs, VText i) \<notin> set x) M) =
      filter_mset (\<lambda>x. (sf_id fs, VText i) \<notin> set x) (docs_of fs j M)"
    by (simp add: docs_of_def filter_filter_mset conj_commute)
  show ?thesis
  proof (cases row)
    case None
    with assms(1) c show ?thesis by (simp add: row_indexed_def)
  next
    case (Some body)
    with assms(1) obtain s seq doc where doc: "document d fs s j seq body SkipAndWarn = Inr doc"
        "docs_of fs j M = {#doc#}"
      by (auto simp: row_indexed_def)
    from document_key [OF doc(1) assms(3), of i] assms(2) c doc(2)
    have "docs_of fs j (filter_mset (\<lambda>x. (sf_id fs, VText i) \<notin> set x) M) = {#doc#}" by simp
    with doc(1) Some show ?thesis by (auto simp: row_indexed_def)
  qed
qed

lemma row_indexed_add_other:
  assumes "row_indexed d fs j row M" "j \<noteq> i" "fields_apart fs" "document d fs s i seq body bad = Inr doc"
  shows "row_indexed d fs j row (add_mset doc M)"
proof -
  have "docs_of fs j (add_mset doc M) = docs_of fs j M"
    using assms(2) document_key [OF assms(4,3), of j] by (simp add: docs_of_add)
  with assms(1) show ?thesis unfolding row_indexed_def by (simp only:)
qed

lemma row_indexed_add_self:
  assumes "docs_of fs i M = {#}" "fields_apart fs" "document d fs s i seq body SkipAndWarn = Inr doc"
  shows "row_indexed d fs i (Some body) (add_mset doc M)"
  using assms(1,3) document_key [OF assms(3,2), of i] by (auto simp: row_indexed_def docs_of_add)

section \<open>Facts of the engines\<close>

lemma kv_laws:
  assumes "engines_ok e"
  shows "kv_view e (kv_commit e b t k) = t" "kv_disk e (kv_commit e True t k) = t"
    "kv_disk e (kv_commit e False t k) = kv_disk e k"
    "kv_view e (kv_reopen e k) = kv_disk e k" "kv_disk e (kv_reopen e k) = kv_disk e k"
  using assms by (simp_all add: engines_ok_def kv_ok_def)

lemma tv_create_laws:
  assumes "engines_ok e"
  shows "tv_columns e (tv_create e cs) = cs" "tv_docs e (tv_create e cs) = {#}"
    "tv_buffered e (tv_create e cs) = {#}" "tv_payload e (tv_create e cs) = None"
  using assms by (simp_all add: engines_ok_def tv_ok_def)

lemma tv_delete_laws:
  assumes "engines_ok e"
  shows "tv_columns e (tv_delete_term e f s t) = tv_columns e t" "tv_docs e (tv_delete_term e f s t) = tv_docs e t"
    "tv_payload e (tv_delete_term e f s t) = tv_payload e t"
    "tv_top_by_seq e (tv_delete_term e f s t) = tv_top_by_seq e t"
    "tv_buffered e (tv_delete_term e f s t) = filter_mset (\<lambda>d. (f, VText s) \<notin> set d) (tv_buffered e t)"
  using assms by (simp_all add: engines_ok_def tv_ok_def)

lemma tv_add_laws:
  assumes "engines_ok e" "tv_add_document e doc t = Some t'"
  shows "tv_columns e t' = tv_columns e t" "tv_docs e t' = tv_docs e t" "tv_payload e t' = tv_payload e t"
    "tv_top_by_seq e t' = tv_top_by_seq e t" "tv_buffered e t' = add_mset doc (tv_buffered e t)"
  using assms unfolding engines_ok_def tv_ok_def by blast+

lemma tv_commit_laws:
  assumes "engines_ok e" "tv_commit e p t = Some t'"
  shows "tv_columns e t' = tv_columns e t" "tv_docs e t' = tv_buffered e t"
    "tv_buffered e t' = tv_buffered e t" "tv_payload e t' = p"
  using assms unfolding engines_ok_def tv_ok_def by blast+

lemma tv_rollback_laws:
  assumes "engines_ok e"
  shows "tv_columns e (tv_rollback e t) = tv_columns e t" "tv_docs e (tv_rollback e t) = tv_docs e t"
    "tv_payload e (tv_rollback e t) = tv_payload e t" "tv_top_by_seq e (tv_rollback e t) = tv_top_by_seq e t"
    "tv_buffered e (tv_rollback e t) = tv_docs e t"
  using assms by (simp_all add: engines_ok_def tv_ok_def)

text \<open>Two states of an index that differ in nothing a reopening would see.\<close>

definition same_committed :: "('k, 't) engines \<Rightarrow> 't \<Rightarrow> 't \<Rightarrow> bool" where
  "same_committed e t t' \<longleftrightarrow>
     tv_columns e t' = tv_columns e t \<and> tv_docs e t' = tv_docs e t \<and> tv_payload e t' = tv_payload e t \<and>
     tv_top_by_seq e t' = tv_top_by_seq e t"

lemma same_committed_refl [simp]: "same_committed e t t"
  by (simp add: same_committed_def)

lemma same_committed_trans: "same_committed e t u \<Longrightarrow> same_committed e u v \<Longrightarrow> same_committed e t v"
  by (simp add: same_committed_def)

lemma same_committed_intros:
  assumes "engines_ok e"
  shows "same_committed e t (tv_delete_term e f s t)" "same_committed e t (tv_rollback e t)"
    "tv_add_document e doc t = Some t' \<Longrightarrow> same_committed e t t'"
  using assms by (simp_all add: same_committed_def tv_delete_laws tv_rollback_laws tv_add_laws)

section \<open>The invariant\<close>

text \<open>What redb holds of one index: its rows, its log and its recovery row.\<close>

type_synonym slice = "(string, json option) omap \<times> (nat, bytes) omap \<times> nat option"

definition slice_of :: "tables \<Rightarrow> string \<Rightarrow> slice" where
  "slice_of T i = (tb_data T i, tb_wal T i, tb_meta T i)"

definition sl_rows :: "slice \<Rightarrow> (string, json option) omap" where "sl_rows = fst"
definition sl_wal :: "slice \<Rightarrow> (nat, bytes) omap" where "sl_wal sl = fst (snd sl)"
definition sl_meta :: "slice \<Rightarrow> nat option" where "sl_meta sl = snd (snd sl)"

lemma slice_sel [simp]:
  "sl_rows (slice_of T i) = tb_data T i" "sl_wal (slice_of T i) = tb_wal T i" "sl_meta (slice_of T i) = tb_meta T i"
  "sl_rows (r, w, m) = r" "sl_wal (r, w, m) = w" "sl_meta (r, w, m) = m"
  by (simp_all add: slice_of_def sl_rows_def sl_wal_def sl_meta_def)

definition tail_ids :: "('k, 't) engines \<Rightarrow> nat \<Rightarrow> (nat, bytes) omap \<Rightarrow> string set" where
  "tail_ids e c wal = {i. \<exists>n w. (n, w) \<in> set wal \<and> c < n \<and> decode_wal_entry (from_legacy e) w = Inr i}"

definition checkpoint_is :: "('k, 't) engines \<Rightarrow> slice \<Rightarrow> 't \<Rightarrow> nat \<Rightarrow> bool" where
  "checkpoint_is e sl t c \<longleftrightarrow> (\<exists>b. checkpoint_sources e (sl_meta sl) t = Inr (c, b))"

definition settled :: "('k, 't) engines \<Rightarrow> deps \<Rightarrow> slice \<Rightarrow> 't \<Rightarrow> nat \<Rightarrow> bool" where
  "settled e d sl t c \<longleftrightarrow>
     (\<exists>fs. load_fields (tv_columns e t) = Inr fs \<and>
        (\<forall>i. i \<notin> tail_ids e c (sl_wal sl) \<longrightarrow> row_indexed d fs i (om_get (sl_rows sl) i) (tv_docs e t)))"

definition slice_wf :: "slice \<Rightarrow> bool" where
  "slice_wf sl \<longleftrightarrow> om_inv (sl_rows sl) \<and> om_inv (sl_wal sl)"

definition high_water :: "slice \<Rightarrow> nat \<Rightarrow> nat" where
  "high_water sl c = max c (get_max_wal_id_for_index (sl_wal sl))"

text \<open>Consistent across a crash: \<open>V\<close> is what redb shows, \<open>D\<close> what it would show after one.\<close>

definition crash_ok :: "('k, 't) engines \<Rightarrow> deps \<Rightarrow> 't \<Rightarrow> slice \<Rightarrow> slice \<Rightarrow> bool" where
  "crash_ok e d t V D \<longleftrightarrow>
     slice_wf V \<and> slice_wf D \<and>
     (\<exists>v w. checkpoint_is e V t v \<and> checkpoint_is e D t w \<and> settled e d V t v \<and> settled e d D t w \<and>
        high_water D w \<le> high_water V v \<and> high_water V v < u64_max)"

definition live_ok :: "('k, 't) engines \<Rightarrow> deps \<Rightarrow> 't \<Rightarrow> slice \<Rightarrow> bool" where
  "live_ok e d t V \<longleftrightarrow>
     (\<exists>fs. load_fields (tv_columns e t) = Inr fs \<and>
        (\<forall>i. row_indexed d fs i (om_get (sl_rows V) i) (tv_buffered e t)))"

definition seq_ok :: "('k, 't) engines \<Rightarrow> 't \<Rightarrow> slice \<Rightarrow> nat option \<Rightarrow> bool" where
  "seq_ok e t V seq \<longleftrightarrow> (\<forall>n. seq = Some n \<longrightarrow> n < u64_max \<and> (\<forall>c. checkpoint_is e V t c \<longrightarrow> high_water V c \<le> n))"

definition index_ok ::
  "('k, 't) engines \<Rightarrow> deps \<Rightarrow> 't option \<Rightarrow> bool \<Rightarrow> nat option \<Rightarrow> slice \<Rightarrow> slice \<Rightarrow> bool" where
  "index_ok e d dir wr seq V D \<longleftrightarrow>
     (case dir of
        None \<Rightarrow> V = ([], [], None) \<and> D = ([], [], None) \<and> \<not> wr \<and> seq = None
      | Some t \<Rightarrow>
          crash_ok e d t V D \<and> seq_ok e t V seq \<and>
          (if wr then live_ok e d t V \<and> seq \<noteq> None else tv_buffered e t = tv_docs e t))"

definition disk :: "('k, 't) engines \<Rightarrow> ('k, 't) hybrid_store \<Rightarrow> tables" where
  "disk e st = kv_disk e (hs_kv st)"

abbreviation index_ok_in :: "('k, 't) engines \<Rightarrow> deps \<Rightarrow> ('k, 't) hybrid_store \<Rightarrow> string \<Rightarrow> bool" where
  "index_ok_in e d st i \<equiv>
     index_ok e d (hs_dirs st i) (hs_writers st i) (hs_seq st i) (slice_of (view e st) i) (slice_of (disk e st) i)"

definition durable_ok :: "('k, 't) engines \<Rightarrow> config \<Rightarrow> ('k, 't) hybrid_store \<Rightarrow> bool" where
  "durable_ok e cfg st \<longleftrightarrow> (cf_wal_sync cfg \<longrightarrow> disk e st = view e st)"

definition store_ok :: "('k, 't) engines \<Rightarrow> config \<Rightarrow> deps \<Rightarrow> ('k, 't) hybrid_store \<Rightarrow> bool" where
  "store_ok e cfg d st \<longleftrightarrow> durable_ok e cfg st \<and> (\<forall>i. index_ok_in e d st i)"

lemma checkpoint_unique: "checkpoint_is e sl t c \<Longrightarrow> checkpoint_is e sl t c' \<Longrightarrow> c = c'"
  by (auto simp: checkpoint_is_def)

lemma crash_ok_same: "crash_ok e d t V D \<Longrightarrow> crash_ok e d t V V"
  by (auto simp: crash_ok_def)

lemma sources_same: "same_committed e t t' \<Longrightarrow> checkpoint_sources e m t' = checkpoint_sources e m t"
proof -
  assume "same_committed e t t'"
  then have eqs: "tv_columns e t' = tv_columns e t" "tv_payload e t' = tv_payload e t"
      "tv_top_by_seq e t' = tv_top_by_seq e t"
    by (simp_all add: same_committed_def)
  show ?thesis
    unfolding checkpoint_sources_def get_highest_indexed_seq_def tantivy_checkpoint_seq_def eqs ..
qed

lemma crash_ok_committed: "same_committed e t t' \<Longrightarrow> crash_ok e d t' V D = crash_ok e d t V D"
  unfolding crash_ok_def checkpoint_is_def settled_def by (simp add: sources_same) (simp add: same_committed_def)

lemma seq_ok_committed: "same_committed e t t' \<Longrightarrow> seq_ok e t' V seq = seq_ok e t V seq"
  by (simp add: seq_ok_def checkpoint_is_def sources_same)

lemma index_ok_disk: "index_ok e d dir wr seq V D \<Longrightarrow> index_ok e d dir wr seq V V"
  by (auto simp: index_ok_def crash_ok_same split: option.splits)

text \<open>
  The frame of an operation on other indexes: an index it does not name keeps its directory, its writer,
  its counter and its tables; the tables on disk are at most brought up to the tables shown.
\<close>

definition framed :: "('k, 't) engines \<Rightarrow> string \<Rightarrow> ('k, 't) hybrid_store \<Rightarrow> ('k, 't) hybrid_store \<Rightarrow> bool" where
  "framed e i st st' \<longleftrightarrow>
     hs_dirs st' i = hs_dirs st i \<and> hs_writers st' i = hs_writers st i \<and> hs_seq st' i = hs_seq st i \<and>
     slice_of (view e st') i = slice_of (view e st) i \<and>
     (slice_of (disk e st') i = slice_of (disk e st) i \<or> slice_of (disk e st') i = slice_of (view e st) i)"

lemma framed_refl [simp]: "framed e i st st"
  by (simp add: framed_def)

lemma framed_trans: "framed e i st st' \<Longrightarrow> framed e i st' st'' \<Longrightarrow> framed e i st st''"
  by (auto simp: framed_def)

lemma framed_index_ok: "framed e i st st' \<Longrightarrow> index_ok_in e d st i \<Longrightarrow> index_ok_in e d st' i"
  by (auto simp: framed_def dest: index_ok_disk)

end
