(* ===== verification/Store_Recovery.thy ===== *)
theory Store_Recovery
  imports Store_Inv
begin

text \<open>
  Recovery brings Tantivy to what redb shows: the replay of a log tail, the mid-replay commits, the
  checkpoint and its truncation, each proved to keep an index consistent across a crash.
\<close>

section \<open>Transactions\<close>

lemma barrier_view [simp]: "engines_ok e \<Longrightarrow> kv_view e (barrier_kv e cfg k) = kv_view e k"
  by (simp add: barrier_kv_def kv_laws)

lemma barrier_disk:
  "engines_ok e \<Longrightarrow> kv_disk e (barrier_kv e cfg k) = (if cf_wal_sync cfg then kv_disk e k else kv_view e k)"
  by (simp add: barrier_kv_def kv_laws)

lemma commit_txn_sel [simp]:
  "hs_dirs (commit_txn e b f st) = hs_dirs st" "hs_writers (commit_txn e b f st) = hs_writers st"
  "hs_seq (commit_txn e b f st) = hs_seq st" "hs_ops (commit_txn e b f st) = hs_ops st"
  "hs_schemas (commit_txn e b f st) = hs_schemas st"
  by (simp_all add: commit_txn_def)

lemma commit_txn_view [simp]: "engines_ok e \<Longrightarrow> view e (commit_txn e b f st) = f (view e st)"
  by (simp add: commit_txn_def view_def kv_laws)

lemma commit_txn_disk:
  "engines_ok e \<Longrightarrow> disk e (commit_txn e b f st) = (if b then f (view e st) else disk e st)"
  by (cases b) (simp_all add: commit_txn_def view_def disk_def kv_laws)

lemma commit_txn_durable:
  "engines_ok e \<Longrightarrow> durable_ok e cfg st \<Longrightarrow> (cf_wal_sync cfg \<Longrightarrow> b) \<Longrightarrow> durable_ok e cfg (commit_txn e b f st)"
  by (auto simp: durable_ok_def commit_txn_disk)

lemma commit_txn_framed:
  assumes "engines_ok e" "slice_of (f (view e st)) i = slice_of (view e st) i"
  shows "framed e i st (commit_txn e b f st)"
  using assms by (simp add: framed_def commit_txn_disk)

section \<open>The replay loop\<close>

lemma replay_id_ok:
  assumes "engines_ok e" "fields_apart fs" "replay_id e d fs s rows seq i t = Inr t'"
  shows "same_committed e t t'" "row_indexed d fs i (om_get rows i) (tv_buffered e t')"
    "j \<noteq> i \<Longrightarrow> row_indexed d fs j row (tv_buffered e t) \<Longrightarrow> row_indexed d fs j row (tv_buffered e t')"
proof -
  let ?t1 = "tv_delete_term e (sf_id fs) i t"
  note del = tv_delete_laws [OF assms(1)]
  have "same_committed e t t' \<and> row_indexed d fs i (om_get rows i) (tv_buffered e t') \<and>
    (\<forall>j row. j \<noteq> i \<longrightarrow> row_indexed d fs j row (tv_buffered e t) \<longrightarrow> row_indexed d fs j row (tv_buffered e t'))"
  proof (cases "om_get rows i")
    case None
    with assms(3) have "t' = ?t1" by (simp add: replay_id_def)
    with None assms(2) show ?thesis
      by (auto simp: row_indexed_def [of d fs i] del docs_of_delete_self
          intro: same_committed_intros [OF assms(1)] row_indexed_delete_other)
  next
    case (Some body)
    with assms(3) obtain doc where doc: "document d fs s i seq body SkipAndWarn = Inr doc"
        and add: "tv_add_document e doc ?t1 = Some t'"
      by (auto simp: replay_id_def and_then_Ok_iff split: option.splits)
    note al = tv_add_laws [OF assms(1) add]
    have "same_committed e t t'"
      using same_committed_intros(1) [OF assms(1)] same_committed_intros(3) [OF assms(1) add]
      by (rule same_committed_trans)
    moreover have "row_indexed d fs i (Some body) (tv_buffered e t')"
      unfolding al del by (rule row_indexed_add_self [OF docs_of_delete_self assms(2) doc])
    moreover have "row_indexed d fs j row (tv_buffered e t')" if "j \<noteq> i" "row_indexed d fs j row (tv_buffered e t)" for j row
      unfolding al del
      by (rule row_indexed_add_other [OF row_indexed_delete_other [OF that(2,1) assms(2)] that(1) assms(2) doc])
    ultimately show ?thesis using Some by simp
  qed
  then show "same_committed e t t'" "row_indexed d fs i (om_get rows i) (tv_buffered e t')"
    "j \<noteq> i \<Longrightarrow> row_indexed d fs j row (tv_buffered e t) \<Longrightarrow> row_indexed d fs j row (tv_buffered e t')"
    by blast+
qed

definition entry_ids :: "('k, 't) engines \<Rightarrow> (nat \<times> bytes) list \<Rightarrow> string set" where
  "entry_ids e es = {i. \<exists>n w. (n, w) \<in> set es \<and> decode_wal_entry (from_legacy e) w = Inr i}"

text \<open>What a commit in the middle of a replay left: everything up to its sequence is in it.\<close>

definition committed_at ::
  "('k, 't) engines \<Rightarrow> deps \<Rightarrow> schema_fields \<Rightarrow> (string, json option) omap \<Rightarrow> (nat \<times> bytes) list \<Rightarrow> 't \<Rightarrow> nat \<Rightarrow> bool" where
  "committed_at e d fs rows es t seq \<longleftrightarrow>
     tv_payload e t = Some (encode_checkpoint_payload seq) \<and> seq \<in> fst ` set es \<and>
     (\<forall>j. j \<notin> tail_ids e seq es \<longrightarrow> row_indexed d fs j (om_get rows j) (tv_docs e t))"

definition replayed_upto ::
  "('k, 't) engines \<Rightarrow> deps \<Rightarrow> schema_fields \<Rightarrow> (string, json option) omap \<Rightarrow> (nat \<times> bytes) list \<Rightarrow> string list \<Rightarrow> 't \<Rightarrow> bool" where
  "replayed_upto e d fs rows es applied t \<longleftrightarrow>
     (\<forall>j. j \<in> set applied \<or> j \<notin> entry_ids e es \<longrightarrow> row_indexed d fs j (om_get rows j) (tv_buffered e t))"

definition replay_result ::
  "('k, 't) engines \<Rightarrow> config \<Rightarrow> deps \<Rightarrow> schema_fields \<Rightarrow> (string, json option) omap \<Rightarrow> (nat \<times> bytes) list \<Rightarrow>
   'k \<Rightarrow> 't \<Rightarrow> 'k \<Rightarrow> 't \<Rightarrow> bool" where
  "replay_result e cfg d fs rows es k t k' t' \<longleftrightarrow>
     kv_view e k' = kv_view e k \<and> (kv_disk e k' = kv_disk e k \<or> kv_disk e k' = kv_view e k) \<and>
     tv_columns e t' = tv_columns e t \<and>
     (same_committed e t t' \<or>
      (cf_wal_sync cfg \<or> kv_disk e k' = kv_view e k) \<and> (\<exists>seq. committed_at e d fs rows es t' seq))"

lemma committed_at_Cons:
  assumes "committed_at e d fs rows es t seq" "\<forall>x \<in> set es. n < fst x"
  shows "committed_at e d fs rows ((n, w) # es) t seq"
proof -
  from assms have "n < seq" by (auto simp: committed_at_def)
  then have "tail_ids e seq ((n, w) # es) = tail_ids e seq es" by (auto simp: tail_ids_def)
  with assms(1) show ?thesis by (auto simp: committed_at_def)
qed

lemma committed_at_same:
  "same_committed e t t' \<Longrightarrow> committed_at e d fs rows es t seq \<Longrightarrow> committed_at e d fs rows es t' seq"
  by (simp add: committed_at_def same_committed_def)

lemma replay_result_Cons:
  assumes "replay_result e cfg d fs rows es k t k' t'" "\<forall>x \<in> set es. n < fst x"
  shows "replay_result e cfg d fs rows ((n, w) # es) k t k' t'"
proof -
  have "committed_at e d fs rows ((n, w) # es) t' seq" if "committed_at e d fs rows es t' seq" for seq
    using committed_at_Cons [OF that assms(2)] .
  with assms(1) show ?thesis unfolding replay_result_def by metis
qed

lemma replay_result_step:
  assumes "same_committed e t t1" "replay_result e cfg d fs rows es k t1 k' t'"
  shows "replay_result e cfg d fs rows es k t k' t'"
proof -
  have "tv_columns e t1 = tv_columns e t" using assms(1) by (simp add: same_committed_def)
  with assms(2) same_committed_trans [OF assms(1)] show ?thesis unfolding replay_result_def by metis
qed

lemma replay_result_commit:
  assumes "engines_ok e" "tv_commit e (Some (encode_checkpoint_payload n)) t1 = Some t2" "same_committed e t t1"
    and rest: "\<forall>x \<in> set es. n < fst x"
    and all: "\<And>j. j \<notin> entry_ids e es \<Longrightarrow> row_indexed d fs j (om_get rows j) (tv_buffered e t1)"
    and "replay_result e cfg d fs rows es (barrier_kv e cfg k) t2 k' t'"
  shows "replay_result e cfg d fs rows ((n, w) # es) k t k' t'"
proof -
  note c = tv_commit_laws [OF assms(1,2)]
  have "tail_ids e n ((n, w) # es) = entry_ids e es"
    using rest by (force simp: tail_ids_def entry_ids_def)
  with all c have at: "committed_at e d fs rows ((n, w) # es) t2 n" by (auto simp: committed_at_def)
  from assms(6) have r: "kv_view e k' = kv_view e k"
      "kv_disk e k' = kv_disk e (barrier_kv e cfg k) \<or> kv_disk e k' = kv_view e k"
      "tv_columns e t' = tv_columns e t2" "same_committed e t2 t' \<or> (\<exists>seq. committed_at e d fs rows es t' seq)"
    using barrier_view [OF assms(1)] unfolding replay_result_def by auto
  have "\<exists>seq. committed_at e d fs rows ((n, w) # es) t' seq"
    using r(4) committed_at_same [OF _ at] committed_at_Cons [OF _ rest] by metis
  moreover have "tv_columns e t' = tv_columns e t"
    using r(3) c(1) assms(3) by (simp add: same_committed_def)
  moreover have "(kv_disk e k' = kv_disk e k \<or> kv_disk e k' = kv_view e k) \<and> (cf_wal_sync cfg \<or> kv_disk e k' = kv_view e k)"
    using r(2) by (auto simp: barrier_disk [OF assms(1)] split: if_splits)
  ultimately show ?thesis using r(1) unfolding replay_result_def by blast
qed

lemma replayed_uptoD:
  "replayed_upto e d fs rows es applied t \<Longrightarrow> j \<in> set applied \<or> j \<notin> entry_ids e es \<Longrightarrow>
   row_indexed d fs j (om_get rows j) (tv_buffered e t)"
  unfolding replayed_upto_def by (drule spec, erule mp)

lemma replayed_uptoI:
  "(\<And>j. j \<in> set applied \<or> j \<notin> entry_ids e es \<Longrightarrow> row_indexed d fs j (om_get rows j) (tv_buffered e t)) \<Longrightarrow>
   replayed_upto e d fs rows es applied t"
  unfolding replayed_upto_def by (intro allI impI)

lemma entry_ids_Cons:
  "decode_wal_entry (from_legacy e) w = Inr i \<Longrightarrow> entry_ids e ((n, w) # es) = insert i (entry_ids e es)"
  by (auto simp: entry_ids_def)

lemma replayed_upto_skip:
  assumes "replayed_upto e d fs rows ((n, w) # es) applied t" "decode_wal_entry (from_legacy e) w = Inr i"
    "i \<in> set applied"
  shows "replayed_upto e d fs rows es applied t"
proof (rule replayed_uptoI)
  fix j assume "j \<in> set applied \<or> j \<notin> entry_ids e es"
  with assms(3) have "j \<in> set applied \<or> j \<notin> entry_ids e ((n, w) # es)"
    by (auto simp: entry_ids_Cons [OF assms(2)])
  then show "row_indexed d fs j (om_get rows j) (tv_buffered e t)" by (rule replayed_uptoD [OF assms(1)])
qed

lemma replayed_upto_apply:
  assumes "engines_ok e" "fields_apart fs" "replayed_upto e d fs rows ((n, w) # es) applied t"
    "decode_wal_entry (from_legacy e) w = Inr i" "replay_id e d fs s rows n i t = Inr t'"
  shows "replayed_upto e d fs rows es (i # applied) t'"
proof (rule replayed_uptoI)
  fix j assume j: "j \<in> set (i # applied) \<or> j \<notin> entry_ids e es"
  show "row_indexed d fs j (om_get rows j) (tv_buffered e t')"
  proof (cases "j = i")
    case True
    with replay_id_ok(2) [OF assms(1,2,5)] show ?thesis by simp
  next
    case False
    with j have "j \<in> set applied \<or> j \<notin> entry_ids e ((n, w) # es)" by (auto simp: entry_ids_Cons [OF assms(4)])
    then show ?thesis by (rule replay_id_ok(3) [OF assms(1,2,5) False replayed_uptoD [OF assms(3)]])
  qed
qed

lemma replay_correct:
  assumes "engines_ok e" "fields_apart fs" "sorted_wrt (<) (map fst es)"
    "replayed_upto e d fs rows es applied t"
    "replay e cfg d fs s rows es applied n since k t = (k', t', r)"
  shows "replay_result e cfg d fs rows es k t k' t' \<and>
    ((\<exists>x. r = Inr x) \<longrightarrow> (\<forall>j. row_indexed d fs j (om_get rows j) (tv_buffered e t')))"
  using assms(3-5)
proof (induction es arbitrary: applied n since k t)
  case Nil
  then show ?case by (auto simp: replay_result_def replayed_upto_def entry_ids_def)
next
  case (Cons x es)
  obtain m w where x: "x = (m, w)" by (cases x)
  have lt: "\<forall>y \<in> set es. m < fst y" and sorted: "sorted_wrt (<) (map fst es)"
    using Cons.prems(1) by (auto simp: x)
  note IH = Cons.IH [OF sorted]
  have cons: "replay_result e cfg d fs rows es k t k' t' \<Longrightarrow> replay_result e cfg d fs rows (x # es) k t k' t'" for t
    unfolding x by (rule replay_result_Cons [OF _ lt])
  show ?case
  proof (cases "decode_wal_entry (from_legacy e) w")
    case (Inl err)
    with Cons.prems(3) x show ?thesis by (auto simp: replay_result_def)
  next
    case (Inr i)
    note dec = Inr
    show ?thesis
    proof (cases "i \<in> set applied")
      case True
      with Cons.prems(3) x dec have run: "replay e cfg d fs s rows es applied (Suc n) (Suc since) k t = (k', t', r)"
        by simp
      have "replayed_upto e d fs rows es applied t"
        using replayed_upto_skip [OF Cons.prems(2) [unfolded x] dec True] .
      from IH [OF this run] show ?thesis using cons by simp
    next
      case False
      show ?thesis
      proof (cases "replay_id e d fs s rows m i t")
        case (Inl err)
        with Cons.prems(3) x dec False show ?thesis by (auto simp: replay_result_def)
      next
        case (Inr t1)
        note same = replay_id_ok(1) [OF assms(1,2) Inr]
        have upto: "replayed_upto e d fs rows es (i # applied) t1"
          by (rule replayed_upto_apply [OF assms(1,2) Cons.prems(2) [unfolded x] dec Inr])
        show ?thesis
        proof (cases "recovery_commit_threshold cfg \<le> Suc since")
          case no: False
          with Cons.prems(3) x dec False Inr
          have "replay e cfg d fs s rows es (i # applied) (Suc n) (Suc since) k t1 = (k', t', r)" by simp
          from IH [OF upto this] show ?thesis using cons [OF replay_result_step [OF same]] by simp
        next
          case yes: True
          show ?thesis
          proof (cases "tv_commit e (Some (encode_checkpoint_payload m)) t1")
            case None
            with Cons.prems(3) x dec False Inr yes have "k' = barrier_kv e cfg k" "t' = t1" "\<exists>err. r = Inl err" by auto
            with same assms(1) show ?thesis
              by (auto simp: replay_result_def barrier_disk same_committed_def)
          next
            case (Some t2)
            with Cons.prems(3) x dec False Inr yes
            have run: "replay e cfg d fs s rows es (i # applied) (Suc n) 0 (barrier_kv e cfg k) t2 = (k', t', r)" by simp
            have "replayed_upto e d fs rows es (i # applied) t2"
              using upto unfolding replayed_upto_def tv_commit_laws [OF assms(1) Some] .
            from IH [OF this run] have res: "replay_result e cfg d fs rows es (barrier_kv e cfg k) t2 k' t'"
              and fin: "(\<exists>x. r = Inr x) \<longrightarrow> (\<forall>j. row_indexed d fs j (om_get rows j) (tv_buffered e t'))"
              by blast+
            have "replay_result e cfg d fs rows ((m, w) # es) k t k' t'"
              by (rule replay_result_commit [OF assms(1) Some same lt _ res])
                 (rule replayed_uptoD [OF upto], blast)
            with fin x show ?thesis by blast
          qed
        qed
      qed
    qed
  qed
qed

section \<open>The log and the checkpoint\<close>

lemma max_wal_snoc [simp]: "get_max_wal_id_for_index (ys @ [z]) = fst z"
  by (cases ys) (simp_all add: get_max_wal_id_for_index_def)

lemma max_wal_ge: "om_inv wal \<Longrightarrow> (n, w) \<in> set wal \<Longrightarrow> n \<le> get_max_wal_id_for_index wal"
proof (cases wal rule: rev_cases)
  case (snoc ys z)
  assume "om_inv wal" "(n, w) \<in> set wal"
  then show ?thesis by (force simp: snoc om_inv_def sorted_wrt_append)
qed simp

lemma max_wal_in: "wal \<noteq> [] \<Longrightarrow> \<exists>w. (get_max_wal_id_for_index wal, w) \<in> set wal"
  by (cases wal rule: rev_cases) (auto intro: exI [of _ "snd (last wal)"])

lemma max_wal_retain:
  assumes "om_inv wal"
  shows "get_max_wal_id_for_index (om_retain p wal) \<le> get_max_wal_id_for_index wal"
proof (cases "om_retain p wal = []")
  case True
  then show ?thesis by (simp add: get_max_wal_id_for_index_def)
next
  case False
  from max_wal_in [OF this] obtain w where "(get_max_wal_id_for_index (om_retain p wal), w) \<in> set wal"
    by (auto simp: om_retain_def)
  with assms show ?thesis by (rule max_wal_ge)
qed

lemma tail_ids_retain: "tail_ids e c (om_retain (\<lambda>n _. \<not> n \<le> c) wal) = tail_ids e c wal"
  by (auto simp: tail_ids_def om_retain_def not_le)

lemma checkpoint_meta_le: "checkpoint_is e V t c \<Longrightarrow> sl_meta V = Some m \<Longrightarrow> m \<le> c"
  by (auto simp: checkpoint_is_def checkpoint_sources_def split: option.splits)

lemma checkpoint_recorded: "checkpoint_is e V t c \<Longrightarrow> checkpoint_is e (r, w, Some c) t c"
  by (auto simp: checkpoint_is_def checkpoint_sources_def split: option.splits)

lemma checkpoint_stamped:
  assumes "tv_payload e t = Some (encode_checkpoint_payload n)" "n \<le> u64_max" "\<And>m. sl_meta V = Some m \<Longrightarrow> m \<le> n"
  shows "checkpoint_is e V t n"
  using assms by (auto simp: checkpoint_is_def checkpoint_sources_def tantivy_checkpoint_seq_def
      decode_encode_payload max_def split: option.splits)

text \<open>Recording the checkpoint, and dropping log entries it covers, loses nothing.\<close>

lemma crash_ok_recorded:
  assumes "crash_ok e d t V D" "checkpoint_is e V t c" "om_inv wal" "tail_ids e c wal = tail_ids e c (sl_wal V)"
    "get_max_wal_id_for_index wal \<le> get_max_wal_id_for_index (sl_wal V)"
  shows "crash_ok e d t (sl_rows V, wal, Some c) (sl_rows V, wal, Some c)"
proof -
  let ?W = "(sl_rows V, wal, Some c)"
  from assms(1,2) have V: "slice_wf V" "settled e d V t c" "high_water V c < u64_max"
    by (auto simp: crash_ok_def dest: checkpoint_unique)
  have "checkpoint_is e ?W t c" by (rule checkpoint_recorded [OF assms(2)])
  moreover have "settled e d ?W t c" using V(2) assms(4) by (simp add: settled_def)
  moreover have "high_water ?W c < u64_max" using V(3) assms(5) by (simp add: high_water_def)
  moreover have "slice_wf ?W" using V(1) assms(3) by (simp add: slice_wf_def)
  ultimately show ?thesis unfolding crash_ok_def by blast
qed

lemma seq_ok_recorded:
  assumes "seq_ok e t V seq" "checkpoint_is e V t c"
    "get_max_wal_id_for_index wal \<le> get_max_wal_id_for_index (sl_wal V)"
  shows "seq_ok e t (r, wal, Some c) seq"
proof -
  have "checkpoint_is e (r, wal, Some c) t c" by (rule checkpoint_recorded [OF assms(2)])
  moreover have "high_water (r, wal, Some c) c \<le> high_water V c" using assms(3) by (simp add: high_water_def)
  ultimately show ?thesis
    using assms(1,2) unfolding seq_ok_def by (metis checkpoint_unique le_trans)
qed

lemma live_ok_rows: "sl_rows V = sl_rows W \<Longrightarrow> live_ok e d t V = live_ok e d t W"
  by (simp add: live_ok_def)

lemma settled_live:
  assumes "settled e d V t c" "slice_wf V" "get_max_wal_id_for_index (sl_wal V) \<le> c" "tv_buffered e t = tv_docs e t"
  shows "live_ok e d t V"
proof -
  have "tail_ids e c (sl_wal V) = {}"
    using max_wal_ge [of "sl_wal V"] assms(2,3) by (fastforce simp: tail_ids_def slice_wf_def)
  with assms(1,4) show ?thesis by (auto simp: settled_def live_ok_def)
qed

text \<open>A commit of a writer whose buffer agrees with redb, stamped with the sequence counter.\<close>

lemma crash_ok_commit:
  assumes "engines_ok e" "crash_ok e d t V D" "live_ok e d t V" "seq_ok e t V (Some n)"
    "tv_commit e (Some (encode_checkpoint_payload n)) t = Some t'"
  shows "crash_ok e d t' V V" "live_ok e d t' V" "seq_ok e t' V (Some n)" "checkpoint_is e V t' n"
    "tv_buffered e t' = tv_docs e t'"
proof -
  note c = tv_commit_laws [OF assms(1,5)]
  from assms(2,4) obtain v where v: "checkpoint_is e V t v" "high_water V v \<le> n" "n < u64_max" "slice_wf V"
    by (auto simp: crash_ok_def seq_ok_def)
  show ck: "checkpoint_is e V t' n"
    by (rule checkpoint_stamped [OF c(4)]) (use v checkpoint_meta_le [OF v(1)] in \<open>auto simp: high_water_def\<close>)
  have hw: "high_water V n = n" using v(2) by (simp add: high_water_def)
  show "live_ok e d t' V" using assms(3) unfolding live_ok_def c .
  have "settled e d V t' n" using assms(3) unfolding live_ok_def settled_def c by blast
  with ck hw v(3,4) show "crash_ok e d t' V V" unfolding crash_ok_def by fastforce
  show "seq_ok e t' V (Some n)" using ck hw v(3) unfolding seq_ok_def by (metis checkpoint_unique le_refl option.inject)
  show "tv_buffered e t' = tv_docs e t'" using c by simp
qed

end
