(* ===== verification/Store_Open.thy ===== *)
theory Store_Open
  imports Store_Recovery
begin

text \<open>
  Opening, committing and closing an index keep the invariant of the store, and an opened index is live:
  its writer holds exactly what redb shows.
\<close>

section \<open>An index between operations\<close>

text \<open>An index that is consistent across a crash, whatever its writer holds.\<close>

definition intact :: "('k, 't) engines \<Rightarrow> config \<Rightarrow> deps \<Rightarrow> string \<Rightarrow> 't \<Rightarrow> ('k, 't) hybrid_store \<Rightarrow> bool" where
  "intact e cfg d i t st \<longleftrightarrow>
     durable_ok e cfg st \<and> hs_dirs st i = Some t \<and>
     crash_ok e d t (slice_of (view e st) i) (slice_of (disk e st) i) \<and> seq_ok e t (slice_of (view e st) i) (hs_seq st i)"

text \<open>Nothing but the log and the recovery row of the index changed.\<close>

definition rows_kept :: "('k, 't) engines \<Rightarrow> string \<Rightarrow> ('k, 't) hybrid_store \<Rightarrow> ('k, 't) hybrid_store \<Rightarrow> bool" where
  "rows_kept e i st st' \<longleftrightarrow>
     hs_writers st' = hs_writers st \<and> hs_seq st' = hs_seq st \<and> hs_open st' = hs_open st \<and>
     tb_data (view e st') i = tb_data (view e st) i \<and> (\<forall>j. j \<noteq> i \<longrightarrow> framed e j st st')"

lemma rows_kept_refl [simp]: "rows_kept e i st st"
  by (simp add: rows_kept_def)

lemma rows_kept_trans: "rows_kept e i st st' \<Longrightarrow> rows_kept e i st' st'' \<Longrightarrow> rows_kept e i st st''"
  unfolding rows_kept_def by (metis framed_trans)

lemma checkpoint_txn:
  assumes "engines_ok e" "intact e cfg d i t st" "checkpoint_is e (slice_of (view e st) i) t c"
    and f: "slice_of (f (view e st)) i = (tb_data (view e st) i, wal, Some c)"
      "\<And>j. j \<noteq> i \<Longrightarrow> slice_of (f (view e st)) j = slice_of (view e st) j"
    and wal: "om_inv wal" "tail_ids e c wal = tail_ids e c (tb_wal (view e st) i)"
      "get_max_wal_id_for_index wal \<le> get_max_wal_id_for_index (tb_wal (view e st) i)"
  shows "intact e cfg d i t (commit_txn e True f st) \<and> rows_kept e i st (commit_txn e True f st)"
proof -
  let ?st = "commit_txn e True f st" and ?V = "slice_of (view e st) i"
  from assms(2) have *: "crash_ok e d t ?V (slice_of (disk e st) i)" "seq_ok e t ?V (hs_seq st i)"
      "durable_ok e cfg st" "hs_dirs st i = Some t"
    by (simp_all add: intact_def)
  have "crash_ok e d t (slice_of (view e ?st) i) (slice_of (disk e ?st) i)"
    using crash_ok_recorded [OF *(1) assms(3), of wal] wal f(1) assms(1) by (simp add: commit_txn_disk)
  moreover have "seq_ok e t (slice_of (view e ?st) i) (hs_seq ?st i)"
    using seq_ok_recorded [OF *(2) assms(3), of wal] wal f(1) assms(1) by simp
  moreover have "durable_ok e cfg ?st" by (rule commit_txn_durable [OF assms(1) *(3)]) simp
  moreover have "framed e j st ?st" if "j \<noteq> i" for j
    by (rule commit_txn_framed [where f = f, OF assms(1) f(2) [OF that]])
  moreover have "tb_data (view e ?st) i = tb_data (view e st) i"
    using f(1) assms(1) by (simp add: slice_of_def)
  ultimately show ?thesis using *(4) by (simp add: intact_def rows_kept_def)
qed

lemma checkpoint_committed_ok:
  assumes "engines_ok e" "intact e cfg d i t st" "checkpoint_is e (slice_of (view e st) i) t c"
  shows "intact e cfg d i t (checkpoint_committed e i c st) \<and> rows_kept e i st (checkpoint_committed e i c st)"
proof (cases "c = 0")
  case True
  with assms show ?thesis by (simp add: checkpoint_committed_def)
next
  case False
  let ?wal = "tb_wal (view e st) i"
  from assms(2) have inv: "om_inv ?wal" by (auto simp: intact_def crash_ok_def slice_wf_def)
  have "intact e cfg d i t (commit_txn e True (truncate_wal i c) st) \<and>
      rows_kept e i st (commit_txn e True (truncate_wal i c) st)"
    by (rule checkpoint_txn [OF assms, where wal = "om_retain (\<lambda>n _. \<not> n \<le> c) ?wal"])
       (simp_all add: truncate_wal_def slice_of_def inv tail_ids_retain max_wal_retain)
  with False show ?thesis by (simp add: checkpoint_committed_def)
qed

lemma checkpoint_seq_ok:
  assumes "engines_ok e" "intact e cfg d i t st" "checkpoint_seq e i t st = (st', r)"
  shows "intact e cfg d i t st' \<and> rows_kept e i st st' \<and> tb_wal (view e st') i = tb_wal (view e st) i \<and>
    (\<forall>c. r = Inr c \<longrightarrow> checkpoint_is e (slice_of (view e st') i) t c)"
proof (cases "checkpoint_sources e (tb_meta (view e st) i) t")
  case (Inl x)
  with assms(2,3) show ?thesis by (auto simp: checkpoint_seq_def)
next
  case (Inr cb)
  obtain c b where cb: "cb = (c, b)" by (cases cb)
  from Inr have ck: "checkpoint_is e (slice_of (view e st) i) t c" by (auto simp: checkpoint_is_def cb)
  show ?thesis
  proof (cases b)
    case False
    with assms(2,3) Inr ck show ?thesis by (auto simp: checkpoint_seq_def cb)
  next
    case True
    let ?f = "\<lambda>T. T\<lparr>tb_meta := (tb_meta T)(i := Some c)\<rparr>"
    from assms(2) have inv: "om_inv (tb_wal (view e st) i)" by (auto simp: intact_def crash_ok_def slice_wf_def)
    have "intact e cfg d i t (commit_txn e True ?f st) \<and> rows_kept e i st (commit_txn e True ?f st)"
      by (rule checkpoint_txn [OF assms(1,2) ck, where wal = "tb_wal (view e st) i"]) (simp_all add: slice_of_def inv)
    moreover from assms(3) Inr True have "st' = commit_txn e True ?f st" "r = Inr c"
      by (simp_all add: checkpoint_seq_def cb persist_committed_seq_def)
    moreover have "checkpoint_is e (slice_of (view e (commit_txn e True ?f st)) i) t c"
      using checkpoint_recorded [OF ck] assms(1) by (simp add: slice_of_def)
    ultimately show ?thesis using assms(1) by simp
  qed
qed

section \<open>Schemas leave the index alone\<close>

lemma get_schema_cached_frame:
  assumes "get_schema_cached e cfg i st = (st', r)"
  shows "st' = st\<lparr>hs_schemas := hs_schemas st'\<rparr>"
  using assms
  by (auto simp: get_schema_cached_def cache_loaded_schema_def split: option.splits sum.splits prod.splits)

lemma schemas_irrelevant [simp]:
  "view e (st\<lparr>hs_schemas := x\<rparr>) = view e st" "disk e (st\<lparr>hs_schemas := x\<rparr>) = disk e st"
  "view e (st\<lparr>hs_ops := y\<rparr>) = view e st" "disk e (st\<lparr>hs_ops := y\<rparr>) = disk e st"
  "view e (st\<lparr>hs_seq := z\<rparr>) = view e st" "disk e (st\<lparr>hs_seq := z\<rparr>) = disk e st"
  "view e (st\<lparr>hs_writers := w\<rparr>) = view e st" "disk e (st\<lparr>hs_writers := w\<rparr>) = disk e st"
  "view e (st\<lparr>hs_open := o1\<rparr>) = view e st" "disk e (st\<lparr>hs_open := o1\<rparr>) = disk e st"
  "view e (st\<lparr>hs_tick := u\<rparr>) = view e st" "disk e (st\<lparr>hs_tick := u\<rparr>) = disk e st"
  "view e (st\<lparr>hs_dirs := q\<rparr>) = view e st" "disk e (st\<lparr>hs_dirs := q\<rparr>) = disk e st"
  by (simp_all add: view_def disk_def)

lemma intact_schemas [simp]:
  "intact e cfg d i t (st\<lparr>hs_schemas := x\<rparr>) = intact e cfg d i t st"
  "intact e cfg d i t (st\<lparr>hs_ops := y\<rparr>) = intact e cfg d i t st"
  by (simp_all add: intact_def durable_ok_def)

lemma get_schema_cached_ok:
  assumes "get_schema_cached e cfg j st = (st', r)"
  shows "intact e cfg d i t st' = intact e cfg d i t st" "rows_kept e i st st'" "view e st' = view e st"
    "disk e st' = disk e st" "hs_dirs st' = hs_dirs st" "hs_kv st' = hs_kv st" "framed e i st st'"
proof -
  note eq = get_schema_cached_frame [OF assms]
  show "intact e cfg d i t st' = intact e cfg d i t st" by (subst eq) simp
  show "rows_kept e i st st'" by (subst eq) (simp add: rows_kept_def framed_def)
  show "view e st' = view e st" "disk e st' = disk e st" by (subst eq, simp)+
  show "hs_dirs st' = hs_dirs st" "hs_kv st' = hs_kv st" by (subst eq, simp)+
  show "framed e i st st'" by (subst eq) (simp add: framed_def)
qed

section \<open>Recovery of an index\<close>

lemma wal_range_tail:
  assumes "om_inv wal"
  shows "entry_ids e (wal_range (c + 1) (get_max_wal_id_for_index wal) wal) = tail_ids e c wal"
    "c \<le> seq \<Longrightarrow> tail_ids e seq (wal_range (c + 1) (get_max_wal_id_for_index wal) wal) = tail_ids e seq wal"
    "sorted_wrt (<) (map fst (wal_range (c + 1) (get_max_wal_id_for_index wal) wal))"
proof -
  have in_range: "(n, w) \<in> set (wal_range (c + 1) (get_max_wal_id_for_index wal) wal) \<longleftrightarrow> (n, w) \<in> set wal \<and> c < n" for n w
    using max_wal_ge [OF assms] by (auto simp: wal_range_def)
  show "entry_ids e (wal_range (c + 1) (get_max_wal_id_for_index wal) wal) = tail_ids e c wal"
    unfolding entry_ids_def tail_ids_def in_range by (rule refl | simp only: conj_assoc)
  show "tail_ids e seq (wal_range (c + 1) (get_max_wal_id_for_index wal) wal) = tail_ids e seq wal" if "c \<le> seq"
    unfolding tail_ids_def in_range using that by (auto intro: le_less_trans)
  show "sorted_wrt (<) (map fst (wal_range (c + 1) (get_max_wal_id_for_index wal) wal))"
    using om_inv_retain [OF assms, of "\<lambda>n _. c + 1 \<le> n \<and> n \<le> get_max_wal_id_for_index wal"]
    by (simp add: om_inv_def om_retain_def wal_range_def)
qed

lemma crash_ok_midreplay:
  assumes "crash_ok e d t V D" "checkpoint_is e V t c" "load_fields (tv_columns e t) = Inr fs"
    "tv_columns e t' = tv_columns e t" "c < get_max_wal_id_for_index (sl_wal V)"
    "committed_at e d fs (sl_rows V) (wal_range (c + 1) (get_max_wal_id_for_index (sl_wal V)) (sl_wal V)) t' seq"
  shows "crash_ok e d t' V V \<and> checkpoint_is e V t' seq \<and> high_water V seq = get_max_wal_id_for_index (sl_wal V)"
proof -
  let ?mx = "get_max_wal_id_for_index (sl_wal V)"
  from assms(1,2) have wf: "slice_wf V" and hw: "high_water V c < u64_max"
    by (auto simp: crash_ok_def dest: checkpoint_unique)
  then have inv: "om_inv (sl_wal V)" by (simp add: slice_wf_def)
  from assms(6) have seq: "c < seq" "seq \<le> ?mx" and pay: "tv_payload e t' = Some (encode_checkpoint_payload seq)"
    by (auto simp: committed_at_def wal_range_def)
  have mx: "?mx < u64_max" using hw by (simp add: high_water_def)
  have ck: "checkpoint_is e V t' seq"
    by (rule checkpoint_stamped [OF pay]) (use checkpoint_meta_le [OF assms(2)] seq mx in fastforce)+
  have "settled e d V t' seq"
    using assms(3,6) unfolding settled_def assms(4) committed_at_def wal_range_tail(2) [OF inv less_imp_le [OF seq(1)]]
    by blast
  with ck wf mx seq show ?thesis unfolding crash_ok_def high_water_def by fastforce
qed

lemma replay_intact:
  assumes ok: "engines_ok e" and int: "intact e cfg d i t st" and buf: "tv_buffered e t = tv_docs e t"
    and ck: "checkpoint_is e (slice_of (view e st) i) t c"
    and mx: "mx = get_max_wal_id_for_index (tb_wal (view e st) i)" "c < mx"
    and fs: "load_fields (tv_columns e t) = Inr fs"
    and run: "replay e cfg d fs s (tb_data (view e st) i) (wal_range (c + 1) mx (tb_wal (view e st) i)) [] 0 0 (hs_kv st) t
       = (k', t', r)"
    and st': "st' = set_dir i t' (st\<lparr>hs_kv := k'\<rparr>)"
  shows "intact e cfg d i t' st'" "rows_kept e i st st'" "view e st' = view e st" "tv_columns e t' = tv_columns e t"
    "r = Inr x \<Longrightarrow> live_ok e d t' (slice_of (view e st') i)"
    "checkpoint_is e (slice_of (view e st') i) t' c' \<Longrightarrow> high_water (slice_of (view e st') i) c' \<le> mx"
proof -
  let ?V = "slice_of (view e st) i" and ?D = "slice_of (disk e st) i"
  let ?es = "wal_range (c + 1) mx (tb_wal (view e st) i)"
  note apart = load_fields_apart [OF fs]
  from int have crash: "crash_ok e d t ?V ?D" and seq: "seq_ok e t ?V (hs_seq st i)"
      and dur: "durable_ok e cfg st" and dir: "hs_dirs st i = Some t"
    by (simp_all add: intact_def)
  from crash have inv: "om_inv (tb_wal (view e st) i)" by (auto simp: crash_ok_def slice_wf_def)
  have set_c: "settled e d ?V t c" using crash ck by (auto simp: crash_ok_def dest: checkpoint_unique)
  have upto: "replayed_upto e d fs (tb_data (view e st) i) ?es [] t"
  proof (rule replayed_uptoI)
    fix j assume "j \<in> set [] \<or> j \<notin> entry_ids e ?es"
    then have "j \<notin> tail_ids e c (tb_wal (view e st) i)" unfolding mx(1) wal_range_tail(1) [OF inv] by simp
    with set_c fs buf show "row_indexed d fs j (om_get (tb_data (view e st) i) j) (tv_buffered e t)"
      by (simp add: settled_def)
  qed
  from replay_correct [OF ok apart wal_range_tail(3) [OF inv, of c, folded mx(1)] upto run]
  have res: "replay_result e cfg d fs (tb_data (view e st) i) ?es (hs_kv st) t k' t'"
    and all: "(\<exists>x. r = Inr x) \<longrightarrow> (\<forall>j. row_indexed d fs j (om_get (tb_data (view e st) i) j) (tv_buffered e t'))"
    by blast+
  have cols: "tv_columns e t' = tv_columns e t" and v: "kv_view e k' = kv_view e (hs_kv st)"
    and dsk: "kv_disk e k' = kv_disk e (hs_kv st) \<or> kv_disk e k' = kv_view e (hs_kv st)"
    using res by (auto simp: replay_result_def)
  have view': "view e st' = view e st" by (simp add: st' set_dir_def view_def v)
  have disk': "disk e st' = disk e st \<or> disk e st' = view e st"
    using dsk by (simp add: st' set_dir_def view_def disk_def)
  have dur': "durable_ok e cfg st'" using dur disk' view' by (auto simp: durable_ok_def)
  have key: "crash_ok e d t' ?V (slice_of (disk e st') i) \<and>
      (\<forall>c'. checkpoint_is e ?V t' c' \<longrightarrow> high_water ?V c' \<le> mx)"
  proof (cases "same_committed e t t'")
    case True
    have "high_water ?V c' \<le> mx" if "checkpoint_is e ?V t' c'" for c'
    proof -
      have "c' = c" using that ck True by (auto simp: checkpoint_is_def sources_same)
      with mx show ?thesis by (simp add: high_water_def)
    qed
    moreover have "crash_ok e d t ?V (slice_of (disk e st') i)" using disk' crash crash_ok_same [OF crash] by auto
    ultimately show ?thesis by (simp add: crash_ok_committed [OF True])
  next
    case False
    with res obtain sq where sq: "committed_at e d fs (tb_data (view e st) i) ?es t' sq"
      and sync: "cf_wal_sync cfg \<or> kv_disk e k' = kv_view e (hs_kv st)" by (auto simp: replay_result_def)
    have "disk e st' = view e st"
      using sync disk' dur dur' view' by (auto simp: durable_ok_def st' set_dir_def disk_def view_def)
    with crash_ok_midreplay [OF crash ck fs cols, of sq] sq mx show ?thesis
      by (auto dest: checkpoint_unique)
  qed
  have seq': "seq_ok e t' ?V (hs_seq st i)"
    using seq key ck mx unfolding seq_ok_def by (fastforce simp: high_water_def)
  show "view e st' = view e st" by (rule view')
  show "tv_columns e t' = tv_columns e t" by (rule cols)
  show "intact e cfg d i t' st'"
    using key seq' dur' by (simp add: intact_def view') (simp add: st' set_dir_def)
  show "rows_kept e i st st'"
    using disk' by (auto simp: rows_kept_def framed_def view') (auto simp: st' set_dir_def)
  show "r = Inr x \<Longrightarrow> live_ok e d t' (slice_of (view e st') i)"
    using all fs by (auto simp: live_ok_def view' cols)
  show "checkpoint_is e (slice_of (view e st') i) t' c' \<Longrightarrow> high_water (slice_of (view e st') i) c' \<le> mx"
    using key by (simp add: view')
qed

text \<open>What a recovery answers: a live index, and a sequence above everything the index has used.\<close>

definition recovered ::
  "('k, 't) engines \<Rightarrow> deps \<Rightarrow> string \<Rightarrow> 't \<Rightarrow> nat \<times> nat \<times> nat \<Rightarrow> ('k, 't) hybrid_store \<Rightarrow> bool" where
  "recovered e d i t x st \<longleftrightarrow>
     (case x of (n, mw, c) \<Rightarrow>
        live_ok e d t (slice_of (view e st) i) \<and> max mw c < u64_max \<and>
        (\<forall>c'. checkpoint_is e (slice_of (view e st) i) t c' \<longrightarrow> high_water (slice_of (view e st) i) c' \<le> max mw c))"

lemma ops_irrelevant [simp]:
  "recovered e d i t x (st\<lparr>hs_ops := y\<rparr>) = recovered e d i t x st"
  "rows_kept e i st (st'\<lparr>hs_ops := y\<rparr>) = rows_kept e i st st'"
  by (simp_all add: recovered_def rows_kept_def framed_def)

lemma recovered_settled:
  assumes "intact e cfg d i t st" "checkpoint_is e (slice_of (view e st) i) t c" "tv_buffered e t = tv_docs e t"
    "get_max_wal_id_for_index (tb_wal (view e st) i) \<le> c" "mw \<le> c"
  shows "recovered e d i t (n, mw, c) st"
proof -
  let ?V = "slice_of (view e st) i"
  from assms(1,2) have V: "settled e d ?V t c" "slice_wf ?V" "high_water ?V c < u64_max"
    by (auto simp: intact_def crash_ok_def dest: checkpoint_unique)
  have "live_ok e d t ?V" by (rule settled_live [OF V(1,2)]) (simp_all add: assms(3,4))
  moreover have "high_water ?V c = c" using assms(4) by (simp add: high_water_def)
  ultimately show ?thesis
    using assms(2,5) V(3) by (auto simp: recovered_def max_absorb2 dest: checkpoint_unique)
qed

lemma recover_tail_ok:
  assumes ok: "engines_ok e" and int: "intact e cfg d i t st2" and buf: "tv_buffered e t = tv_docs e t"
    and ck: "checkpoint_is e (slice_of (view e st2) i) t c"
    and mx: "mx = get_max_wal_id_for_index (tb_wal (view e st2) i)" "c < mx"
    and fs: "load_fields (tv_columns e t) = Inr fs"
    and rp: "replay e cfg d fs s (tb_data (view e st2) i) (wal_range (c + 1) mx (tb_wal (view e st2) i)) [] 0 0 (hs_kv st2) t
      = (k', t', r3)"
    and st3: "st3 = set_dir i t' (st2\<lparr>hs_kv := k'\<rparr>)"
    and st': "(st', r) = (case r3 of Inl x \<Rightarrow> (st3, Err x)
      | Inr (n, since) \<Rightarrow> (if 0 < since then add_operations i since st3 else st3, Ok (n, mx, c)))"
  shows "intact e cfg d i t' st' \<and> tv_columns e t' = tv_columns e t \<and> rows_kept e i st2 st' \<and>
    (\<forall>x. r = Inr x \<longrightarrow> recovered e d i t' x st')"
proof -
  note ri = replay_intact [OF ok int buf ck mx fs rp st3]
  have hw: "mx < u64_max"
    using int ck mx by (auto simp: intact_def crash_ok_def high_water_def dest: checkpoint_unique)
  have rec: "recovered e d i t' (n, mx, c) st3" if "r3 = Inr y" for n y
    using ri(5) [OF that] ri(6) hw mx(2) by (auto simp: recovered_def max_absorb1)
  show ?thesis
  proof (cases r3)
    case (Inl x)
    with st' ri(1,2,4) show ?thesis by auto
  next
    case (Inr y)
    with st' ri(1,2,4) rec [OF Inr] show ?thesis
      by (cases y) (auto simp: add_operations_def)
  qed
qed

lemma recover_index_ok:
  assumes ok: "engines_ok e" and int: "intact e cfg d i t st" and buf: "tv_buffered e t = tv_docs e t"
    and run: "recover_index e cfg d i t st = (st', r)"
  shows "\<exists>t'. intact e cfg d i t' st' \<and> tv_columns e t' = tv_columns e t \<and> rows_kept e i st st' \<and>
    (\<forall>x. r = Inr x \<longrightarrow> recovered e d i t' x st')"
proof -
  let ?mx = "get_max_wal_id_for_index (tb_wal (view e st) i)"
  obtain st1 r1 where cs: "checkpoint_seq e i t st = (st1, r1)" by (cases "checkpoint_seq e i t st")
  from checkpoint_seq_ok [OF ok int cs]
  have int1: "intact e cfg d i t st1" and rk1: "rows_kept e i st st1"
    and wal1: "tb_wal (view e st1) i = tb_wal (view e st) i"
    and ck1: "\<And>c. r1 = Inr c \<Longrightarrow> checkpoint_is e (slice_of (view e st1) i) t c"
    by auto
  consider (err) x where "r1 = Inl x" | (empty) c where "r1 = Inr c" "?mx = 0"
    | (done_already) c where "r1 = Inr c" "?mx \<noteq> 0" "?mx \<le> c" | (tail) c where "r1 = Inr c" "c < ?mx"
    by (cases r1) (use leI in blast)+
  then show ?thesis
  proof cases
    case err
    with run cs int1 rk1 show ?thesis by (auto simp: recover_index_def)
  next
    case empty
    with run cs have "st' = st1" "r = Inr (0, 0, c)" by (auto simp: recover_index_def)
    with recovered_settled [OF int1 ck1 buf] empty wal1 int1 rk1 show ?thesis by auto
  next
    case done_already
    note ck = ck1 [OF done_already(1)]
    from run cs done_already have eq: "st' = checkpoint_committed e i c st1" "r = Inr (0, ?mx, c)"
      by (auto simp: recover_index_def)
    from checkpoint_committed_ok [OF ok int1 ck]
    have int2: "intact e cfg d i t st'" and rk2: "rows_kept e i st1 st'" by (simp_all add: eq)
    have v: "slice_of (view e st') i = (tb_data (view e st1) i, om_retain (\<lambda>n _. \<not> n \<le> c) (tb_wal (view e st1) i), Some c)"
      using done_already ok by (simp add: eq checkpoint_committed_def truncate_wal_def slice_of_def)
    have inv: "om_inv (tb_wal (view e st1) i)" using int1 by (auto simp: intact_def crash_ok_def slice_wf_def)
    have "tb_wal (view e st') i = om_retain (\<lambda>n _. \<not> n \<le> c) (tb_wal (view e st1) i)" using v by (simp add: slice_of_def)
    then have "get_max_wal_id_for_index (tb_wal (view e st') i) \<le> c"
      using max_wal_retain [OF inv] done_already wal1 by (metis le_trans)
    moreover have "checkpoint_is e (slice_of (view e st') i) t c" unfolding v by (rule checkpoint_recorded [OF ck])
    ultimately have "recovered e d i t (0, ?mx, c) st'" using recovered_settled [OF int2 _ buf] done_already by blast
    with int2 rows_kept_trans [OF rk1 rk2] eq(2) show ?thesis by auto
  next
    case tail
    obtain st2 r2 where gs: "get_schema_cached e cfg i st1 = (st2, r2)" by (cases "get_schema_cached e cfg i st1")
    note gsk = get_schema_cached_ok [OF gs]
    have int2: "intact e cfg d i t st2" and rk2: "rows_kept e i st st2"
      using gsk(1) int1 rows_kept_trans [OF rk1 gsk(2)] by simp_all
    consider (bad) "st' = st2" "\<exists>x. r = Inl x" | (fields) s fs where "r2 = Inr s" "load_fields (tv_columns e t) = Inr fs"
      using run cs tail gs by (cases r2; cases "load_fields (tv_columns e t)") (auto simp: recover_index_def Let_def)
    then show ?thesis
    proof cases
      case bad
      with int2 rk2 show ?thesis by auto
    next
      case fields
      let ?s = "case s of Some s \<Rightarrow> s | None \<Rightarrow> schema_default"
      obtain k' t' r3 where rp: "replay e cfg d fs ?s (tb_data (view e st2) i)
          (wal_range (c + 1) ?mx (tb_wal (view e st2) i)) [] 0 0 (hs_kv st2) t = (k', t', r3)"
        by (rule prod_cases3)
      have body: "(st', r) = (case r3 of Inl x \<Rightarrow> (set_dir i t' (st2\<lparr>hs_kv := k'\<rparr>), Err x)
          | Inr (n, since) \<Rightarrow> (if 0 < since then add_operations i since (set_dir i t' (st2\<lparr>hs_kv := k'\<rparr>))
              else set_dir i t' (st2\<lparr>hs_kv := k'\<rparr>), Ok (n, ?mx, c)))"
        using tail cs gs fields rp run by (simp add: recover_index_def Let_def)
      have mx: "?mx = get_max_wal_id_for_index (tb_wal (view e st2) i)" using gsk(3) wal1 by simp
      have ck2: "checkpoint_is e (slice_of (view e st2) i) t c" using ck1 [OF tail(1)] gsk(3) by simp
      from recover_tail_ok [OF ok int2 buf ck2 mx tail(2) fields(2) rp refl body] rows_kept_trans [OF rk2]
      show ?thesis by blast
    qed
  qed
qed

end
