(* ===== verification/Store_Keep.thy ===== *)
theory Store_Keep
  imports Store_Open
begin

text \<open>
  Every operation keeps the invariant of the store, with the indexes it does not name framed: committing,
  closing, making room for another open index, opening and creating.
\<close>

lemma index_ok_intact:
  assumes "durable_ok e cfg st" "hs_dirs st i = Some t"
  shows "index_ok_in e d st i \<longleftrightarrow> intact e cfg d i t st \<and>
    (if hs_writers st i then live_ok e d t (slice_of (view e st) i) \<and> hs_seq st i \<noteq> None
     else tv_buffered e t = tv_docs e t)"
  using assms by (auto simp: index_ok_def intact_def)

lemma writer_has_dir: "index_ok_in e d st i \<Longrightarrow> hs_writers st i \<Longrightarrow> \<exists>t n. hs_dirs st i = Some t \<and> hs_seq st i = Some n"
  by (auto simp: index_ok_def split: option.splits)

section \<open>Commit\<close>

lemma barrier_sel [simp]:
  "hs_dirs (durability_barrier e cfg st) = hs_dirs st" "hs_writers (durability_barrier e cfg st) = hs_writers st"
  "hs_seq (durability_barrier e cfg st) = hs_seq st" "hs_open (durability_barrier e cfg st) = hs_open st"
  "hs_ops (durability_barrier e cfg st) = hs_ops st"
  by (simp_all add: durability_barrier_def)

lemma barrier_tables:
  assumes "engines_ok e" "durable_ok e cfg st"
  shows "view e (durability_barrier e cfg st) = view e st" "disk e (durability_barrier e cfg st) = view e st"
  using assms by (auto simp: durability_barrier_def view_def disk_def barrier_disk durable_ok_def)

lemma barrier_framed:
  "engines_ok e \<Longrightarrow> durable_ok e cfg st \<Longrightarrow> framed e j st (durability_barrier e cfg st)"
  by (simp add: framed_def barrier_tables)

text \<open>The operations on one index that leave the others framed and keep this one.\<close>

definition keeps ::
  "('k, 't) engines \<Rightarrow> config \<Rightarrow> deps \<Rightarrow> string \<Rightarrow> ('k, 't) hybrid_store \<Rightarrow> ('k, 't) hybrid_store \<Rightarrow> bool" where
  "keeps e cfg d i st st' \<longleftrightarrow>
     durable_ok e cfg st' \<and> index_ok_in e d st' i \<and> (\<forall>j. j \<noteq> i \<longrightarrow> framed e j st st')"

lemma keeps_store_ok: "store_ok e cfg d st \<Longrightarrow> keeps e cfg d i st st' \<Longrightarrow> store_ok e cfg d st'"
  unfolding store_ok_def keeps_def using framed_index_ok by metis

lemma keeps_refl: "store_ok e cfg d st \<Longrightarrow> keeps e cfg d i st st"
  by (simp add: keeps_def store_ok_def)

lemma keeps_trans: "keeps e cfg d i st st' \<Longrightarrow> keeps e cfg d i st' st'' \<Longrightarrow> keeps e cfg d i st st''"
  unfolding keeps_def by (metis framed_trans)

lemma commit_locked_writer_ok:
  assumes ok: "engines_ok e" and dur: "durable_ok e cfg st" and idx: "index_ok_in e d st i" and wr: "hs_writers st i"
    and run: "commit_locked_writer e cfg i st = (st', r)"
  shows "keeps e cfg d i st st'" "hs_writers st' = hs_writers st" "hs_seq st' = hs_seq st" "view e st' = view e st"
    "hs_ops st' = hs_ops st" "disk e st' = view e st"
    "r = Inr q \<Longrightarrow> \<exists>t n. q = Some n \<and> hs_dirs st' i = Some t \<and> intact e cfg d i t st' \<and>
       live_ok e d t (slice_of (view e st') i) \<and> tv_docs e t = tv_buffered e t \<and> hs_seq st' i = Some n \<and>
       checkpoint_is e (slice_of (view e st') i) t n"
proof -
  obtain t n where tn: "hs_dirs st i = Some t" "hs_seq st i = Some n" using writer_has_dir [OF idx wr] by blast
  let ?st1 = "durability_barrier e cfg st" and ?V = "slice_of (view e st) i"
  note bt = barrier_tables [OF ok dur]
  from idx wr tn have I: "crash_ok e d t ?V (slice_of (disk e st) i)" "live_ok e d t ?V" "seq_ok e t ?V (Some n)"
    by (auto simp: index_ok_def)
  have dur1: "durable_ok e cfg ?st1" using bt by (simp add: durable_ok_def)
  have "keeps e cfg d i st st' \<and> hs_writers st' = hs_writers st \<and> hs_seq st' = hs_seq st \<and> view e st' = view e st \<and>
    hs_ops st' = hs_ops st \<and> disk e st' = view e st \<and>
    (\<forall>q. r = Inr q \<longrightarrow> (\<exists>t n. q = Some n \<and> hs_dirs st' i = Some t \<and> intact e cfg d i t st' \<and>
       live_ok e d t (slice_of (view e st') i) \<and> tv_docs e t = tv_buffered e t \<and> hs_seq st' i = Some n \<and>
       checkpoint_is e (slice_of (view e st') i) t n))"
  proof (cases "tv_commit e (Some (encode_checkpoint_payload n)) t")
    case None
    with run tn have eq: "st' = ?st1" "\<exists>x. r = Inl x" by (auto simp: commit_locked_writer_def)
    have "index_ok_in e d ?st1 i"
      using I tn wr crash_ok_same [OF I(1)] by (simp add: index_ok_def bt)
    with eq dur1 bt barrier_framed [OF ok dur] show ?thesis by (auto simp: keeps_def)
  next
    case (Some t')
    with run tn have eq: "st' = set_dir i t' ?st1" "r = Inr (Some n)" by (auto simp: commit_locked_writer_def)
    note cc = crash_ok_commit [OF ok I Some]
    have sel: "view e st' = view e st" "disk e st' = view e st" "hs_dirs st' i = Some t'" "hs_writers st' = hs_writers st"
        "hs_seq st' = hs_seq st" "hs_ops st' = hs_ops st"
      by (simp_all add: eq set_dir_def bt)
    have "durable_ok e cfg st'" by (simp add: durable_ok_def sel)
    moreover have "intact e cfg d i t' st'" using cc \<open>durable_ok e cfg st'\<close> tn by (simp add: intact_def sel)
    moreover have "index_ok_in e d st' i" using cc wr tn by (simp add: index_ok_def sel)
    moreover have "framed e j st st'" if "j \<noteq> i" for j
      using that barrier_framed [OF ok dur, of j] by (simp add: framed_def eq set_dir_def)
    ultimately show ?thesis using cc sel tn eq(2) by (auto simp: keeps_def)
  qed
  then show "keeps e cfg d i st st'" "hs_writers st' = hs_writers st" "hs_seq st' = hs_seq st" "view e st' = view e st"
    "hs_ops st' = hs_ops st" "disk e st' = view e st"
    "r = Inr q \<Longrightarrow> \<exists>t n. q = Some n \<and> hs_dirs st' i = Some t \<and> intact e cfg d i t st' \<and>
       live_ok e d t (slice_of (view e st') i) \<and> tv_docs e t = tv_buffered e t \<and> hs_seq st' i = Some n \<and>
       checkpoint_is e (slice_of (view e st') i) t n"
    by blast+
qed

lemma reset_counter_sel [simp]:
  "hs_dirs (reset_operations_counter i st) = hs_dirs st" "hs_writers (reset_operations_counter i st) = hs_writers st"
  "hs_seq (reset_operations_counter i st) = hs_seq st" "hs_kv (reset_operations_counter i st) = hs_kv st"
  "hs_open (reset_operations_counter i st) = hs_open st"
  "view e (reset_operations_counter i st) = view e st" "disk e (reset_operations_counter i st) = disk e st"
  by (simp_all add: reset_operations_counter_def view_def disk_def split: option.splits)

lemma checkpoint_after_commit_ok:
  assumes ok: "engines_ok e" and int: "intact e cfg d i t st" and live: "live_ok e d t (slice_of (view e st) i)"
    and wr: "hs_writers st i" "hs_seq st i = Some n" and ck: "checkpoint_is e (slice_of (view e st) i) t n"
  shows "keeps e cfg d i st (checkpoint_after_commit e i (Some n) st)"
    "tb_data (view e (checkpoint_after_commit e i (Some n) st)) i = tb_data (view e st) i"
    "hs_dirs (checkpoint_after_commit e i (Some n) st) i = Some t"
    "hs_writers (checkpoint_after_commit e i (Some n) st) = hs_writers st"
    "hs_seq (checkpoint_after_commit e i (Some n) st) = hs_seq st"
proof -
  let ?st1 = "checkpoint_committed e i n st" and ?st' = "checkpoint_after_commit e i (Some n) st"
  from checkpoint_committed_ok [OF ok int ck]
  have int1: "intact e cfg d i t ?st1" and rk: "rows_kept e i st ?st1" by auto
  have rows: "tb_data (view e ?st1) i = tb_data (view e st) i" using rk by (simp add: rows_kept_def)
  have live1: "live_ok e d t (slice_of (view e ?st1) i)"
    using live live_ok_rows [of "slice_of (view e ?st1) i" "slice_of (view e st) i" e d t] rows by simp
  have sel: "hs_writers ?st1 = hs_writers st" "hs_seq ?st1 = hs_seq st" using rk by (simp_all add: rows_kept_def)
  show "keeps e cfg d i st ?st'"
    using int1 live1 rk wr sel
    by (auto simp: keeps_def checkpoint_after_commit_def durable_ok_def index_ok_def intact_def rows_kept_def framed_def)
  show "tb_data (view e ?st') i = tb_data (view e st) i" "hs_dirs ?st' i = Some t"
    "hs_writers ?st' = hs_writers st" "hs_seq ?st' = hs_seq st"
    using rows int1 sel by (simp_all add: checkpoint_after_commit_def intact_def)
qed

section \<open>Closing\<close>

lemma drop_writer_ok:
  assumes "engines_ok e" "durable_ok e cfg st" "index_ok_in e d st i"
  shows "keeps e cfg d i st (drop_writer e i st)" "view e (drop_writer e i st) = view e st"
    "\<not> hs_writers (drop_writer e i st) i" "hs_seq (drop_writer e i st) = hs_seq st"
proof -
  let ?st = "drop_writer e i st"
  show v: "view e ?st = view e st" and "hs_seq ?st = hs_seq st" and w: "\<not> hs_writers ?st i"
    by (simp_all add: drop_writer_def)
  have dk: "disk e ?st = disk e st" by (simp add: drop_writer_def)
  have "index_ok_in e d ?st i"
  proof (cases "hs_writers st i")
    case False
    with assms(3) show ?thesis by (simp add: drop_writer_def)
  next
    case True
    then obtain t where t: "hs_dirs st i = Some t" using writer_has_dir [OF assms(3)] by blast
    note same = same_committed_intros(2) [OF assms(1), of t]
    have "hs_dirs ?st i = Some (tv_rollback e t)" "hs_seq ?st i = hs_seq st i" using True t by (simp_all add: drop_writer_def)
    with assms(3) t w show ?thesis
      by (simp add: index_ok_def v dk crash_ok_committed [OF same] seq_ok_committed [OF same] tv_rollback_laws [OF assms(1)])
  qed
  moreover have "framed e j st ?st" if "j \<noteq> i" for j
    using that by (cases "hs_writers st i") (simp_all add: framed_def v dk, simp_all add: drop_writer_def)
  ultimately show "keeps e cfg d i st ?st" using assms(2) by (simp add: keeps_def durable_ok_def v dk)
qed

lemma drop_index_caches_ok:
  assumes "engines_ok e" "durable_ok e cfg st" "index_ok_in e d st i"
  shows "keeps e cfg d i st (drop_index_caches e i st)" "view e (drop_index_caches e i st) = view e st"
    "\<not> hs_writers (drop_index_caches e i st) i" "hs_seq (drop_index_caches e i st) i = None"
    "\<And>j. j \<noteq> i \<Longrightarrow> hs_schemas (drop_index_caches e i st) j = hs_schemas st j"
proof -
  note dw = drop_writer_ok [OF assms]
  let ?st1 = "drop_writer e i st" and ?st = "drop_index_caches e i st"
  have sel: "hs_dirs ?st = hs_dirs ?st1" "hs_writers ?st = hs_writers ?st1" "view e ?st = view e ?st1" "disk e ?st = disk e ?st1"
    by (simp_all add: drop_index_caches_def)
  have seq: "hs_seq ?st i = None" "\<And>j. j \<noteq> i \<Longrightarrow> hs_seq ?st j = hs_seq st j" by (simp_all add: drop_index_caches_def)
  have "index_ok_in e d ?st i"
    using dw(1,3) seq(1) by (auto simp: keeps_def index_ok_def sel seq_ok_def split: option.splits)
  moreover have "framed e j st ?st" if "j \<noteq> i" for j
    using dw(1) that seq(2) [OF that] by (simp add: keeps_def framed_def sel)
  ultimately show "keeps e cfg d i st ?st" using dw(1) by (simp add: keeps_def durable_ok_def sel)
  show "view e ?st = view e st" using dw(2) sel by simp
  show "\<not> hs_writers ?st i" using dw(3) sel by simp
  show "hs_seq ?st i = None" by (rule seq)
  show "\<And>j. j \<noteq> i \<Longrightarrow> hs_schemas ?st j = hs_schemas st j" by (simp add: drop_index_caches_def)
qed

text \<open>A commit made while closing or shutting down: its failure is passed over.\<close>

definition commit_quietly :: "('k, 't) engines \<Rightarrow> config \<Rightarrow> string \<Rightarrow> ('k, 't) hybrid_store \<Rightarrow> ('k, 't) hybrid_store" where
  "commit_quietly e cfg i st =
     (case commit_locked_writer e cfg i st of
        (st1, Inr seq) \<Rightarrow> checkpoint_after_commit e i seq st1
      | (st1, Inl _) \<Rightarrow> st1)"

lemma commit_quietly_ok:
  assumes ok: "engines_ok e" and dur: "durable_ok e cfg st" and idx: "index_ok_in e d st i" and wr: "hs_writers st i"
  shows "keeps e cfg d i st (commit_quietly e cfg i st)" "tb_data (view e (commit_quietly e cfg i st)) i = tb_data (view e st) i"
proof -
  obtain st1 r where run: "commit_locked_writer e cfg i st = (st1, r)" by (cases "commit_locked_writer e cfg i st")
  note cl = commit_locked_writer_ok [OF ok dur idx wr run]
  have "keeps e cfg d i st (commit_quietly e cfg i st) \<and>
      tb_data (view e (commit_quietly e cfg i st)) i = tb_data (view e st) i"
  proof (cases r)
    case (Inl x)
    with run cl show ?thesis by (simp add: commit_quietly_def)
  next
    case (Inr q)
    from cl(7) [OF Inr] obtain t n where q: "q = Some n" "hs_dirs st1 i = Some t" "intact e cfg d i t st1"
        "live_ok e d t (slice_of (view e st1) i)" "hs_seq st1 i = Some n" "checkpoint_is e (slice_of (view e st1) i) t n"
      by blast
    from wr cl(2) have "hs_writers st1 i" by simp
    note ca = checkpoint_after_commit_ok [OF ok q(3,4) this q(5,6)]
    from keeps_trans [OF cl(1) ca(1)] ca(2) cl(4) run Inr q(1) show ?thesis by (simp add: commit_quietly_def)
  qed
  then show "keeps e cfg d i st (commit_quietly e cfg i st)" "tb_data (view e (commit_quietly e cfg i st)) i = tb_data (view e st) i"
    by simp_all
qed

lemma close_index_ok:
  assumes ok: "engines_ok e" and dur: "durable_ok e cfg st" and idx: "index_ok_in e d st i"
    and run: "close_index e cfg busy i st = (st', b)"
  shows "keeps e cfg d i st st'" "tb_data (view e st') i = tb_data (view e st) i" "b \<Longrightarrow> \<not> hs_writers st' i"
proof -
  let ?st1 = "if hs_writers st i \<and> 0 < get_operations_count i st then commit_quietly e cfg i st else st"
  have eq: "st' = (if busy i then st else drop_index_caches e i ?st1)" "b = (\<not> busy i)"
    using run by (auto simp: close_index_def commit_quietly_def Let_def split: if_splits)
  have k1: "keeps e cfg d i st ?st1" and rows1: "tb_data (view e ?st1) i = tb_data (view e st) i"
    using commit_quietly_ok [OF ok dur idx] dur idx by (simp_all add: keeps_def)
  then have "durable_ok e cfg ?st1" "index_ok_in e d ?st1 i" unfolding keeps_def by blast+
  note dc = drop_index_caches_ok [OF ok this]
  show "keeps e cfg d i st st'" using eq keeps_trans [OF k1 dc(1)] dur idx by (simp add: keeps_def)
  show "tb_data (view e st') i = tb_data (view e st) i" using eq dc(2) rows1 by simp
  show "b \<Longrightarrow> \<not> hs_writers st' i" using eq dc(3) by simp
qed

section \<open>Making room\<close>

lemma framed_intact:
  assumes "framed e i st st'" "durable_ok e cfg st'" "intact e cfg d i t st"
  shows "intact e cfg d i t st'"
  using assms by (auto simp: framed_def intact_def dest: crash_ok_same)

lemma framed_recovered: "framed e i st st' \<Longrightarrow> recovered e d i t x st' = recovered e d i t x st"
  by (simp add: recovered_def framed_def)

lemma framed_rows: "framed e i st st' \<Longrightarrow> tb_data (view e st') i = tb_data (view e st) i"
  by (simp add: framed_def slice_of_def)

text \<open>All indexes but one are as the invariant says.\<close>

definition others_ok ::
  "('k, 't) engines \<Rightarrow> config \<Rightarrow> deps \<Rightarrow> string \<Rightarrow> ('k, 't) hybrid_store \<Rightarrow> bool" where
  "others_ok e cfg d i st \<longleftrightarrow> durable_ok e cfg st \<and> (\<forall>j. j \<noteq> i \<longrightarrow> index_ok_in e d st j)"

definition same_rows :: "('k, 't) engines \<Rightarrow> ('k, 't) hybrid_store \<Rightarrow> ('k, 't) hybrid_store \<Rightarrow> bool" where
  "same_rows e st st' \<longleftrightarrow> tb_data (view e st') = tb_data (view e st)"

lemma same_rows_refl [simp]: "same_rows e st st"
  by (simp add: same_rows_def)

lemma same_rows_trans: "same_rows e st st' \<Longrightarrow> same_rows e st' st'' \<Longrightarrow> same_rows e st st''"
  by (simp add: same_rows_def)

lemma keeps_others:
  assumes "keeps e cfg d v st st'" "others_ok e cfg d i st"
  shows "others_ok e cfg d i st'"
  using assms framed_index_ok unfolding keeps_def others_ok_def by metis

lemma framed_others:
  assumes "durable_ok e cfg st'" "others_ok e cfg d i st" "\<And>j. j \<noteq> i \<Longrightarrow> framed e j st st'"
  shows "others_ok e cfg d i st'"
  using assms framed_index_ok unfolding others_ok_def by metis

lemma close_victim_ok:
  assumes "engines_ok e" "others_ok e cfg d i st" "v \<noteq> i" "close_index e cfg busy v st = (st', b)"
  shows "others_ok e cfg d i st'" "framed e i st st'" "same_rows e st st'"
proof -
  from assms(2,3) have "durable_ok e cfg st" "index_ok_in e d st v" by (simp_all add: others_ok_def)
  note cl = close_index_ok [OF assms(1) this assms(4)]
  show "others_ok e cfg d i st'" by (rule keeps_others [OF cl(1) assms(2)])
  show "framed e i st st'" using cl(1) assms(3) by (simp add: keeps_def)
  have "tb_data (view e st') j = tb_data (view e st) j" for j
    using cl(1,2) framed_rows [of e j st st'] by (cases "j = v") (simp_all add: keeps_def)
  then show "same_rows e st st'" by (simp add: same_rows_def fun_eq_iff)
qed

lemma make_room_ok:
  assumes "engines_ok e" "others_ok e cfg d i st"
  shows "others_ok e cfg d i (make_room e cfg busy i st) \<and> framed e i st (make_room e cfg busy i st) \<and>
    same_rows e st (make_room e cfg busy i st)"
  using assms
proof (induction e cfg busy i st rule: make_room.induct)
  case (1 e cfg busy i st)
  show ?case
  proof (cases "length (hs_open st) < cf_max_open_indexes cfg \<or> coldest_closable_index busy i (hs_open st) = None")
    case True
    then have "make_room e cfg busy i st = st" by (subst make_room.simps) auto
    with 1 show ?thesis by simp
  next
    case False
    then obtain v where v: "coldest_closable_index busy i (hs_open st) = Some v" by auto
    obtain st1 b where cl: "close_index e cfg busy v st = (st1, b)" by (cases "close_index e cfg busy v st")
    note cv = close_victim_ok [OF 1(2,3) _ cl]
    have "v \<noteq> i" using coldest_closable [OF v] by simp
    show ?thesis
    proof (cases b)
      case no: False
      with False v cl have "make_room e cfg busy i st = st" by (subst make_room.simps) simp
      with 1(3) show ?thesis by simp
    next
      case yes: True
      with False v cl have eq: "make_room e cfg busy i st = make_room e cfg busy i st1" by (subst make_room.simps) simp
      from 1(1) [OF _ v cl [symmetric] yes 1(2) cv(1) [OF \<open>v \<noteq> i\<close>]] False
        cv(2,3) [OF \<open>v \<noteq> i\<close>] show ?thesis
        unfolding eq by (auto intro: framed_trans same_rows_trans)
    qed
  qed
qed

lemma room_made:
  "length (hs_open (make_room e cfg busy i st)) < cf_max_open_indexes cfg \<or>
   (\<forall>(n, u) \<in> set (hs_open (make_room e cfg busy i st)). n = i \<or> busy n)"
proof (induction e cfg busy i st rule: make_room.induct)
  case (1 e cfg busy i st)
  show ?case
  proof (cases "length (hs_open st) < cf_max_open_indexes cfg")
    case True
    then show ?thesis by (subst (1) make_room.simps) simp
  next
    case big: False
    show ?thesis
    proof (cases "coldest_closable_index busy i (hs_open st)")
      case None
      with big have "make_room e cfg busy i st = st" by (subst make_room.simps) simp
      with coldest_none [OF None] show ?thesis by auto
    next
      case (Some v)
      from coldest_closable [OF Some] have "\<not> busy v" by simp
      then obtain st1 where cl: "close_index e cfg busy v st = (st1, True)"
        by (cases "hs_writers st v") (auto simp: close_index_def Let_def)
      with big Some have "make_room e cfg busy i st = make_room e cfg busy i st1" by (subst make_room.simps) simp
      with 1 [OF big Some cl [symmetric]] show ?thesis by simp
    qed
  qed
qed

lemma admit_ok:
  assumes "engines_ok e" "others_ok e cfg d i st"
  shows "others_ok e cfg d i (admit_open_index e cfg busy i st)" "framed e i st (admit_open_index e cfg busy i st)"
    "same_rows e st (admit_open_index e cfg busy i st)"
proof -
  have tick: "others_ok e cfg d i (s\<lparr>hs_tick := u, hs_open := v\<rparr>) = others_ok e cfg d i s"
      "framed e i s0 (s\<lparr>hs_tick := u, hs_open := v\<rparr>) = framed e i s0 s"
      "same_rows e s0 (s\<lparr>hs_tick := u, hs_open := v\<rparr>) = same_rows e s0 s"
      "others_ok e cfg d i (s\<lparr>hs_open := v\<rparr>) = others_ok e cfg d i s"
      "framed e i s0 (s\<lparr>hs_open := v\<rparr>) = framed e i s0 s" "same_rows e s0 (s\<lparr>hs_open := v\<rparr>) = same_rows e s0 s"
      "others_ok e cfg d i (s\<lparr>hs_tick := u\<rparr>) = others_ok e cfg d i s"
      "framed e i s0 (s\<lparr>hs_tick := u\<rparr>) = framed e i s0 s" "same_rows e s0 (s\<lparr>hs_tick := u\<rparr>) = same_rows e s0 s"
      "framed e i (s0\<lparr>hs_tick := u\<rparr>) s = framed e i s0 s" "same_rows e (s0\<lparr>hs_tick := u\<rparr>) s = same_rows e s0 s"
    for s0 s :: "('a, 'b) hybrid_store" and u v
    by (simp_all add: others_ok_def durable_ok_def framed_def same_rows_def)
  note mr = make_room_ok [OF assms(1), of cfg d i "st\<lparr>hs_tick := Suc (hs_tick st)\<rparr>" busy]
  show "others_ok e cfg d i (admit_open_index e cfg busy i st)" "framed e i st (admit_open_index e cfg busy i st)"
    "same_rows e st (admit_open_index e cfg busy i st)"
    using mr assms(2) by (auto simp: admit_open_index_def Let_def tick split: option.splits)
qed

section \<open>Opening and creating\<close>

lemma store_schema_framed:
  "engines_ok e \<Longrightarrow> framed e j st (store_schema e i s st)"
  unfolding store_schema_def by (rule commit_txn_framed) (simp_all add: slice_of_def)

lemma store_schema_durable: "engines_ok e \<Longrightarrow> durable_ok e cfg st \<Longrightarrow> durable_ok e cfg (store_schema e i s st)"
  unfolding store_schema_def by (rule commit_txn_durable) simp_all

lemma schemas_framed [simp]:
  "framed e j st (st'\<lparr>hs_schemas := x\<rparr>) = framed e j st st'"
  "durable_ok e cfg (st\<lparr>hs_schemas := x\<rparr>) = durable_ok e cfg st"
  by (simp_all add: framed_def durable_ok_def)

lemma sync_schema_ok:
  assumes "engines_ok e" "durable_ok e cfg st" "sync_schema e cfg i s st = (st', r)"
  shows "framed e j st st'" "durable_ok e cfg st'"
proof -
  obtain st1 r1 where gs: "get_schema_cached e cfg i st = (st1, r1)" by (cases "get_schema_cached e cfg i st")
  note g = get_schema_cached_ok [OF gs]
  have d1: "durable_ok e cfg st1" using assms(2) g(3,4) by (simp add: durable_ok_def)
  have "(\<exists>x y. st' = (store_schema e i x st1)\<lparr>hs_schemas := y\<rparr>) \<or> st' = st1"
    using assms(3) by (auto simp: sync_schema_def gs Let_def split: sum.splits if_splits)
  with g(7) [of j] d1 framed_trans [OF g(7) store_schema_framed [OF assms(1)]] store_schema_durable [OF assms(1) d1]
  show "framed e j st st'" "durable_ok e cfg st'" by auto
qed

lemma no_seq_column: "column_index ''_seq'' i (create_schema_from_definition s) = None"
proof -
  have none: "\<forall>c \<in> set cs. cl_name c \<noteq> ''_seq'' \<Longrightarrow> column_index ''_seq'' i cs = None" for i cs
    by (induction cs arbitrary: i) auto
  have "\<forall>c \<in> set (create_schema_from_definition s). cl_name c \<noteq> ''_seq''"
    by (auto simp: create_schema_from_definition_def id_column_def column_for_def builds_column_def)
  then show ?thesis by (rule none)
qed

lemma created_fields: "\<exists>fs. load_fields (create_schema_from_definition s) = Inr fs"
  by (simp add: load_fields_def load_fields_from_existing_index_def create_schema_from_definition_def id_column_def)

lemma crash_ok_created:
  assumes "engines_ok e"
  shows "crash_ok e d (tv_create e (create_schema_from_definition s)) ([], [], None) ([], [], None)"
proof -
  let ?t = "tv_create e (create_schema_from_definition s)" and ?V = "([], [], None) :: slice"
  note cr = tv_create_laws [OF assms]
  have "checkpoint_is e ?V ?t 0"
    by (auto simp: checkpoint_is_def checkpoint_sources_def tantivy_checkpoint_seq_def cr no_seq_column)
  moreover have "settled e d ?V ?t 0"
    using created_fields [of s] by (simp add: settled_def cr row_indexed_def docs_of_def)
  ultimately show ?thesis
    unfolding crash_ok_def by (auto simp: slice_wf_def high_water_def get_max_wal_id_for_index_def u64_max_def)
qed

lemma open_or_create_ok:
  assumes ok: "engines_ok e" and st: "store_ok e cfg d st" and wr: "\<not> hs_writers st i"
    and run: "open_or_create e cfg i s st = (st', r)"
  shows "\<exists>t. intact e cfg d i t st' \<and> tv_buffered e t = tv_docs e t \<and> hs_writers st' i = False \<and>
      (\<forall>x. r = Inr x \<longrightarrow> fst x = t \<and> load_fields (tv_columns e t) = Inr (snd x))"
    "\<And>j. j \<noteq> i \<Longrightarrow> framed e j st st'" "same_rows e st st'"
proof -
  from st have dur: "durable_ok e cfg st" and idx: "index_ok_in e d st i" by (simp_all add: store_ok_def)
  have "(\<exists>t. intact e cfg d i t st' \<and> tv_buffered e t = tv_docs e t \<and> hs_writers st' i = False \<and>
      (\<forall>x. r = Inr x \<longrightarrow> fst x = t \<and> load_fields (tv_columns e t) = Inr (snd x))) \<and>
    (\<forall>j. j \<noteq> i \<longrightarrow> framed e j st st') \<and> same_rows e st st'"
  proof (cases "hs_dirs st i")
    case (Some t)
    with run have "st' = st" "r = and_then (load_fields (tv_columns e t)) (\<lambda>fs. Ok (t, fs))"
      by (auto simp: open_or_create_def)
    with Some idx wr dur index_ok_intact [OF dur Some, of d] show ?thesis
      by (auto simp: and_then_Ok_iff)
  next
    case None
    let ?t = "tv_create e (create_schema_from_definition s)" and ?st1 = "set_dir i (tv_create e (create_schema_from_definition s)) st"
    note cr = tv_create_laws [OF ok]
    obtain fs where fs: "load_fields (tv_columns e ?t) = Inr fs" using created_fields cr by metis
    obtain st2 r2 where sy: "sync_schema e cfg i s ?st1 = (st2, r2)" by (cases "sync_schema e cfg i s ?st1")
    have st2: "st' = st2" "\<And>x. r = Inr x \<Longrightarrow> x = (?t, fs)"
      using run None fs sy by (auto simp: open_or_create_def Let_def split: sum.splits)
    have dur1: "durable_ok e cfg ?st1" using dur by (simp add: durable_ok_def set_dir_def)
    note so = sync_schema_ok [OF ok dur1 sy]
    from None idx have e: "slice_of (view e st) i = ([], [], None)" "slice_of (disk e st) i = ([], [], None)" "hs_seq st i = None"
      by (simp_all add: index_ok_def)
    have "intact e cfg d i ?t ?st1"
      using crash_ok_created [OF ok, of d s] dur1 e by (simp add: intact_def set_dir_def seq_ok_def)
    then have int: "intact e cfg d i ?t st2" by (rule framed_intact [OF so(1) so(2)])
    have fr: "framed e j st st2" if "j \<noteq> i" for j
      using so(1) [of j] that by (simp add: framed_def set_dir_def)
    have "same_rows e st st2"
      using framed_rows [OF so(1)] by (simp add: same_rows_def fun_eq_iff set_dir_def)
    moreover have "hs_writers st2 i = False" using so(1) [of i] wr by (simp add: framed_def set_dir_def)
    ultimately show ?thesis using int fr st2 fs cr by auto
  qed
  then show "\<exists>t. intact e cfg d i t st' \<and> tv_buffered e t = tv_docs e t \<and> hs_writers st' i = False \<and>
      (\<forall>x. r = Inr x \<longrightarrow> fst x = t \<and> load_fields (tv_columns e t) = Inr (snd x))"
    "\<And>j. j \<noteq> i \<Longrightarrow> framed e j st st'" "same_rows e st st'" by blast+
qed

text \<open>What an operation promises when it opened the index: it is open, with these field handles.\<close>

definition opened :: "('k, 't) engines \<Rightarrow> string \<Rightarrow> schema_fields \<Rightarrow> ('k, 't) hybrid_store \<Rightarrow> bool" where
  "opened e i fs st \<longleftrightarrow> hs_writers st i \<and> (\<exists>t. hs_dirs st i = Some t \<and> load_fields (tv_columns e t) = Inr fs)"

lemma seed_ok:
  assumes "intact e cfg d i t st" "recovered e d i t (n, mw, c) st"
    "st' = seed_sequence i mw c (st\<lparr>hs_writers := (hs_writers st)(i := True)\<rparr>)"
  shows "index_ok_in e d st' i" "durable_ok e cfg st'" "\<And>j. j \<noteq> i \<Longrightarrow> framed e j st st'" "same_rows e st st'"
    "hs_writers st' i" "hs_dirs st' = hs_dirs st"
proof -
  have sel: "view e st' = view e st" "disk e st' = disk e st" "hs_dirs st' = hs_dirs st" "hs_writers st' i"
    by (simp_all add: assms(3) seed_sequence_def Let_def split: option.splits)
  from assms(2) have rec: "live_ok e d t (slice_of (view e st) i)" "max mw c < u64_max"
      "\<And>c'. checkpoint_is e (slice_of (view e st) i) t c' \<Longrightarrow> high_water (slice_of (view e st) i) c' \<le> max mw c"
    by (auto simp: recovered_def)
  have seq: "seq_ok e t (slice_of (view e st) i) (hs_seq st' i) \<and> hs_seq st' i \<noteq> None"
    using assms(1) rec(2,3) by (auto simp: assms(3) seed_sequence_def Let_def intact_def seq_ok_def split: option.splits)
  show "index_ok_in e d st' i" using assms(1) seq rec(1) by (simp add: index_ok_def sel intact_def)
  show "durable_ok e cfg st'" using assms(1) by (simp add: durable_ok_def sel intact_def)
  show "framed e j st st'" if "j \<noteq> i" for j
    using that by (auto simp: framed_def sel) (auto simp: assms(3) seed_sequence_def Let_def split: option.splits)
  show "same_rows e st st'" "hs_writers st' i" "hs_dirs st' = hs_dirs st" by (simp_all add: same_rows_def sel)
qed

lemma rollback_dir_ok:
  assumes ok: "engines_ok e" and "intact e cfg d i t st" "\<not> hs_writers st i"
  shows "index_ok_in e d (rollback_dir e i st) i" "\<And>j. j \<noteq> i \<Longrightarrow> framed e j st (rollback_dir e i st)"
    "durable_ok e cfg (rollback_dir e i st)" "same_rows e st (rollback_dir e i st)"
proof -
  note same = same_committed_intros(2) [OF ok, of t]
  show "index_ok_in e d (rollback_dir e i st) i"
    using assms(2,3) by (simp add: rollback_dir_def index_ok_def intact_def crash_ok_committed [OF same]
        seq_ok_committed [OF same] tv_rollback_laws [OF ok])
  show "framed e j st (rollback_dir e i st)" if "j \<noteq> i" for j using that by (simp add: rollback_dir_def framed_def)
  show "durable_ok e cfg (rollback_dir e i st)" using assms(2) by (simp add: rollback_dir_def durable_ok_def intact_def)
  show "same_rows e st (rollback_dir e i st)" by (simp add: rollback_dir_def same_rows_def)
qed

lemma others_and_one:
  "others_ok e cfg d i st \<Longrightarrow> index_ok_in e d st i \<Longrightarrow> store_ok e cfg d st"
  by (auto simp: others_ok_def store_ok_def)

lemma store_others: "store_ok e cfg d st \<Longrightarrow> others_ok e cfg d i st"
  by (simp add: others_ok_def store_ok_def)

lemma rows_kept_same_rows: "rows_kept e i st st' \<Longrightarrow> same_rows e st st'"
  by (auto simp: rows_kept_def same_rows_def fun_eq_iff) (metis framed_rows)

lemma recover_and_admit:
  assumes ok: "engines_ok e" and oth: "others_ok e cfg d i st2" and int: "intact e cfg d i t st2"
    and buf: "tv_buffered e t = tv_docs e t" and wr: "\<not> hs_writers st2 i"
    and fs: "load_fields (tv_columns e t) = Inr fs"
    and run: "(case recover_index e cfg d i t st2 of
                 (st3, Inl x) \<Rightarrow> (rollback_dir e i st3, Err x)
               | (st3, Inr (_, max_wal, c)) \<Rightarrow>
                   let st4 = admit_open_index e cfg busy i st3
                   in (seed_sequence i max_wal c (st4\<lparr>hs_writers := (hs_writers st4)(i := True)\<rparr>), Ok fs)) = (st', r)"
  shows "store_ok e cfg d st' \<and> same_rows e st2 st' \<and> (\<forall>x. r = Inr x \<longrightarrow> opened e i x st')"
proof -
  obtain st3 r3 where rc: "recover_index e cfg d i t st2 = (st3, r3)" by (cases "recover_index e cfg d i t st2")
  from recover_index_ok [OF ok int buf rc] obtain t' where int3: "intact e cfg d i t' st3"
    and cols: "tv_columns e t' = tv_columns e t" and rk: "rows_kept e i st2 st3" and rec: "\<And>x. r3 = Inr x \<Longrightarrow> recovered e d i t' x st3" by blast
  have fr3: "\<And>j. j \<noteq> i \<Longrightarrow> framed e j st2 st3" and wr3: "\<not> hs_writers st3 i" using rk wr by (simp_all add: rows_kept_def)
  have oth3: "others_ok e cfg d i st3" using framed_others [OF _ oth fr3] int3 by (simp add: intact_def)
  have sr3: "same_rows e st2 st3" by (rule rows_kept_same_rows [OF rk])
  show ?thesis
  proof (cases r3)
    case (Inl x)
    note rb = rollback_dir_ok [OF ok int3 wr3]
    have "store_ok e cfg d (rollback_dir e i st3)"
      by (rule others_and_one [OF framed_others [OF rb(3) oth3 rb(2)] rb(1)])
    with Inl run rc same_rows_trans [OF sr3 rb(4)] show ?thesis by auto
  next
    case (Inr x)
    obtain n mw c where x: "x = (n, mw, c)" by (cases x)
    let ?st4 = "admit_open_index e cfg busy i st3"
    note ad = admit_ok [OF ok oth3, of busy]
    have int4: "intact e cfg d i t' ?st4" using framed_intact [OF ad(2) _ int3] ad(1) by (simp add: others_ok_def)
    have rec4: "recovered e d i t' (n, mw, c) ?st4" using rec [OF Inr] framed_recovered [OF ad(2)] x by simp
    from run rc Inr x have eq: "st' = seed_sequence i mw c (?st4\<lparr>hs_writers := (hs_writers ?st4)(i := True)\<rparr>)" "r = Inr fs"
      by (auto simp: Let_def)
    note sd = seed_ok [OF int4 rec4 eq(1)]
    have "store_ok e cfg d st'" by (rule others_and_one [OF framed_others [OF sd(2) ad(1) sd(3)] sd(1)])
    moreover have "same_rows e st2 st'"
      using sr3 ad(3) sd(4) by (auto intro: same_rows_trans)
    ultimately show ?thesis using eq(2) sd(5,6) int4 fs cols by (auto simp: opened_def intact_def)
  qed
qed

end
