(* ===== verification/Store_Write.thy ===== *)
theory Store_Write
  imports Store_Keep
begin

text \<open>
  A batch of writes: what its transaction does to the rows and the log, what its Tantivy pass does to the
  writer, and that the two agree, so that the invariant is kept and the batch is what a map of rows would
  become under the operations in order.
\<close>

section \<open>Opening\<close>

lemma get_or_create_index_locked_ok:
  assumes ok: "engines_ok e" and st: "store_ok e cfg d st"
    and run: "get_or_create_index_locked e cfg d busy i st = (st', r)"
  shows "store_ok e cfg d st' \<and> same_rows e st st' \<and> (\<forall>fs. r = Inr fs \<longrightarrow> opened e i fs st')"
proof (cases "hs_writers st i")
  case True
  with st obtain t where "hs_dirs st i = Some t" by (auto simp: store_ok_def dest: writer_has_dir)
  with True run st show ?thesis by (auto simp: get_or_create_index_locked_def opened_def)
next
  case wr: False
  obtain st1 r1 where gs: "get_schema_cached e cfg i st = (st1, r1)" by (cases "get_schema_cached e cfg i st")
  note g = get_schema_cached_ok [OF gs]
  have st1: "store_ok e cfg d st1" "same_rows e st st1" "\<not> hs_writers st1 i"
    using st g(2,7) framed_index_ok [OF g(7)] wr
    by (auto simp: store_ok_def same_rows_def durable_ok_def g(3,4) rows_kept_def)
  let ?s = "\<lambda>s. case s of Some s \<Rightarrow> s | None \<Rightarrow> schema_default"
  consider (early) "st' = st \<or> st' = st1" "\<exists>x. r = Inl x" | (go) s p where "r1 = Inr s" "index_dir cfg i = Inr p"
    using run wr gs by (cases r1; cases "index_dir cfg i") (auto simp: get_or_create_index_locked_def)
  then show ?thesis
  proof cases
    case early
    with st st1 show ?thesis by auto
  next
    case go
    obtain st2 r2 where oc: "open_or_create e cfg i (?s s) st1 = (st2, r2)" by (cases "open_or_create e cfg i (?s s) st1")
    note o = open_or_create_ok [OF ok st1(1,3) oc]
    from o(1) obtain t where t: "intact e cfg d i t st2" "tv_buffered e t = tv_docs e t" "\<not> hs_writers st2 i"
        "\<And>x. r2 = Inr x \<Longrightarrow> fst x = t \<and> load_fields (tv_columns e t) = Inr (snd x)" by blast
    have dur2: "durable_ok e cfg st2" using t(1) by (simp add: intact_def)
    have oth: "others_ok e cfg d i st2" by (rule framed_others [OF dur2 store_others [OF st1(1)] o(2)])
    have sr2: "same_rows e st st2" by (rule same_rows_trans [OF st1(2) o(3)])
    show ?thesis
    proof (cases r2)
      case (Inl x)
      have "index_ok_in e d st2 i" using index_ok_intact [OF dur2, of i t d] t by (simp add: intact_def)
      with Inl run wr gs go oc others_and_one [OF oth] sr2 show ?thesis
        by (auto simp: get_or_create_index_locked_def)
    next
      case (Inr x)
      from t(4) [OF this] obtain fs where x: "x = (t, fs)" "load_fields (tv_columns e t) = Inr fs" by (cases x) auto
      have body: "(case recover_index e cfg d i t st2 of
                 (st3, Inl x) \<Rightarrow> (rollback_dir e i st3, Err x)
               | (st3, Inr (_, max_wal, c)) \<Rightarrow>
                   let st4 = admit_open_index e cfg busy i st3
                   in (seed_sequence i max_wal c (st4\<lparr>hs_writers := (hs_writers st4)(i := True)\<rparr>), Ok fs)) = (st', r)"
        using run wr gs go oc Inr x(1) by (simp add: get_or_create_index_locked_def)
      from recover_and_admit [OF ok oth t(1,2,3) x(2) body] same_rows_trans [OF sr2] show ?thesis by blast
    qed
  qed
qed

lemma touch_ok: "store_ok e cfg d (touch_open_index i st) = store_ok e cfg d st" "same_rows e (touch_open_index i st) st' = same_rows e st st'"
  by (simp_all add: touch_open_index_def store_ok_def durable_ok_def same_rows_def split: option.splits)

lemma get_or_create_index_ok:
  assumes "engines_ok e" "store_ok e cfg d st" "get_or_create_index e cfg d busy i st = (st', r)"
  shows "store_ok e cfg d st' \<and> same_rows e st st' \<and> (\<forall>fs. r = Inr fs \<longrightarrow> opened e i fs st')"
  using get_or_create_index_locked_ok [OF assms(1), of cfg d "touch_open_index i st"] assms(2,3)
  by (simp add: get_or_create_index_def touch_ok)

lemma reopen_attempts_ok:
  assumes "engines_ok e" "store_ok e cfg d st" "reopen_attempts e cfg d busy i n st = (st', r)"
  shows "store_ok e cfg d st' \<and> same_rows e st st' \<and> (r = Inr () \<longrightarrow> hs_writers st' i)"
  using assms(2,3)
proof (induction n arbitrary: st)
  case 0
  obtain st1 r1 where g: "get_or_create_index e cfg d busy i st = (st1, r1)" by (cases "get_or_create_index e cfg d busy i st")
  from get_or_create_index_ok [OF assms(1) 0(1) g] 0(2) g show ?case by (cases r1) (auto simp: opened_def)
next
  case (Suc n)
  obtain st1 r1 where g: "get_or_create_index e cfg d busy i st = (st1, r1)" by (cases "get_or_create_index e cfg d busy i st")
  note gk = get_or_create_index_ok [OF assms(1) Suc(2) g]
  show ?case
  proof (cases r1)
    case (Inl x)
    with Suc(3) g have "reopen_attempts e cfg d busy i n st1 = (st', r)" by simp
    from Suc.IH [OF _ this] gk show ?thesis by (auto intro: same_rows_trans)
  next
    case (Inr x)
    with Suc(3) g gk show ?thesis by (auto simp: opened_def)
  qed
qed

text \<open>A writer dropped with whatever it held leaves a closed index.\<close>

lemma drop_intact_writer:
  assumes ok: "engines_ok e" and int: "intact e cfg d i t st" and wr: "hs_writers st i" and oth: "others_ok e cfg d i st"
  shows "store_ok e cfg d (drop_writer e i st)" "same_rows e st (drop_writer e i st)"
proof -
  let ?st = "drop_writer e i st"
  note same = same_committed_intros(2) [OF ok, of t]
  have sel: "view e ?st = view e st" "disk e ?st = disk e st" "hs_seq ?st = hs_seq st" "hs_dirs ?st i = Some (tv_rollback e t)"
      "\<not> hs_writers ?st i" "\<And>j. j \<noteq> i \<Longrightarrow> framed e j st ?st"
    using int wr by (simp_all add: drop_writer_def intact_def framed_def)
  have "index_ok_in e d ?st i"
    using int by (simp add: index_ok_def sel intact_def crash_ok_committed [OF same] seq_ok_committed [OF same] tv_rollback_laws [OF ok])
  moreover have "durable_ok e cfg ?st" using int by (simp add: durable_ok_def sel intact_def)
  ultimately show "store_ok e cfg d ?st" using framed_others [OF _ oth sel(6)] others_and_one by blast
  show "same_rows e st ?st" by (simp add: same_rows_def sel)
qed

lemma open_index:
  assumes "store_ok e cfg d st" "hs_writers st i"
  obtains t n where "hs_dirs st i = Some t" "hs_seq st i = Some n" "intact e cfg d i t st" "live_ok e d t (slice_of (view e st) i)"
proof -
  from assms(1) have ok: "index_ok_in e d st i" and dur: "durable_ok e cfg st" by (simp_all add: store_ok_def)
  from writer_has_dir [OF ok assms(2)] obtain t n where t: "hs_dirs st i = Some t" "hs_seq st i = Some n" by blast
  with ok [unfolded index_ok_intact [OF dur t(1)]] assms(2) that show ?thesis by simp
qed

section \<open>The transaction\<close>

lemma om_insert_last:
  "\<forall>k' \<in> set (om_keys m). k' < k \<Longrightarrow> om_insert k v m = m @ [(k, v)]"
  by (induction m) (auto simp: om_keys_def)

text \<open>A prepared operation carries a document of its row, or none.\<close>

definition prepared_ok :: "deps \<Rightarrow> schema_fields \<Rightarrow> prepared_op \<Rightarrow> bool" where
  "prepared_ok d fs p \<longleftrightarrow>
     po_wal p = encode_wal_entry (po_id p) \<and>
     (case po_kind p of
        PreparedPut doc \<Rightarrow> \<exists>s body. po_doc p = Some body \<and> document d fs s (po_id p) (po_seq p) body SkipAndWarn = Inr doc
      | PreparedDelete \<Rightarrow> True)"

lemma prepare_op_ok:
  assumes "prepare_op d fs s (op, seq) = Inr p"
  shows "prepared_ok d fs p" "po_id p = wal_op_id op" "po_seq p = seq"
proof -
  show "po_id p = wal_op_id op" "po_seq p = seq"
    using assms by (auto simp: prepare_op_def Let_def and_then_Ok_iff split: wal_op.splits)
  show "prepared_ok d fs p"
  proof (cases op)
    case (Put i blob)
    let ?body = "if has_shadow_fields s \<or> has_ghost_fields s then map_option (\<lambda>b. filter_unstored_fields_owned b s) blob else blob"
    from assms Put obtain doc where doc: "document d fs s i seq ?body Refuse = Inr doc"
      and p: "p = \<lparr>po_wal = encode_wal_entry i, po_doc = Some (stored_body ?body), po_id = i, po_seq = seq, po_kind = PreparedPut doc\<rparr>"
      by (auto simp: prepare_op_def Let_def and_then_Ok_iff)
    have "document d fs s i seq (stored_body ?body) SkipAndWarn = Inr doc"
      unfolding document_seq_irrelevant by (rule document_replay [OF doc])
    then show ?thesis by (auto simp: prepared_ok_def p)
  next
    case (Delete i)
    with assms show ?thesis by (auto simp: prepare_op_def prepared_ok_def)
  qed
qed

lemma prepare_ops_ok:
  "prepare_ops d fs s xs = Inr ps \<Longrightarrow>
   list_all (prepared_ok d fs) ps \<and> map po_id ps = map (wal_op_id \<circ> fst) xs \<and> map po_seq ps = map snd xs"
proof (induction xs arbitrary: ps)
  case (Cons x xs)
  obtain op seq where x: "x = (op, seq)" by (cases x)
  from Cons.prems obtain p ps' where "prepare_op d fs s x = Inr p" "prepare_ops d fs s xs = Inr ps'" "ps = p # ps'"
    by (auto simp: and_then_Ok_iff)
  with Cons.IH prepare_op_ok [of d fs s op seq p] show ?case by (auto simp: x)
qed simp

text \<open>Where a batch stands: what Tantivy must end with, against the rows before and now.\<close>

definition final_matches :: "deps \<Rightarrow> schema_fields \<Rightarrow> string \<Rightarrow> json option option \<Rightarrow> final_op \<Rightarrow> bool" where
  "final_matches d fs i row op \<longleftrightarrow>
     (case op of
        AddDoc doc \<Rightarrow> \<exists>s seq body. row = Some body \<and> document d fs s i seq body SkipAndWarn = Inr doc
      | DropDoc \<Rightarrow> row = None)"

definition finals_ok ::
  "deps \<Rightarrow> schema_fields \<Rightarrow> (string, json option) omap \<Rightarrow> (string, json option) omap \<Rightarrow> final_entry list \<Rightarrow> bool" where
  "finals_ok d fs rows0 rows finals \<longleftrightarrow>
     om_inv rows \<and> distinct (map fe_id finals) \<and>
     (\<forall>j. j \<notin> fe_id ` set finals \<longrightarrow> om_get rows j = om_get rows0 j) \<and>
     (\<forall>x \<in> set finals. (fe_existed_before x \<longleftrightarrow> om_get rows0 (fe_id x) \<noteq> None) \<and>
        final_matches d fs (fe_id x) (om_get rows (fe_id x)) (fe_op x))"

lemma record_final_ids: "fe_id ` set (record_final i b op xs) = insert i (fe_id ` set xs)"
  by (induction xs) auto

lemma record_final_distinct: "distinct (map fe_id xs) \<Longrightarrow> distinct (map fe_id (record_final i b op xs))"
proof (induction xs)
  case (Cons x xs)
  then show ?case using record_final_ids [of i b op xs] by auto
qed simp

lemma record_final_set:
  assumes "distinct (map fe_id xs)" "y \<in> set (record_final i b op xs)"
  shows "(fe_id y \<noteq> i \<and> y \<in> set xs) \<or>
    (fe_id y = i \<and> fe_op y = op \<and> (if i \<in> fe_id ` set xs then \<exists>x \<in> set xs. fe_id x = i \<and> fe_existed_before y = fe_existed_before x
                      else fe_existed_before y = b))"
  using assms
proof (induction xs)
  case (Cons x xs)
  show ?case
  proof (cases "fe_id x = i")
    case True
    with Cons.prems show ?thesis by (auto simp: image_iff)
  next
    case False
    with Cons.prems consider "y = x" | "y \<in> set (record_final i b op xs)" by auto
    then show ?thesis
    proof cases
      case 1
      with False show ?thesis by simp
    next
      case 2
      from Cons.IH [OF _ this] Cons.prems(1) False show ?thesis by auto
    qed
  qed
qed simp

lemma finals_ok_record:
  assumes fo: "finals_ok d fs rows0 rows finals" and inv: "om_inv rows'"
    and other: "\<And>j. j \<noteq> i \<Longrightarrow> om_get rows' j = om_get rows j"
    and now: "final_matches d fs i (om_get rows' i) op"
  shows "finals_ok d fs rows0 rows' (record_final i (om_get rows i \<noteq> None) op finals)"
proof -
  have dist: "distinct (map fe_id finals)" using fo by (simp add: finals_ok_def)
  have "(fe_existed_before y \<longleftrightarrow> om_get rows0 (fe_id y) \<noteq> None) \<and>
        final_matches d fs (fe_id y) (om_get rows' (fe_id y)) (fe_op y)"
    if y: "y \<in> set (record_final i (om_get rows i \<noteq> None) op finals)" for y
    using record_final_set [OF dist y]
  proof (elim disjE conjE)
    assume "fe_id y \<noteq> i" "y \<in> set finals"
    with fo other [of "fe_id y"] show ?thesis by (simp add: finals_ok_def)
  next
    assume id: "fe_id y = i" and op: "fe_op y = op"
      and ex: "if i \<in> fe_id ` set finals then \<exists>x \<in> set finals. fe_id x = i \<and> fe_existed_before y = fe_existed_before x
               else fe_existed_before y = (om_get rows i \<noteq> None)"
    have "fe_existed_before y \<longleftrightarrow> om_get rows0 i \<noteq> None"
    proof (cases "i \<in> fe_id ` set finals")
      case True
      with ex obtain x where "x \<in> set finals" "fe_id x = i" "fe_existed_before y = fe_existed_before x" by auto
      with fo show ?thesis by (auto simp: finals_ok_def)
    next
      case False
      with ex fo show ?thesis by (simp add: finals_ok_def)
    qed
    with now id op show ?thesis by simp
  qed
  moreover have "om_get rows' j = om_get rows0 j" if "j \<notin> insert i (fe_id ` set finals)" for j
    using that other [of j] fo by (simp add: finals_ok_def)
  ultimately show ?thesis
    using inv record_final_distinct [OF dist] unfolding finals_ok_def record_final_ids by blast
qed

lemma apply_prepared_ok:
  assumes "finals_ok d fs rows0 rows finals" "prepared_ok d fs p"
    "apply_prepared p (wal, rows, finals) = (wal', rows', finals')"
  shows "finals_ok d fs rows0 rows' finals'" "wal' = om_insert (po_seq p) (po_wal p) wal"
    "fe_id ` set finals' = insert (po_id p) (fe_id ` set finals)"
proof -
  from assms(1) have inv: "om_inv rows" by (simp add: finals_ok_def)
  have "finals_ok d fs rows0 rows' finals' \<and> wal' = om_insert (po_seq p) (po_wal p) wal \<and>
      fe_id ` set finals' = insert (po_id p) (fe_id ` set finals)"
  proof (cases "po_kind p")
    case (PreparedPut doc)
    with assms(2) obtain s body where b: "po_doc p = Some body"
        "document d fs s (po_id p) (po_seq p) body SkipAndWarn = Inr doc" by (auto simp: prepared_ok_def)
    from assms(3) PreparedPut b(1) have eq: "wal' = om_insert (po_seq p) (po_wal p) wal" "rows' = om_insert (po_id p) body rows"
        "finals' = record_final (po_id p) (om_get rows (po_id p) \<noteq> None) (AddDoc doc) finals"
      by (auto simp: apply_prepared_def Let_def)
    have "finals_ok d fs rows0 rows' finals'"
      unfolding eq by (rule finals_ok_record [OF assms(1)]) (use inv b(2) in \<open>auto simp: final_matches_def\<close>)
    then show ?thesis by (simp add: eq record_final_ids)
  next
    case PreparedDelete
    with assms(3) have eq: "wal' = om_insert (po_seq p) (po_wal p) wal" "rows' = om_remove (po_id p) rows"
        "finals' = record_final (po_id p) (om_get rows (po_id p) \<noteq> None) DropDoc finals"
      by (auto simp: apply_prepared_def Let_def)
    have "finals_ok d fs rows0 rows' finals'"
      unfolding eq by (rule finals_ok_record [OF assms(1)]) (use inv in \<open>auto simp: final_matches_def\<close>)
    then show ?thesis by (simp add: eq record_final_ids)
  qed
  then show "finals_ok d fs rows0 rows' finals'" "wal' = om_insert (po_seq p) (po_wal p) wal"
    "fe_id ` set finals' = insert (po_id p) (fe_id ` set finals)" by simp_all
qed

lemma fold_prepared_ok:
  assumes "finals_ok d fs rows0 rows finals" "list_all (prepared_ok d fs) ps"
    "\<forall>k \<in> set (om_keys wal). \<forall>p \<in> set ps. k < po_seq p" "sorted_wrt (<) (map po_seq ps)"
    "fold apply_prepared ps (wal, rows, finals) = (wal', rows', finals')"
  shows "finals_ok d fs rows0 rows' finals' \<and> wal' = wal @ map (\<lambda>p. (po_seq p, po_wal p)) ps \<and>
    fe_id ` set finals' = po_id ` set ps \<union> fe_id ` set finals"
  using assms
proof (induction ps arbitrary: wal rows finals)
  case (Cons p ps)
  obtain wal1 rows1 finals1 where ap: "apply_prepared p (wal, rows, finals) = (wal1, rows1, finals1)"
    by (cases "apply_prepared p (wal, rows, finals)")
  note a = apply_prepared_ok [OF Cons.prems(1) _ ap]
  have pk: "prepared_ok d fs p" using Cons.prems(2) by simp
  have wal1: "wal1 = wal @ [(po_seq p, po_wal p)]"
    unfolding a(2) [OF pk] by (rule om_insert_last) (use Cons.prems(3) in auto)
  have "\<forall>k \<in> set (om_keys wal1). \<forall>q \<in> set ps. k < po_seq q"
    using Cons.prems(3,4) by (auto simp: wal1 om_keys_def)
  from Cons.IH [OF a(1) [OF pk] _ this, of ] Cons.prems ap a(3) [OF pk] show ?case
    by (auto simp: wal1)
qed simp


lemma tail_ids_append: "tail_ids e c (xs @ ys) = tail_ids e c xs \<union> tail_ids e c ys"
  by (auto simp: tail_ids_def)

text \<open>What a transaction appends to a log: one entry per operation, numbered on from the counter.\<close>

definition logged :: "nat \<Rightarrow> prepared_op list \<Rightarrow> bool" where
  "logged n ps \<longleftrightarrow>
     map po_seq ps = [n + 1..<n + 1 + length ps] \<and>
     (\<forall>p \<in> set ps. po_wal p = encode_wal_entry (po_id p) \<and> utf8_valid (po_id p))"

lemma logged_seq: "logged n ps \<Longrightarrow> p \<in> set ps \<Longrightarrow> n < po_seq p \<and> po_seq p \<le> n + length ps"
proof -
  assume l: "logged n ps" "p \<in> set ps"
  then have "po_seq p \<in> set (map po_seq ps)" by simp
  also have "\<dots> = {n + 1..<n + 1 + length ps}" using l(1) by (simp only: logged_def set_upt)
  finally show ?thesis by simp
qed

lemma tail_ids_logged:
  assumes "logged n ps" "c \<le> n"
  shows "tail_ids e c (map (\<lambda>p. (po_seq p, po_wal p)) ps) = po_id ` set ps"
proof -
  have "decode_wal_entry (from_legacy e) (po_wal p) = Inr (po_id p)" if "p \<in> set ps" for p
    using assms(1) that by (simp add: logged_def)
  then show ?thesis using logged_seq [OF assms(1)] assms(2)
    by (auto simp: tail_ids_def image_iff) (metis le_less_trans)
qed

lemma max_wal_logged:
  assumes "logged n ps" "get_max_wal_id_for_index wal \<le> n"
  shows "get_max_wal_id_for_index (wal @ map (\<lambda>p. (po_seq p, po_wal p)) ps) \<le> n + length ps"
proof (cases ps rule: rev_cases)
  case (snoc qs q)
  have "wal @ map (\<lambda>p. (po_seq p, po_wal p)) ps = (wal @ map (\<lambda>p. (po_seq p, po_wal p)) qs) @ [(po_seq q, po_wal q)]"
    by (simp add: snoc)
  then have "get_max_wal_id_for_index (wal @ map (\<lambda>p. (po_seq p, po_wal p)) ps) = po_seq q"
    by (simp only: max_wal_snoc fst_conv)
  with logged_seq [OF assms(1), of q] snoc show ?thesis by simp
qed (use assms(2) in simp)

lemma max_wal_append:
  assumes "logged n ps" "get_max_wal_id_for_index wal \<le> n"
  shows "get_max_wal_id_for_index wal \<le> get_max_wal_id_for_index (wal @ map (\<lambda>p. (po_seq p, po_wal p)) ps)"
proof (cases ps rule: rev_cases)
  case (snoc qs q)
  have "wal @ map (\<lambda>p. (po_seq p, po_wal p)) ps = (wal @ map (\<lambda>p. (po_seq p, po_wal p)) qs) @ [(po_seq q, po_wal q)]"
    by (simp add: snoc)
  then have "get_max_wal_id_for_index (wal @ map (\<lambda>p. (po_seq p, po_wal p)) ps) = po_seq q"
    by (simp only: max_wal_snoc fst_conv)
  with logged_seq [OF assms(1), of q] snoc assms(2) show ?thesis by simp
qed simp

lemma sorted_logged:
  assumes "logged n ps" "om_inv wal" "get_max_wal_id_for_index wal \<le> n"
  shows "\<forall>k \<in> set (om_keys wal). \<forall>p \<in> set ps. k < po_seq p" "sorted_wrt (<) (map po_seq ps)"
    "om_inv (wal @ map (\<lambda>p. (po_seq p, po_wal p)) ps)"
proof -
  have le: "k \<le> n" if "k \<in> set (om_keys wal)" for k
    using that max_wal_ge [OF assms(2)] assms(3) by (fastforce simp: om_keys_def)
  show lt: "\<forall>k \<in> set (om_keys wal). \<forall>p \<in> set ps. k < po_seq p"
    using le logged_seq [OF assms(1)] by fastforce
  show so: "sorted_wrt (<) (map po_seq ps)"
    using assms(1) sorted_wrt_upt by (simp only: logged_def)
  show "om_inv (wal @ map (\<lambda>p. (po_seq p, po_wal p)) ps)"
    using lt so assms(2) by (auto simp: om_inv_def om_keys_def sorted_wrt_append comp_def)
qed

lemma crash_ok_write:
  assumes cr: "crash_ok e d t V D" and sq: "seq_ok e t V (Some n)" and room: "n + length ps < u64_max"
    and fs: "load_fields (tv_columns e t) = Inr fs" and lg: "logged n ps"
    and V': "V' = (rows, sl_wal V @ map (\<lambda>p. (po_seq p, po_wal p)) ps, sl_meta V)"
    and fin: "finals_ok d fs (sl_rows V) rows finals" "fe_id ` set finals = po_id ` set ps"
  shows "crash_ok e d t V' V'" "crash_ok e d t V' D" "seq_ok e t V' (Some (n + length ps))"
proof -
  from cr obtain v w where c: "slice_wf V" "slice_wf D" "checkpoint_is e V t v" "checkpoint_is e D t w"
      "settled e d V t v" "settled e d D t w" "high_water D w \<le> high_water V v" by (auto simp: crash_ok_def)
  have n: "v \<le> n" "get_max_wal_id_for_index (sl_wal V) \<le> n" "om_inv (sl_wal V)"
    using sq c(1,3) by (auto simp: seq_ok_def high_water_def slice_wf_def)
  have ck: "checkpoint_is e V' t v" using c(3) by (simp add: checkpoint_is_def V')
  have wf: "slice_wf V'"
    using sorted_logged(3) [OF lg n(3,2)] fin(1) by (simp add: slice_wf_def V' finals_ok_def)
  have hw: "high_water V v \<le> high_water V' v" "high_water V' v \<le> n + length ps"
    using max_wal_append [OF lg n(2)] max_wal_logged [OF lg n(2)] n(1) by (auto simp: high_water_def V')
  have "row_indexed d fs j (om_get rows j) (tv_docs e t)" if "j \<notin> tail_ids e v (sl_wal V')" for j
  proof -
    from that have "j \<notin> tail_ids e v (sl_wal V)" "j \<notin> po_id ` set ps"
      by (simp_all add: V' tail_ids_append tail_ids_logged [OF lg n(1)])
    with fin c(5) fs show ?thesis by (auto simp: settled_def finals_ok_def)
  qed
  then have st: "settled e d V' t v" using fs by (simp add: settled_def V')
  from wf ck st hw room show "crash_ok e d t V' V'" unfolding crash_ok_def by (meson le_less_trans order_refl)
  from wf ck st hw room c show "crash_ok e d t V' D" unfolding crash_ok_def by (meson le_less_trans order_trans)
  show "seq_ok e t V' (Some (n + length ps))"
    using ck hw(2) room unfolding seq_ok_def by (metis checkpoint_unique option.inject)
qed

text \<open>Room in the counter, which the code advances modulo two to the sixty-fourth.\<close>

definition writable :: "string \<Rightarrow> wal_op list \<Rightarrow> ('k, 't) hybrid_store \<Rightarrow> bool" where
  "writable i ops st \<longleftrightarrow>
     list_all (\<lambda>op. utf8_valid (wal_op_id op)) ops \<and>
     (case hs_seq st i of Some n \<Rightarrow> n + length ops < u64_max | None \<Rightarrow> True)"

lemma reserved_sequences:
  "n + k < u64_max \<Longrightarrow> map (\<lambda>i. (n + 1 + i) mod u64_mod) [0..<k] = [n + 1..<n + 1 + k]"
proof (rule nth_equalityI)
  assume "n + k < u64_max"
  then show "map (\<lambda>i. (n + 1 + i) mod u64_mod) [0..<k] ! i = [n + 1..<n + 1 + k] ! i"
    if "i < length (map (\<lambda>i. (n + 1 + i) mod u64_mod) [0..<k])" for i
    using that by (simp add: u64_max_def u64_mod_def del: upt_Suc)
qed simp

lemma prepared_logged:
  assumes "prepare_ops d fs s (zip ops [n + 1..<n + 1 + length ops]) = Inr ps" "list_all (\<lambda>op. utf8_valid (wal_op_id op)) ops"
  shows "logged n ps" "list_all (prepared_ok d fs) ps" "length ps = length ops" "map po_id ps = map wal_op_id ops"
    "map po_seq ps = [n + 1..<n + 1 + length ops]"
proof -
  let ?z = "zip ops [n + 1..<n + 1 + length ops]"
  from prepare_ops_ok [OF assms(1)] have p: "list_all (prepared_ok d fs) ps" "map po_id ps = map (wal_op_id \<circ> fst) ?z"
      "map po_seq ps = map snd ?z" by simp_all
  show ids: "map po_id ps = map wal_op_id ops" unfolding p(2) map_map [symmetric] by (simp del: upt_Suc map_map)
  then show len: "length ps = length ops" by (metis length_map)
  show seqs: "map po_seq ps = [n + 1..<n + 1 + length ops]" using p(3) by (simp del: upt_Suc)
  show "list_all (prepared_ok d fs) ps" by (rule p(1))
  have "utf8_valid (po_id q)" if "q \<in> set ps" for q
  proof -
    from that have "po_id q \<in> set (map po_id ps)" by simp
    with assms(2) show ?thesis by (auto simp: ids list_all_iff)
  qed
  with p(1) seqs len show "logged n ps" by (auto simp: logged_def prepared_ok_def list_all_iff)
qed


text \<open>What the operations of a batch do to the rows of an index, as a map.\<close>

definition op_effect :: "index_schema \<Rightarrow> wal_op \<Rightarrow> (string \<rightharpoonup> json option) \<Rightarrow> (string \<rightharpoonup> json option)" where
  "op_effect s op m =
     (case op of
        Put i blob \<Rightarrow>
          m(i \<mapsto> stored_body (if has_shadow_fields s \<or> has_ghost_fields s
                             then map_option (\<lambda>b. filter_unstored_fields_owned b s) blob else blob))
      | Delete i \<Rightarrow> m(i := None))"

lemma prepared_effect:
  assumes "prepare_op d fs s (op, seq) = Inr p" "apply_prepared p (wal, rows, fin) = (wal', rows', fin')" "om_inv rows"
  shows "om_inv rows' \<and> om_get rows' = op_effect s op (om_get rows)"
proof (cases op)
  case (Put i blob)
  with assms show ?thesis
    by (auto simp: prepare_op_def Let_def and_then_Ok_iff apply_prepared_def op_effect_def fun_eq_iff)
next
  case (Delete i)
  with assms show ?thesis
    by (auto simp: prepare_op_def Let_def apply_prepared_def op_effect_def fun_eq_iff)
qed

lemma fold_effect:
  assumes "prepare_ops d fs s xs = Inr ps" "fold apply_prepared ps (wal, rows, fin) = (wal', rows', fin')" "om_inv rows"
  shows "om_get rows' = fold (op_effect s) (map fst xs) (om_get rows)"
  using assms
proof (induction xs arbitrary: ps wal rows fin)
  case (Cons x xs)
  obtain op seq where x: "x = (op, seq)" by (cases x)
  from Cons.prems(1) obtain p ps' where ps: "prepare_op d fs s (op, seq) = Inr p" "prepare_ops d fs s xs = Inr ps'" "ps = p # ps'"
    by (auto simp: and_then_Ok_iff x)
  obtain wal1 rows1 fin1 where ap: "apply_prepared p (wal, rows, fin) = (wal1, rows1, fin1)"
    by (cases "apply_prepared p (wal, rows, fin)")
  from prepared_effect [OF ps(1) ap Cons.prems(3)] Cons.IH [OF ps(2), of wal1 rows1 fin1] Cons.prems(2) ap ps(3)
  show ?case by (simp add: x)
qed simp

definition schema_in_force :: "('k, 't) engines \<Rightarrow> config \<Rightarrow> string \<Rightarrow> ('k, 't) hybrid_store \<Rightarrow> index_schema" where
  "schema_in_force e cfg i st =
     (case get_schema_cached e cfg i st of
        (_, Inr (Some s)) \<Rightarrow> s
      | (st1, _) \<Rightarrow> (case get_schema e i st1 of Some s \<Rightarrow> s | None \<Rightarrow> schema_default))"

text \<open>A batch between its transaction and its Tantivy pass.\<close>

definition wrote ::
  "('k, 't) engines \<Rightarrow> config \<Rightarrow> deps \<Rightarrow> string \<Rightarrow> schema_fields \<Rightarrow> wal_op list \<Rightarrow> ('k, 't) hybrid_store \<Rightarrow>
   nat list \<times> final_entry list \<Rightarrow> ('k, 't) hybrid_store \<Rightarrow> bool" where
  "wrote e cfg d i fs ops st x st' \<longleftrightarrow>
     (\<exists>t n. intact e cfg d i t st' \<and> hs_dirs st i = Some t \<and> hs_seq st i = Some n \<and> hs_seq st' i = Some (n + length ops) \<and>
        fst x = [n + 1..<n + 1 + length ops]) \<and>
     others_ok e cfg d i st' \<and> hs_writers st' = hs_writers st \<and>
     finals_ok d fs (tb_data (view e st) i) (tb_data (view e st') i) (snd x) \<and>
     om_get (tb_data (view e st') i) = fold (op_effect (schema_in_force e cfg i st)) ops (om_get (tb_data (view e st) i)) \<and>
     (\<forall>j. j \<noteq> i \<longrightarrow> tb_data (view e st') j = tb_data (view e st) j)"

lemma seq_ok_mono: "seq_ok e t V (Some n) \<Longrightarrow> n \<le> m \<Longrightarrow> m < u64_max \<Longrightarrow> seq_ok e t V (Some m)"
  by (auto simp: seq_ok_def intro: le_trans)

lemma batch_txn_slices:
  "slice_of (batch_txn i ev wal rows T) j = (if j = i then (rows, wal, tb_meta T i) else slice_of T j)"
  "tb_data (batch_txn i ev wal rows T) j = (if j = i then rows else tb_data T j)"
  by (auto simp: slice_of_def batch_txn_def)

lemma schemas_case:
  fixes c :: "('k, 't) hybrid_store"
  shows "\<exists>schemas. (case ev of Some s \<Rightarrow> c\<lparr>hs_schemas := f s\<rparr> | None \<Rightarrow> c) = c\<lparr>hs_schemas := schemas\<rparr>"
  by (cases ev) (auto intro: exI [of _ "hs_schemas c"])

lemma write_batch_run:
  assumes gs: "get_schema_cached e cfg i st = (st1, Inr cached)" and n: "hs_seq st1 i = Some n"
    and room: "n + length ops < u64_max"
    and st2: "st2 = st1\<lparr>hs_seq := (hs_seq st1)(i := Some (n + length ops))\<rparr>"
    and run: "write_batch e cfg d i fs ops st = (st', r)"
  shows "(st' = st2 \<and> (\<exists>x. r = Inl x)) \<or>
    (\<exists>ps wal rows finals ev schemas.
       prepare_ops d fs (schema_in_force e cfg i st) (zip ops [n + 1..<n + 1 + length ops]) = Inr ps \<and>
       fold apply_prepared ps (tb_wal (view e st1) i, tb_data (view e st1) i, []) = (wal, rows, finals) \<and>
       r = Inr (map po_seq ps, finals) \<and>
       st' = (commit_txn e (cf_wal_sync cfg \<or> ev \<noteq> None) (batch_txn i ev wal rows) st2)\<lparr>hs_schemas := schemas\<rparr>)"
proof -
  let ?s = "schema_in_force e cfg i st"
  have s: "?s = (case cached of Some s \<Rightarrow> s | None \<Rightarrow> (case get_schema e i st1 of Some s \<Rightarrow> s | None \<Rightarrow> schema_default))"
    by (simp add: schema_in_force_def gs split: option.split)
  have m: "(n + length ops) mod u64_mod = n + length ops" using room by (simp add: u64_max_def u64_mod_def)
  have v: "view e st2 = view e st1" by (simp add: st2 view_def)
  have eq: "write_batch e cfg d i fs ops st =
      (case prepare_ops d fs ?s (zip ops [n + 1..<n + 1 + length ops]) of
         Inl x \<Rightarrow> (st2, Err x)
       | Inr prepared \<Rightarrow>
           case fold apply_prepared prepared (tb_wal (view e st1) i, tb_data (view e st1) i, []) of
             (wal, rows, finals) \<Rightarrow>
               (case evolved_schema d ops ?s of
                  Some s' \<Rightarrow> (commit_txn e (cf_wal_sync cfg \<or> evolved_schema d ops ?s \<noteq> None) (batch_txn i (evolved_schema d ops ?s) wal rows) st2)\<lparr>hs_schemas :=
                    (hs_schemas (commit_txn e (cf_wal_sync cfg \<or> evolved_schema d ops ?s \<noteq> None) (batch_txn i (evolved_schema d ops ?s) wal rows) st2))(i := Some s')\<rparr>
                | None \<Rightarrow> commit_txn e (cf_wal_sync cfg \<or> evolved_schema d ops ?s \<noteq> None) (batch_txn i (evolved_schema d ops ?s) wal rows) st2,
                Ok (map po_seq prepared, finals)))"
    unfolding write_batch_def gs prod.case sum.case Let_def n option.case reserved_sequences [OF room] m
      st2 [symmetric] s [symmetric] v ..
  show ?thesis
  proof (cases "prepare_ops d fs ?s (zip ops [n + 1..<n + 1 + length ops])")
    case (Inl x)
    with run show ?thesis unfolding eq by (auto simp del: upt_Suc)
  next
    case (Inr ps)
    obtain wal rows finals where f: "fold apply_prepared ps (tb_wal (view e st1) i, tb_data (view e st1) i, []) = (wal, rows, finals)"
      by (rule prod_cases3)
    let ?ev = "evolved_schema d ops ?s"
    let ?c = "commit_txn e (cf_wal_sync cfg \<or> ?ev \<noteq> None) (batch_txn i ?ev wal rows) st2"
    from run have "r = Inr (map po_seq ps, finals)" and
        "(case ?ev of Some s' \<Rightarrow> ?c\<lparr>hs_schemas := (hs_schemas ?c)(i := Some s')\<rparr> | None \<Rightarrow> ?c) = st'"
      unfolding eq Inr sum.case f prod.case by simp_all
    moreover from schemas_case [where ev = ?ev and c = ?c and f = "\<lambda>s'. (hs_schemas ?c)(i := Some s')"] obtain schemas where
        "(case ?ev of Some s' \<Rightarrow> ?c\<lparr>hs_schemas := (hs_schemas ?c)(i := Some s')\<rparr> | None \<Rightarrow> ?c) = ?c\<lparr>hs_schemas := schemas\<rparr>" ..
    ultimately have "r = Inr (map po_seq ps, finals)" "\<exists>schemas. st' = ?c\<lparr>hs_schemas := schemas\<rparr>" by metis+
    with Inr f show ?thesis by blast
  qed
qed

lemma write_batch_ok:
  assumes ok: "engines_ok e" and st: "store_ok e cfg d st" and op: "opened e i fs st" and w: "writable i ops st"
    and run: "write_batch e cfg d i fs ops st = (st', r)"
  shows "case r of Inl _ \<Rightarrow> store_ok e cfg d st' \<and> same_rows e st st' | Inr x \<Rightarrow> wrote e cfg d i fs ops st x st'"
proof -
  from op have wr: "hs_writers st i" by (simp add: opened_def)
  from open_index [OF st wr] obtain t n where t1: "hs_dirs st i = Some t"
    and n: "hs_seq st i = Some n" and int: "intact e cfg d i t st" and live: "live_ok e d t (slice_of (view e st) i)" .
  from t1 op have t: "hs_dirs st i = Some t" "load_fields (tv_columns e t) = Inr fs" by (simp_all add: opened_def)
  have room: "n + length ops < u64_max" and utf: "list_all (\<lambda>op. utf8_valid (wal_op_id op)) ops"
    using w n by (auto simp: writable_def)
  obtain st1 r1 where gs: "get_schema_cached e cfg i st = (st1, r1)" by (cases "get_schema_cached e cfg i st")
  note g = get_schema_cached_ok [OF gs] and frame = get_schema_cached_frame [OF gs]
  have seq1: "hs_seq st1 = hs_seq st" and wr1: "hs_writers st1 = hs_writers st" by (subst frame, simp)+
  have st1: "store_ok e cfg d st1" using st g(7) framed_index_ok [OF g(7)] by (auto simp: store_ok_def durable_ok_def g(3,4))
  show ?thesis
  proof (cases r1)
    case (Inl x)
    with run gs st1 g(3) show ?thesis by (auto simp: write_batch_def same_rows_def)
  next
    case (Inr cached)
    define st2 where st2: "st2 = st1\<lparr>hs_seq := (hs_seq st1)(i := Some (n + length ops))\<rparr>"
    have sel: "view e st2 = view e st" "disk e st2 = disk e st" "hs_dirs st2 = hs_dirs st" "hs_writers st2 = hs_writers st"
        "hs_seq st2 = (hs_seq st)(i := Some (n + length ops))"
      using g(3,4,5) seq1 wr1 by (simp_all add: st2)
    have dur: "durable_ok e cfg st2" using st by (simp add: store_ok_def durable_ok_def sel)
    have oth2: "others_ok e cfg d i st2"
      by (rule framed_others [OF dur store_others [OF st]]) (simp add: framed_def sel)
    have seq: "seq_ok e t (slice_of (view e st) i) (Some n)" using int n by (simp add: intact_def)
    from write_batch_run [OF gs [unfolded Inr] _ room st2 run] n seq1
    consider (err) x where "st' = st2" "r = Inl x"
      | (wrt) ps wal rows finals ev schemas where
       "prepare_ops d fs (schema_in_force e cfg i st) (zip ops [n + 1..<n + 1 + length ops]) = Inr ps"
       "fold apply_prepared ps (tb_wal (view e st1) i, tb_data (view e st1) i, []) = (wal, rows, finals)"
       "r = Inr (map po_seq ps, finals)"
       "st' = (commit_txn e (cf_wal_sync cfg \<or> ev \<noteq> None) (batch_txn i ev wal rows) st2)\<lparr>hs_schemas := schemas\<rparr>"
      by auto
    then show ?thesis
    proof cases
      case err
      have "index_ok_in e d st2 i"
        using int live seq_ok_mono [OF seq _ room] wr t(1) by (simp add: index_ok_def sel intact_def)
      with oth2 err sel show ?thesis by (auto simp: same_rows_def intro: others_and_one)
    next
      case wrt
      note pl = prepared_logged [OF wrt(1) utf]
      have cr: "crash_ok e d t (slice_of (view e st) i) (slice_of (disk e st) i)" using int by (simp add: intact_def)
      then have inv: "om_inv (tb_data (view e st) i)" "om_inv (tb_wal (view e st) i)"
        by (auto simp: crash_ok_def slice_wf_def)
      have mx: "get_max_wal_id_for_index (tb_wal (view e st) i) \<le> n"
        using seq cr by (auto simp: crash_ok_def seq_ok_def high_water_def)
      note so = sorted_logged [OF pl(1) inv(2) mx]
      have f0: "finals_ok d fs (tb_data (view e st) i) (tb_data (view e st) i) []" using inv by (simp add: finals_ok_def)
      from fold_prepared_ok [OF f0 pl(2) so(1,2) wrt(2) [unfolded g(3)]] have fk:
          "finals_ok d fs (tb_data (view e st) i) rows finals" "wal = tb_wal (view e st) i @ map (\<lambda>p. (po_seq p, po_wal p)) ps"
          "fe_id ` set finals = po_id ` set ps" by simp_all
      have V': "(rows, wal, tb_meta (view e st) i) =
          (rows, sl_wal (slice_of (view e st) i) @ map (\<lambda>p. (po_seq p, po_wal p)) ps, sl_meta (slice_of (view e st) i))"
        by (simp add: fk(2))
      have rm: "n + length ps < u64_max" using room pl(3) by simp
      note cw = crash_ok_write [OF cr seq rm t(2) pl(1) V' _ fk(3)]
      have cw': "crash_ok e d t (rows, wal, tb_meta (view e st) i) (rows, wal, tb_meta (view e st) i)"
          "crash_ok e d t (rows, wal, tb_meta (view e st) i) (slice_of (disk e st) i)"
          "seq_ok e t (rows, wal, tb_meta (view e st) i) (Some (n + length ops))"
        using cw fk(1) pl(3) by simp_all
      have vw: "view e st' = batch_txn i ev wal rows (view e st)" using ok by (simp add: wrt(4) sel)
      have dk: "slice_of (disk e st') j = (if cf_wal_sync cfg \<or> ev \<noteq> None then slice_of (batch_txn i ev wal rows (view e st)) j
          else slice_of (disk e st) j)" for j
        using ok by (simp add: wrt(4) commit_txn_disk sel)
      have d3: "durable_ok e cfg st'"
        unfolding wrt(4) using commit_txn_durable [OF ok dur, of "cf_wal_sync cfg \<or> ev \<noteq> None" "batch_txn i ev wal rows"]
        by (simp add: durable_ok_def)
      have "framed e j st2 st'" if "j \<noteq> i" for j
        using that ok by (simp add: framed_def wrt(4) commit_txn_disk sel batch_txn_slices)
      then have oth: "others_ok e cfg d i st'" using framed_others [OF d3 oth2] by blast
      have "intact e cfg d i t st'"
        using d3 cw' t(1) unfolding intact_def vw dk by (simp add: wrt(4) sel batch_txn_slices)
      moreover have "om_get rows = fold (op_effect (schema_in_force e cfg i st)) ops (om_get (tb_data (view e st) i))"
        using fold_effect [OF wrt(1) wrt(2) [unfolded g(3)] inv(1)] by (simp del: upt_Suc)
      moreover have "hs_seq st' i = Some (n + length ops)" "hs_writers st' = hs_writers st" by (simp_all add: wrt(4) sel)
      ultimately show ?thesis
        using oth fk(1) t(1) n pl(5) by (simp add: wrote_def wrt(3) vw batch_txn_slices del: upt_Suc)
    qed
  qed
qed


section \<open>The Tantivy pass\<close>

lemma index_finals_dead: "fst (snd (index_finals e fs xs t True n)) \<and> fst (index_finals e fs xs t True n) = t"
  by (induction xs arbitrary: n) (simp_all add: Let_def)

text \<open>One identifier: the version before it removed where there was one, its last put added.\<close>

lemma index_final_step:
  assumes ok: "engines_ok e" and ap: "fields_apart fs"
    and row0: "row_indexed d fs (fe_id x) row0 (tv_buffered e t)" and ex: "fe_existed_before x \<longleftrightarrow> row0 \<noteq> None"
    and t1: "t1 = (if fe_existed_before x \<or> fe_op x = DropDoc then tv_delete_term e (sf_id fs) (fe_id x) t else t)"
  shows "same_committed e t t1" "docs_of fs (fe_id x) (tv_buffered e t1) = {#}"
    "\<And>j row. j \<noteq> fe_id x \<Longrightarrow> row_indexed d fs j row (tv_buffered e t) \<Longrightarrow> row_indexed d fs j row (tv_buffered e t1)"
proof -
  show "same_committed e t t1" by (simp add: t1 same_committed_intros [OF ok])
  show "docs_of fs (fe_id x) (tv_buffered e t1) = {#}"
    using row0 ex by (auto simp: t1 tv_delete_laws [OF ok] docs_of_delete_self row_indexed_def)
  show "row_indexed d fs j row (tv_buffered e t1)" if "j \<noteq> fe_id x" "row_indexed d fs j row (tv_buffered e t)" for j row
    using row_indexed_delete_other [OF that(2,1) ap] that(2) by (auto simp: t1 tv_delete_laws [OF ok])
qed

lemma index_finals_ok:
  assumes ok: "engines_ok e" and ap: "fields_apart fs" and dist: "distinct (map fe_id xs)"
    and pend: "\<forall>x \<in> set xs. row_indexed d fs (fe_id x) (rows0 (fe_id x)) (tv_buffered e t) \<and>
        (fe_existed_before x \<longleftrightarrow> rows0 (fe_id x) \<noteq> None) \<and> final_matches d fs (fe_id x) (rows (fe_id x)) (fe_op x)"
    and rest: "\<forall>j. j \<notin> fe_id ` set xs \<longrightarrow> row_indexed d fs j (rows j) (tv_buffered e t)"
    and run: "index_finals e fs xs t False n = (t', died, m)"
  shows "same_committed e t t' \<and> (\<not> died \<longrightarrow> (\<forall>j. row_indexed d fs j (rows j) (tv_buffered e t')))"
  using dist pend rest run
proof (induction xs arbitrary: t n)
  case (Cons x xs)
  define t1 where t1: "t1 = (if fe_existed_before x \<or> fe_op x = DropDoc then tv_delete_term e (sf_id fs) (fe_id x) t else t)"
  from Cons.prems(2) have row0: "row_indexed d fs (fe_id x) (rows0 (fe_id x)) (tv_buffered e t)"
    and ex: "fe_existed_before x \<longleftrightarrow> rows0 (fe_id x) \<noteq> None" and fm: "final_matches d fs (fe_id x) (rows (fe_id x)) (fe_op x)"
    by (metis list.set_intros(1))+
  note f = index_final_step [OF ok ap row0 ex t1]
  have step: "same_committed e t t2 \<Longrightarrow> row_indexed d fs (fe_id x) (rows (fe_id x)) (tv_buffered e t2) \<Longrightarrow>
      (\<And>j row. j \<noteq> fe_id x \<Longrightarrow> row_indexed d fs j row (tv_buffered e t) \<Longrightarrow> row_indexed d fs j row (tv_buffered e t2)) \<Longrightarrow>
      index_finals e fs xs t2 False k = (t', died, m) \<Longrightarrow> ?case" for t2 k
  proof -
    assume a: "same_committed e t t2" "row_indexed d fs (fe_id x) (rows (fe_id x)) (tv_buffered e t2)"
      and o: "\<And>j row. j \<noteq> fe_id x \<Longrightarrow> row_indexed d fs j row (tv_buffered e t) \<Longrightarrow> row_indexed d fs j row (tv_buffered e t2)"
      and r: "index_finals e fs xs t2 False k = (t', died, m)"
    have 1: "\<forall>y \<in> set xs. row_indexed d fs (fe_id y) (rows0 (fe_id y)) (tv_buffered e t2) \<and>
        (fe_existed_before y \<longleftrightarrow> rows0 (fe_id y) \<noteq> None) \<and> final_matches d fs (fe_id y) (rows (fe_id y)) (fe_op y)"
    proof
      fix y assume y: "y \<in> set xs"
      with Cons.prems(1) have "fe_id y \<noteq> fe_id x" by (auto simp: image_iff)
      from o [OF this] Cons.prems(2) y show "row_indexed d fs (fe_id y) (rows0 (fe_id y)) (tv_buffered e t2) \<and>
        (fe_existed_before y \<longleftrightarrow> rows0 (fe_id y) \<noteq> None) \<and> final_matches d fs (fe_id y) (rows (fe_id y)) (fe_op y)" by auto
    qed
    have 2: "\<forall>j. j \<notin> fe_id ` set xs \<longrightarrow> row_indexed d fs j (rows j) (tv_buffered e t2)"
    proof (intro allI impI)
      fix j assume j: "j \<notin> fe_id ` set xs"
      show "row_indexed d fs j (rows j) (tv_buffered e t2)"
      proof (cases "j = fe_id x")
        case False
        with j have "j \<notin> fe_id ` set (x # xs)" by simp
        with Cons.prems(3) have "row_indexed d fs j (rows j) (tv_buffered e t)" by blast
        with False show ?thesis by (rule o)
      qed (use a(2) in simp)
    qed
    have "distinct (map fe_id xs)" using Cons.prems(1) by simp
    from Cons.IH [OF this 1 2 r] show ?thesis using same_committed_trans [OF a(1)] by metis
  qed
  show ?case
  proof (cases "fe_op x")
    case DropDoc
    with fm f(2) have "row_indexed d fs (fe_id x) (rows (fe_id x)) (tv_buffered e t1)" by (simp add: final_matches_def row_indexed_def)
    moreover have "index_finals e fs xs t1 False n = (t', died, m)"
      using Cons.prems(4) DropDoc by (simp add: Let_def t1)
    ultimately show ?thesis using step [OF f(1) _ f(3)] by blast
  next
    case (AddDoc doc)
    with fm obtain s seq body where b: "rows (fe_id x) = Some body" "document d fs s (fe_id x) seq body SkipAndWarn = Inr doc"
      by (auto simp: final_matches_def)
    show ?thesis
    proof (cases "tv_add_document e doc t1")
      case None
      let ?k = "if fe_existed_before x then n else Suc n"
      from Cons.prems(4) AddDoc None have "index_finals e fs xs t1 True ?k = (t', died, m)" by (simp add: Let_def t1 split: if_splits)
      with index_finals_dead [of e fs xs t1 ?k] f(1) show ?thesis by simp
    next
      case (Some t2)
      note l = tv_add_laws [OF ok Some]
      have c: "same_committed e t t2" by (rule same_committed_trans [OF f(1)]) (simp add: same_committed_def l)
      have s: "row_indexed d fs (fe_id x) (rows (fe_id x)) (tv_buffered e t2)"
        unfolding b(1) l by (rule row_indexed_add_self [OF f(2) ap b(2)])
      have o: "row_indexed d fs j row (tv_buffered e t2)" if "j \<noteq> fe_id x" "row_indexed d fs j row (tv_buffered e t)" for j row
        unfolding l by (rule row_indexed_add_other [OF f(3) [OF that] that(1) ap b(2)])
      from Cons.prems(4) AddDoc Some have "\<exists>k. index_finals e fs xs t2 False k = (t', died, m)"
        by (auto simp: Let_def t1 split: if_splits)
      with step [OF c s o] show ?thesis by blast
    qed
  qed
qed (simp add: same_committed_def)


section \<open>A batch\<close>

lemma reopen_after_dead_writer_ok:
  assumes ok: "engines_ok e" and "intact e cfg d i t st" "hs_writers st i" "others_ok e cfg d i st"
    "reopen_after_dead_writer e cfg d busy i st = (st', r)"
  shows "store_ok e cfg d st'" "same_rows e st st'"
proof -
  note d = drop_intact_writer [OF assms(1-4)]
  from reopen_attempts_ok [OF ok d(1), of busy i 2 st' r] assms(5) d(2)
  show "store_ok e cfg d st'" "same_rows e st st'"
    by (auto simp: reopen_after_dead_writer_def intro: same_rows_trans)
qed

lemma operations_irrelevant [simp]:
  "store_ok e cfg d (add_operations i n st) = store_ok e cfg d st"
  "same_rows e st' (add_operations i n st) = same_rows e st' st"
  "tb_data (view e (add_operations i n st)) = tb_data (view e st)"
  by (simp_all add: add_operations_def store_ok_def durable_ok_def same_rows_def)

text \<open>The index a batch finds or opens, with the counter its sequences are taken from.\<close>

definition has_room ::
  "('k, 't) engines \<Rightarrow> config \<Rightarrow> deps \<Rightarrow> (string \<Rightarrow> bool) \<Rightarrow> string \<Rightarrow> wal_op list \<Rightarrow> ('k, 't) hybrid_store \<Rightarrow> bool" where
  "has_room e cfg d busy i ops st = writable i ops (fst (get_or_create_index_locked e cfg d busy i st))"

definition applied ::
  "('k, 't) engines \<Rightarrow> config \<Rightarrow> string \<Rightarrow> wal_op list \<Rightarrow> ('k, 't) hybrid_store \<Rightarrow> nat list \<Rightarrow> tables \<Rightarrow> tables \<Rightarrow> bool" where
  "applied e cfg i ops st1 seqs T T' \<longleftrightarrow>
     (\<exists>n. hs_seq st1 i = Some n \<and> seqs = [n + 1..<n + 1 + length ops]) \<and>
     om_get (tb_data T' i) = fold (op_effect (schema_in_force e cfg i st1)) ops (om_get (tb_data T i)) \<and>
     (\<forall>j. j \<noteq> i \<longrightarrow> tb_data T' j = tb_data T j)"

lemma index_finals_store:
  assumes ok: "engines_ok e" and st: "store_ok e cfg d st" and op: "opened e i fs st" and w: "wrote e cfg d i fs ops st (seqs, finals) st'"
    and t: "hs_dirs st' i = Some t" and run: "index_finals e fs finals t False 0 = (t', died, m)"
  shows "intact e cfg d i t' (set_dir i t' st')" "others_ok e cfg d i (set_dir i t' st')" "hs_writers (set_dir i t' st') i"
    "\<not> died \<Longrightarrow> store_ok e cfg d (set_dir i t' st')" "same_rows e st' (set_dir i t' st')"
proof -
  from op have wr: "hs_writers st i" by (simp add: opened_def)
  from w t have int: "intact e cfg d i t st'" and dir: "hs_dirs st i = Some t" by (auto simp: wrote_def intact_def)
  from w have oth: "others_ok e cfg d i st'" and wr': "hs_writers st' i" and sq: "hs_seq st' i \<noteq> None"
    and fin: "finals_ok d fs (tb_data (view e st) i) (tb_data (view e st') i) finals"
    using wr by (auto simp: wrote_def)
  from open_index [OF st wr] dir have live: "live_ok e d t (slice_of (view e st) i)" by (metis option.inject)
  from op dir have fs: "load_fields (tv_columns e t) = Inr fs" by (simp add: opened_def)
  then have ap: "fields_apart fs" by (rule load_fields_apart)
  let ?old = "om_get (tb_data (view e st) i)" and ?new = "om_get (tb_data (view e st') i)"
  have li: "row_indexed d fs j (?old j) (tv_buffered e t)" for j using live fs by (auto simp: live_ok_def)
  have dist: "distinct (map fe_id finals)" using fin by (simp add: finals_ok_def)
  have pend: "\<forall>x \<in> set finals. row_indexed d fs (fe_id x) (?old (fe_id x)) (tv_buffered e t) \<and>
        (fe_existed_before x \<longleftrightarrow> ?old (fe_id x) \<noteq> None) \<and> final_matches d fs (fe_id x) (?new (fe_id x)) (fe_op x)"
    using li fin unfolding finals_ok_def by blast
  have rest: "\<forall>j. j \<notin> fe_id ` set finals \<longrightarrow> row_indexed d fs j (?new j) (tv_buffered e t)"
    using li fin unfolding finals_ok_def by metis
  note f = index_finals_ok [OF ok ap dist pend rest run]
  let ?st = "set_dir i t' st'"
  have sel: "view e ?st = view e st'" "disk e ?st = disk e st'" "hs_seq ?st = hs_seq st'" "hs_writers ?st = hs_writers st'"
      "hs_dirs ?st = (hs_dirs st')(i := Some t')" by (simp_all add: set_dir_def)
  have c: "same_committed e t t'" using f by blast
  show int': "intact e cfg d i t' ?st"
    using int by (simp add: intact_def durable_ok_def sel crash_ok_committed [OF c] seq_ok_committed [OF c])
  have dur: "durable_ok e cfg ?st" using int' by (simp add: intact_def)
  show oth': "others_ok e cfg d i ?st" by (rule framed_others [OF dur oth]) (simp add: framed_def sel)
  show "hs_writers ?st i" "same_rows e st' ?st" using wr' by (simp_all add: sel same_rows_def)
  show "store_ok e cfg d ?st" if "\<not> died"
  proof (rule others_and_one [OF oth'])
    have "tv_columns e t' = tv_columns e t" using c by (simp add: same_committed_def)
    then have "live_ok e d t' (slice_of (view e st') i)" using f that fs by (simp add: live_ok_def)
    then show "index_ok_in e d ?st i"
      using index_ok_intact [OF dur, of i t' d] int' wr' sq by (simp add: sel)
  qed
qed

lemma apply_batch_ok:
  assumes ok: "engines_ok e" and st: "store_ok e cfg d st" and room: "has_room e cfg d busy i ops st"
    and run: "apply_batch e cfg d busy i ops st = (st', r)"
  shows "store_ok e cfg d st'"
    "same_rows e st st' \<or> (\<exists>seqs. applied e cfg i ops (fst (get_or_create_index_locked e cfg d busy i st)) seqs (view e st) (view e st'))"
    "r = Inr (seqs, m) \<Longrightarrow> ops \<noteq> [] \<Longrightarrow> applied e cfg i ops (fst (get_or_create_index_locked e cfg d busy i st)) seqs (view e st) (view e st')"
proof -
  obtain st1 r1 where go: "get_or_create_index_locked e cfg d busy i st = (st1, r1)" by (cases "get_or_create_index_locked e cfg d busy i st")
  note g = get_or_create_index_locked_ok [OF ok st go]
  have st1: "store_ok e cfg d st1" and sr1: "same_rows e st st1" using g by auto
  have w: "writable i ops st1" using room by (simp add: has_room_def go)
  have "store_ok e cfg d st' \<and> (same_rows e st st' \<or> (\<exists>seqs. applied e cfg i ops st1 seqs (view e st) (view e st'))) \<and>
    (\<forall>seqs m. r = Inr (seqs, m) \<longrightarrow> ops \<noteq> [] \<longrightarrow> applied e cfg i ops st1 seqs (view e st) (view e st'))"
  proof (cases "ops = [] \<or> list_all is_delete ops \<and> \<not> index_exists e i st \<or> index_was_dropped e i st")
    case True
    with run st show ?thesis by (auto simp: apply_batch_def split: if_splits)
  next
    case body: False
    show ?thesis
    proof (cases r1)
      case (Inl x)
      with body run go st1 sr1 show ?thesis by (auto simp: apply_batch_def)
    next
      case (Inr fs)
      with g have op: "opened e i fs st1" by blast
      obtain st2 r2 where wb: "write_batch e cfg d i fs ops st1 = (st2, r2)" by (cases "write_batch e cfg d i fs ops st1")
      note wk = write_batch_ok [OF ok st1 op w wb]
      show ?thesis
      proof (cases r2)
        case (Inl x)
        with body run go Inr wb wk same_rows_trans [OF sr1] show ?thesis by (auto simp: apply_batch_def)
      next
        case r2: (Inr x)
        obtain seqs finals where x: "x = (seqs, finals)" by (cases x)
        with wk r2 have wrt: "wrote e cfg d i fs ops st1 (seqs, finals) st2" by simp
        then obtain t where t: "hs_dirs st2 i = Some t" by (auto simp: wrote_def intact_def)
        obtain t' died m where fi: "index_finals e fs finals t False 0 = (t', died, m)" by (rule prod_cases3)
        note fk = index_finals_store [OF ok st1 op wrt t fi]
        have ap: "applied e cfg i ops st1 seqs (view e st) (view e st'')" if "same_rows e st2 st''" for st''
          using wrt that sr1 by (auto simp: wrote_def applied_def same_rows_def)
        have eq: "(if died then (case reopen_after_dead_writer e cfg d busy i (set_dir i t' st2) of
               (st4, Inl x) \<Rightarrow> (st4, Err x) | (st4, Inr _) \<Rightarrow> (st4, Ok (seqs, m)))
             else (add_operations i (length ops) (set_dir i t' st2), Ok (seqs, m))) = (st', r)"
          using run body unfolding apply_batch_def go Inr wb r2 x prod.case sum.case t option.case fi Let_def
          by (simp only: de_Morgan_disj if_False split: if_splits)
        show ?thesis
        proof (cases died)
          case False
          with eq have "st' = add_operations i (length ops) (set_dir i t' st2)" "r = Inr (seqs, m)"
            by simp_all
          with fk(4) [OF False] fk(5) ap [of st'] show ?thesis by auto
        next
          case True
          obtain st4 r4 where re: "reopen_after_dead_writer e cfg d busy i (set_dir i t' st2) = (st4, r4)"
            by (cases "reopen_after_dead_writer e cfg d busy i (set_dir i t' st2)")
          note rk = reopen_after_dead_writer_ok [OF ok fk(1,3,2) re]
          from True eq re have "st' = st4" "\<forall>seqs' m'. r = Inr (seqs', m') \<longrightarrow> seqs' = seqs" by (cases r4; auto)+
          with rk(1) ap [OF same_rows_trans [OF fk(5) rk(2)]] show ?thesis by blast
        qed
      qed
    qed
  qed
  then show "store_ok e cfg d st'"
    "same_rows e st st' \<or> (\<exists>seqs. applied e cfg i ops (fst (get_or_create_index_locked e cfg d busy i st)) seqs (view e st) (view e st'))"
    "r = Inr (seqs, m) \<Longrightarrow> ops \<noteq> [] \<Longrightarrow> applied e cfg i ops (fst (get_or_create_index_locked e cfg d busy i st)) seqs (view e st) (view e st')"
    unfolding go fst_conv by blast+
qed

end
