(* ===== verification/Store_Steps.thy ===== *)
theory Store_Steps
  imports Store_Write
begin

text \<open>
  The store as a transition system: its operations, a crash at any moment between two of them, a crash
  between the transaction of a batch and its Tantivy pass, and one between a Tantivy commit and the record
  of it. Every state reached from an empty store satisfies the invariant.
\<close>

section \<open>The remaining operations\<close>

lemma keeps_same_rows:
  assumes "keeps e cfg d i st st'" "tb_data (view e st') i = tb_data (view e st) i"
  shows "same_rows e st st'"
  unfolding same_rows_def
proof
  fix j
  show "tb_data (view e st') j = tb_data (view e st) j"
    using assms framed_rows [of e j st st'] by (cases "j = i") (simp_all add: keeps_def)
qed

lemma commit_quietly_store:
  assumes ok: "engines_ok e" and st: "store_ok e cfg d st" and wr: "hs_writers st i"
  shows "store_ok e cfg d (commit_quietly e cfg i st)" "same_rows e st (commit_quietly e cfg i st)"
proof -
  from st have dur: "durable_ok e cfg st" and idx: "index_ok_in e d st i" by (simp_all add: store_ok_def)
  note k = commit_quietly_ok [OF ok dur idx wr]
  show "store_ok e cfg d (commit_quietly e cfg i st)" by (rule keeps_store_ok [OF st k(1)])
  show "same_rows e st (commit_quietly e cfg i st)" by (rule keeps_same_rows [OF k])
qed

text \<open>What a commit leaves: the documents of Tantivy are those of the rows, for every identifier.\<close>

definition searchable :: "('k, 't) engines \<Rightarrow> deps \<Rightarrow> string \<Rightarrow> ('k, 't) hybrid_store \<Rightarrow> bool" where
  "searchable e d i st \<longleftrightarrow>
     (\<exists>t fs. hs_dirs st i = Some t \<and> load_fields (tv_columns e t) = Inr fs \<and>
        (\<forall>j. row_indexed d fs j (om_get (tb_data (view e st) i) j) (tv_docs e t)))"

lemma commit_locked_searchable:
  assumes ok: "engines_ok e" and st: "store_ok e cfg d st" and wr: "hs_writers st i"
    and run: "commit_locked_writer e cfg i st = (st1, Inr q)"
  shows "store_ok e cfg d (checkpoint_after_commit e i q st1)" "same_rows e st (checkpoint_after_commit e i q st1)"
    "searchable e d i (checkpoint_after_commit e i q st1)"
    "tb_data (disk e (checkpoint_after_commit e i q st1)) i = tb_data (view e st) i"
proof -
  let ?st = "checkpoint_after_commit e i q st1"
  from st have dur: "durable_ok e cfg st" and idx: "index_ok_in e d st i" by (simp_all add: store_ok_def)
  note c = commit_locked_writer_ok [OF ok dur idx wr run]
  from c(7) [OF refl] obtain t n where tn: "q = Some n" "hs_dirs st1 i = Some t" "intact e cfg d i t st1"
      "live_ok e d t (slice_of (view e st1) i)" "tv_docs e t = tv_buffered e t" "hs_seq st1 i = Some n"
      "checkpoint_is e (slice_of (view e st1) i) t n" by blast
  have wr1: "hs_writers st1 i" using wr c(2) by simp
  note k = checkpoint_after_commit_ok [OF ok tn(3,4) wr1 tn(6,7)]
  show "store_ok e cfg d ?st" unfolding tn(1) by (rule keeps_store_ok [OF keeps_store_ok [OF st c(1)] k(1)])
  show "same_rows e st ?st" using keeps_same_rows [OF k(1,2)] c(4) by (simp add: tn(1) same_rows_def)
  show "searchable e d i ?st"
    using tn(4,5) k(2,3) c(4) by (auto simp: searchable_def live_ok_def tn(1))
  from c(6) c(4) have "tb_data (disk e st1) i = tb_data (view e st) i" by simp
  then show "tb_data (disk e ?st) i = tb_data (view e st) i"
    using ok c(4) by (simp add: tn(1) checkpoint_after_commit_def checkpoint_committed_def commit_txn_disk truncate_wal_def)
qed


lemma commit_failed:
  assumes ok: "engines_ok e" and st: "store_ok e cfg d st" and wr: "hs_writers st i"
    and run: "commit_locked_writer e cfg i st = (st1, r)"
  shows "store_ok e cfg d st1" "same_rows e st st1" "hs_writers st1 i"
proof -
  from st have dur: "durable_ok e cfg st" and idx: "index_ok_in e d st i" by (simp_all add: store_ok_def)
  note c = commit_locked_writer_ok [OF ok dur idx wr run]
  show "store_ok e cfg d st1" by (rule keeps_store_ok [OF st c(1)])
  show "same_rows e st st1" "hs_writers st1 i" using c(2,4) wr by (simp_all add: same_rows_def)
qed

lemma reopen_store_ok:
  assumes ok: "engines_ok e" and st: "store_ok e cfg d st" and wr: "hs_writers st i"
    and run: "reopen_after_dead_writer e cfg d busy i st = (st', r)"
  shows "store_ok e cfg d st'" "same_rows e st st'"
proof -
  from open_index [OF st wr] obtain t where int: "intact e cfg d i t st" by blast
  show "store_ok e cfg d st'" "same_rows e st st'"
    by (rule reopen_after_dead_writer_ok [OF ok int wr store_others [OF st] run])+
qed

lemma commit_index_ok:
  assumes ok: "engines_ok e" and st: "store_ok e cfg d st" and run: "commit_index e cfg d busy i st = (st', r)"
  shows "store_ok e cfg d st'" "same_rows e st st'"
    "r = Inr () \<Longrightarrow> 0 < get_operations_count i st \<Longrightarrow>
      searchable e d i st' \<and> tb_data (disk e st') i = tb_data (view e st) i"
proof -
  let ?open = "if hs_writers st i then (st, Ok ()) else case get_or_create_index e cfg d busy i st of
                     (st1, Inl x) \<Rightarrow> (st1, Err x) | (st1, Inr _) \<Rightarrow> (st1, Ok ())"
  obtain st1 r1 where o: "?open = (st1, r1)" by (cases ?open)
  have g: "store_ok e cfg d st1 \<and> same_rows e st st1 \<and> (r1 = Inr () \<longrightarrow> hs_writers st1 i)"
  proof (cases "hs_writers st i")
    case False
    obtain st2 r2 where "get_or_create_index e cfg d busy i st = (st2, r2)" by (cases "get_or_create_index e cfg d busy i st")
    with get_or_create_index_ok [OF ok st this] o False show ?thesis by (cases r2) (auto simp: opened_def)
  qed (use o st in auto)
  then have st1: "store_ok e cfg d st1" and sr1: "same_rows e st st1" by simp_all
  have "store_ok e cfg d st' \<and> same_rows e st st' \<and> (r = Inr () \<longrightarrow> 0 < get_operations_count i st \<longrightarrow>
      searchable e d i st' \<and> tb_data (disk e st') i = tb_data (view e st) i)"
  proof (cases "get_operations_count i st = 0")
    case True
    with run st show ?thesis by (auto simp: commit_index_def)
  next
    case False
    show ?thesis
    proof (cases r1)
      case (Inl x)
      with False run o g show ?thesis by (auto simp: commit_index_def)
    next
      case (Inr u)
      then have r1: "r1 = Inr ()" and wr: "hs_writers st1 i" using g by simp_all
      obtain st2 r2 where c: "commit_locked_writer e cfg i st1 = (st2, r2)" by (cases "commit_locked_writer e cfg i st1")
      show ?thesis
      proof (cases r2)
        case (Inl x)
        obtain st3 r3 where re: "reopen_after_dead_writer e cfg d busy i st2 = (st3, r3)"
          by (cases "reopen_after_dead_writer e cfg d busy i st2")
        note f = commit_failed [OF ok st1 wr c]
        note k = reopen_store_ok [OF ok f(1,3) re]
        from False run o r1 c Inl re have "st' = st3" "r = Inl x" by (auto simp: commit_index_def)
        with k same_rows_trans [OF sr1 same_rows_trans [OF f(2) k(2)]] show ?thesis by simp
      next
        case r2: (Inr q)
        note k = commit_locked_searchable [OF ok st1 wr c [unfolded r2]]
        from False run o r1 c r2 have "st' = checkpoint_after_commit e i q st2" by (auto simp: commit_index_def)
        with k same_rows_trans [OF sr1 k(2)] sr1 show ?thesis by (simp add: same_rows_def)
      qed
    qed
  qed
  then show "store_ok e cfg d st'" "same_rows e st st'"
    "r = Inr () \<Longrightarrow> 0 < get_operations_count i st \<Longrightarrow>
      searchable e d i st' \<and> tb_data (disk e st') i = tb_data (view e st) i" by blast+
qed

lemma close_store_ok:
  assumes "engines_ok e" "store_ok e cfg d st" "close_index e cfg busy i st = (st', b)"
  shows "store_ok e cfg d st'" "same_rows e st st'"
proof -
  from assms(2) have "durable_ok e cfg st" "index_ok_in e d st i" by (simp_all add: store_ok_def)
  note k = close_index_ok [OF assms(1) this assms(3)]
  show "store_ok e cfg d st'" by (rule keeps_store_ok [OF assms(2) k(1)])
  show "same_rows e st st'" by (rule keeps_same_rows [OF k(1,2)])
qed

lemma force_remove_store_ok:
  assumes "engines_ok e" "store_ok e cfg d st"
  shows "store_ok e cfg d (drop_writer e i st)" "same_rows e st (drop_writer e i st)"
proof -
  from assms(2) have "durable_ok e cfg st" "index_ok_in e d st i" by (simp_all add: store_ok_def)
  note k = drop_writer_ok [OF assms(1) this]
  show "store_ok e cfg d (drop_writer e i st)" by (rule keeps_store_ok [OF assms(2) k(1)])
  show "same_rows e st (drop_writer e i st)" using k(2) by (simp add: same_rows_def)
qed

lemma framed_store_ok:
  assumes "store_ok e cfg d st" "durable_ok e cfg st'" "\<And>j. framed e j st st'"
  shows "store_ok e cfg d st'" "same_rows e st st'"
  using assms framed_index_ok [OF assms(3)] framed_rows [OF assms(3)]
  by (auto simp: store_ok_def same_rows_def fun_eq_iff)

lemma store_schema_and_cache_ok:
  assumes ok: "engines_ok e" and st: "store_ok e cfg d st" and run: "store_schema_and_cache e i s st = (st', r)"
  shows "store_ok e cfg d st'" "same_rows e st st'"
proof -
  from st have dur: "durable_ok e cfg st" by (simp add: store_ok_def)
  have "durable_ok e cfg st'" "framed e j st st'" for j
    using run dur store_schema_durable [OF ok dur] store_schema_framed [OF ok]
    by (auto simp: store_schema_and_cache_def split: sum.splits)
  from framed_store_ok [OF st this] show "store_ok e cfg d st'" "same_rows e st st'" .
qed

lemma index_okD_rolled:
  assumes ok: "engines_ok e" and idx: "index_ok e d dir wr seq V D" and W: "W = V \<or> W = D"
  shows "index_ok e d (map_option (tv_rollback e) dir) False None W W"
proof (cases dir)
  case (Some t)
  note same = same_committed_intros(2) [OF ok, of t]
  from idx Some have "crash_ok e d t V D" by (simp add: index_ok_def)
  with W have "crash_ok e d t W W" unfolding crash_ok_def by (meson le_less_trans order_refl)
  then show ?thesis
    by (simp add: index_ok_def Some crash_ok_committed [OF same] seq_ok_def tv_rollback_laws [OF ok])
qed (use assms in \<open>auto simp: index_ok_def\<close>)

lemma crash_store_ok:
  assumes ok: "engines_ok e" and st: "store_ok e cfg d st"
  shows "store_ok e cfg d (crash e st)" "view e (crash e st) = disk e st"
proof -
  show v: "view e (crash e st) = disk e st" by (simp add: crash_def view_def disk_def kv_laws [OF ok])
  have dk: "disk e (crash e st) = disk e st" by (simp add: crash_def disk_def kv_laws [OF ok])
  have "index_ok_in e d (crash e st) i" for i
    using index_okD_rolled [OF ok, of d "hs_dirs st i"] st unfolding v dk by (simp add: crash_def store_ok_def) blast
  then show "store_ok e cfg d (crash e st)" by (simp add: store_ok_def durable_ok_def v dk)
qed


lemma shutdown_commit_ok:
  assumes "engines_ok e" "store_ok e cfg d st"
  shows "store_ok e cfg d (shutdown_commit e cfg busy i st) \<and> same_rows e st (shutdown_commit e cfg busy i st)"
proof (cases "0 < get_operations_count i st \<and> hs_writers st i \<and> \<not> busy i")
  case True
  then have wr: "hs_writers st i" by simp
  have "shutdown_commit e cfg busy i st = commit_quietly e cfg i st"
    using True by (simp add: shutdown_commit_def commit_quietly_def)
  with commit_quietly_store [OF assms wr] show ?thesis by simp
next
  case False
  with assms(2) show ?thesis by (auto simp: shutdown_commit_def)
qed

lemma shutdown_commits_ok:
  assumes "engines_ok e" "store_ok e cfg d st"
  shows "store_ok e cfg d (fold (shutdown_commit e cfg busy) names st) \<and> same_rows e st (fold (shutdown_commit e cfg busy) names st)"
  using assms(2)
proof (induction names arbitrary: st)
  case (Cons n ns)
  note k = shutdown_commit_ok [OF assms(1) Cons.prems, of busy n]
  from Cons.IH [of "shutdown_commit e cfg busy n st"] k show ?case by (auto intro: same_rows_trans)
qed simp

lemma drop_everything_ok:
  assumes ok: "engines_ok e" and st: "store_ok e cfg d st"
  shows "store_ok e cfg d (drop_everything e st)" "view e (drop_everything e st) = view e st"
proof -
  show v: "view e (drop_everything e st) = view e st" by (simp add: drop_everything_def)
  have dk: "disk e (drop_everything e st) = disk e st" by (simp add: drop_everything_def)
  have "index_ok_in e d (drop_everything e st) i" for i
  proof -
    from st have idx: "index_ok_in e d st i" by (simp add: store_ok_def)
    show ?thesis
    proof (cases "hs_dirs st i")
      case (Some t)
      note same = same_committed_intros(2) [OF ok, of t]
      show ?thesis
        using idx Some unfolding v dk
        by (simp add: drop_everything_def index_ok_def crash_ok_committed [OF same] seq_ok_def tv_rollback_laws [OF ok])
    qed (use idx in \<open>simp add: drop_everything_def index_ok_def\<close>)
  qed
  with st show "store_ok e cfg d (drop_everything e st)" by (simp add: store_ok_def durable_ok_def v dk)
qed

lemma shutdown_ok:
  assumes ok: "engines_ok e" and st: "store_ok e cfg d st"
  shows "store_ok e cfg d (shutdown e cfg busy names st)" "same_rows e st (shutdown e cfg busy names st)"
    "disk e (shutdown e cfg busy names st) = view e (shutdown e cfg busy names st)"
proof -
  let ?st1 = "fold (shutdown_commit e cfg busy) names st"
  let ?st2 = "drop_everything e ?st1"
  note k1 = shutdown_commits_ok [OF ok st, of busy names]
  note k2 = drop_everything_ok [OF ok conjunct1 [OF k1]]
  from k2(1) have "durable_ok e cfg ?st2" by (simp add: store_ok_def)
  then have dur: "durable_ok e cfg (shutdown e cfg busy names st)"
    unfolding shutdown_def by (rule commit_txn_durable [OF ok]) simp
  have fr: "framed e j ?st2 (shutdown e cfg busy names st)" for j
    unfolding shutdown_def by (rule commit_txn_framed [OF ok]) simp
  from framed_store_ok [OF k2(1) dur fr]
  show "store_ok e cfg d (shutdown e cfg busy names st)" "same_rows e st (shutdown e cfg busy names st)"
    using k1 k2(2) by (auto simp: same_rows_def)
  show "disk e (shutdown e cfg busy names st) = view e (shutdown e cfg busy names st)"
    using ok by (simp add: shutdown_def commit_txn_disk)
qed

text \<open>A drop that runs to its end.\<close>

lemma delete_tables_frame:
  assumes ok: "engines_ok e" and st: "store_ok e cfg d st" and st': "st' = delete_index_tables e i b st"
  shows "durable_ok e cfg st'" "j \<noteq> i \<Longrightarrow> framed e j st st'" "slice_of (view e st') i = ([], [], None)"
    "slice_of (disk e st') i = ([], [], None)" "\<not> hs_writers st' i" "hs_seq st' i = None"
    "hs_dirs st' = hs_dirs (drop_index_caches e i st)"
proof -
  let ?st1 = "drop_index_caches e i st"
  let ?st2 = "commit_txn e True (drop_tables i b) ?st1"
  from st have "durable_ok e cfg st" "index_ok_in e d st i" by (simp_all add: store_ok_def)
  note dc = drop_index_caches_ok [OF ok this]
  obtain schemas where st2: "st' = ?st2\<lparr>hs_schemas := schemas\<rparr>"
  proof (cases "b \<and> get_schema e i ?st1 \<noteq> None")
    case True
    then have "st' = ?st2\<lparr>hs_schemas := (hs_schemas ?st2)(i := Some (tombstone (the (get_schema e i ?st1))))\<rparr>"
      by (auto simp: st' delete_index_tables_def Let_def)
    then show ?thesis by (rule that)
  next
    case False
    then have "st' = ?st2\<lparr>hs_schemas := hs_schemas ?st2\<rparr>"
      by (cases b; cases "get_schema e i ?st1") (auto simp: st' delete_index_tables_def Let_def)
    then show ?thesis by (rule that)
  qed
  have sl: "slice_of (drop_tables i b T) j = (if j = i then ([], [], None) else slice_of T j)" for T j
    by (simp add: slice_of_def drop_tables_def)
  have dur1: "durable_ok e cfg ?st1" using dc(1) by (simp add: keeps_def)
  show "durable_ok e cfg st'" unfolding st2 using commit_txn_durable [OF ok dur1, of True "drop_tables i b"] by simp
  show "framed e j st st'" if "j \<noteq> i"
  proof -
    from dc(1) that have "framed e j st ?st1" by (simp add: keeps_def)
    moreover have "framed e j ?st1 ?st2" by (rule commit_txn_framed [OF ok]) (use that in \<open>simp add: sl\<close>)
    ultimately show ?thesis unfolding st2 using framed_trans by simp blast
  qed
  show "slice_of (view e st') i = ([], [], None)" "slice_of (disk e st') i = ([], [], None)"
    using ok by (simp_all add: st2 commit_txn_disk sl)
  show "\<not> hs_writers st' i" "hs_seq st' i = None" "hs_dirs st' = hs_dirs ?st1" using dc(3,4) by (simp_all add: st2)
qed

lemma delete_index_data_ok:
  assumes ok: "engines_ok e" and st: "store_ok e cfg d st" and run: "delete_index_data e cfg i b st = (st', r)"
  shows "store_ok e cfg d st'" "r = Inr () \<Longrightarrow> tb_data (view e st') i = [] \<and> hs_dirs st' i = None"
    "j \<noteq> i \<Longrightarrow> framed e j st st'"
proof -
  have "store_ok e cfg d st' \<and> (r = Inr () \<longrightarrow> tb_data (view e st') i = [] \<and> hs_dirs st' i = None) \<and>
      (j \<noteq> i \<longrightarrow> framed e j st st')" for j
  proof (cases "index_dir cfg i")
    case (Inl x)
    with run st show ?thesis by (auto simp: delete_index_data_def)
  next
    case (Inr p)
    define st1 where st1: "st1 = delete_index_tables e i b st"
    note f = delete_tables_frame [OF ok st st1]
    from run Inr have st': "st' = st1\<lparr>hs_dirs := (hs_dirs st1)(i := None)\<rparr>" by (simp add: delete_index_data_def st1 Let_def)
    have sel: "view e st' = view e st1" "disk e st' = disk e st1" by (simp_all add: st')
    have fr: "framed e j st st'" if "j \<noteq> i" for j using f(2) [OF that] that by (simp add: framed_def sel st')
    have dur: "durable_ok e cfg st'" using f(1) by (simp add: durable_ok_def sel)
    have "index_ok_in e d st' i" using f by (simp add: index_ok_def sel st')
    with framed_others [OF dur store_others [OF st] fr] have "store_ok e cfg d st'" by (blast intro: others_and_one)
    with fr f(3) show ?thesis by (simp add: sel st' slice_of_def)
  qed
  then show "store_ok e cfg d st'" "r = Inr () \<Longrightarrow> tb_data (view e st') i = [] \<and> hs_dirs st' i = None"
    "j \<noteq> i \<Longrightarrow> framed e j st st'" by blast+
qed


lemma recovery_fanout_ok:
  assumes "engines_ok e" "store_ok e cfg d st" "recovery_fanout e cfg d busy names st = (st', rs)"
  shows "store_ok e cfg d st' \<and> same_rows e st st'"
  using assms(2,3)
proof (induction names arbitrary: st rs)
  case (Cons n ns)
  obtain st1 r where g: "get_or_create_index e cfg d busy n st = (st1, r)" by (cases "get_or_create_index e cfg d busy n st")
  obtain st2 rs2 where f: "recovery_fanout e cfg d busy ns st1 = (st2, rs2)" by (cases "recovery_fanout e cfg d busy ns st1")
  note k = get_or_create_index_ok [OF assms(1) Cons.prems(1) g]
  from Cons.prems(2) g f have f': "recovery_fanout e cfg d busy ns st1 = (st', rs2)" by simp
  from Cons.IH [OF _ f'] k show ?case by (auto intro: same_rows_trans)
qed simp

lemma recover_indices_ok:
  assumes ok: "engines_ok e" and st: "store_ok e cfg d st" and run: "recover_indices e cfg d busy names st = (st', res)"
  shows "store_ok e cfg d st'" "same_rows e st st'"
proof -
  let ?tails = "filter (\<lambda>n. tb_wal (view e st) n \<noteq> []) names"
  obtain st1 rs where f: "recovery_fanout e cfg d busy ?tails st = (st1, rs)" by (cases "recovery_fanout e cfg d busy ?tails st")
  let ?again = "map fst (filter (\<lambda>x. \<not> snd x) rs)"
  obtain st2 rs2 where f2: "recovery_fanout e cfg d busy ?again st1 = (st2, rs2)" by (cases "recovery_fanout e cfg d busy ?again st1")
  from run f f2 have st': "st' = st2" by (simp add: recover_indices_def recover_with_a_retry_def Let_def)
  note k = recovery_fanout_ok [OF ok st f]
  from recovery_fanout_ok [OF ok conjunct1 [OF k] f2] k
  show "store_ok e cfg d st'" "same_rows e st st'" unfolding st' by (auto intro: same_rows_trans)
qed

text \<open>The transaction of a batch committed and nothing after it done.\<close>

lemma crash_after_write:
  assumes ok: "engines_ok e" and st: "store_ok e cfg d st" and op: "opened e i fs st" and w: "writable i ops st"
    and run: "write_batch e cfg d i fs ops st = (st', r)"
  shows "store_ok e cfg d (crash e st')"
proof (cases r)
  case (Inl x)
  with write_batch_ok [OF assms] have "store_ok e cfg d st'" by simp
  then show ?thesis by (rule crash_store_ok [OF ok])
next
  case (Inr x)
  with write_batch_ok [OF assms] have wrt: "wrote e cfg d i fs ops st x st'" by simp
  then obtain t where int: "intact e cfg d i t st'" and oth: "others_ok e cfg d i st'" and wr: "hs_writers st' i"
    using op by (auto simp: wrote_def opened_def)
  have "index_ok_in e d (crash e st') j" for j
  proof (cases "j = i")
    case True
    note same = same_committed_intros(2) [OF ok, of t]
    from int have c: "crash_ok e d t (slice_of (view e st') i) (slice_of (disk e st') i)" and dir: "hs_dirs st' i = Some t"
      by (simp_all add: intact_def)
    have cd: "crash_ok e d t (slice_of (disk e st') i) (slice_of (disk e st') i)"
      using c unfolding crash_ok_def by (meson le_less_trans order_refl)
    show ?thesis
      using cd dir by (simp add: True crash_def view_def disk_def kv_laws [OF ok] index_ok_def crash_ok_committed [OF same]
          seq_ok_def tv_rollback_laws [OF ok])
  next
    case False
    with oth have "index_ok_in e d st' j" by (simp add: others_ok_def)
    from index_okD_rolled [OF ok this disjI2 [OF refl]] show ?thesis
      by (simp add: crash_def view_def disk_def kv_laws [OF ok])
  qed
  then show ?thesis
    by (simp add: store_ok_def durable_ok_def crash_def view_def disk_def kv_laws [OF ok])
qed

section \<open>Steps\<close>

inductive store_step ::
  "('k, 't) engines \<Rightarrow> config \<Rightarrow> deps \<Rightarrow> ('k, 't) hybrid_store \<Rightarrow> ('k, 't) hybrid_store \<Rightarrow> bool"
  for e cfg d where
  open_step: "get_or_create_index e cfg d busy i st = (st', r) \<Longrightarrow> store_step e cfg d st st'"
| batch_step: "has_room e cfg d busy i ops st \<Longrightarrow> apply_batch e cfg d busy i ops st = (st', r) \<Longrightarrow> store_step e cfg d st st'"
| commit_step: "commit_index e cfg d busy i st = (st', r') \<Longrightarrow> store_step e cfg d st st'"
| close_step: "close_index e cfg busy i st = (st', b) \<Longrightarrow> store_step e cfg d st st'"
| remove_step: "force_remove_writer e i st = (st', b) \<Longrightarrow> store_step e cfg d st st'"
| schema_step: "store_schema_and_cache e i s st = (st', r') \<Longrightarrow> store_step e cfg d st st'"
| drop_step: "delete_index_data e cfg i b st = (st', r') \<Longrightarrow> store_step e cfg d st st'"
| shutdown_step: "store_step e cfg d st (shutdown e cfg busy names st)"
| recovery_step: "recover_indices e cfg d busy names st = (st', res) \<Longrightarrow> store_step e cfg d st st'"
| crash_step: "store_step e cfg d st (crash e st)"
| torn_batch_step:
    "get_or_create_index_locked e cfg d busy i st = (st1, Inr fs) \<Longrightarrow> writable i ops st1 \<Longrightarrow>
     write_batch e cfg d i fs ops st1 = (st', r'') \<Longrightarrow> store_step e cfg d st (crash e st')"
| torn_commit_step:
    "hs_writers st i \<Longrightarrow> commit_locked_writer e cfg i st = (st', q) \<Longrightarrow> store_step e cfg d st (crash e st')"

lemma store_step_ok:
  assumes ok: "engines_ok e"
  shows "store_step e cfg d st st' \<Longrightarrow> store_ok e cfg d st \<Longrightarrow> store_ok e cfg d st'"
proof (induction rule: store_step.induct)
  case (open_step busy i st st' r)
  from get_or_create_index_ok [OF ok open_step(2,1)] show ?case by simp
next
  case (batch_step busy i ops st st' r)
  from apply_batch_ok(1) [OF ok batch_step(3,1,2)] show ?case .
next
  case (commit_step busy i st st' r')
  from commit_index_ok(1) [OF ok commit_step(2,1)] show ?case .
next
  case (close_step busy i st st' b)
  from close_store_ok(1) [OF ok close_step(2,1)] show ?case .
next
  case (remove_step i st st' b)
  then show ?case using force_remove_store_ok(1) [OF ok, of cfg d st i] by (simp add: force_remove_writer_def)
next
  case (schema_step i s st st' r')
  from store_schema_and_cache_ok(1) [OF ok schema_step(2,1)] show ?case .
next
  case (drop_step i b st st' r')
  from delete_index_data_ok(1) [OF ok drop_step(2,1)] show ?case .
next
  case (shutdown_step st busy names)
  from shutdown_ok(1) [OF ok shutdown_step] show ?case .
next
  case (recovery_step busy names st st' res)
  from recover_indices_ok(1) [OF ok recovery_step(2,1)] show ?case .
next
  case (crash_step st)
  from crash_store_ok(1) [OF ok crash_step] show ?case .
next
  case (torn_batch_step busy i st st1 fs ops st' r'')
  from get_or_create_index_locked_ok [OF ok torn_batch_step(4,1)] have "store_ok e cfg d st1" "opened e i fs st1" by blast+
  from crash_after_write [OF ok this torn_batch_step(2,3)] show ?case .
next
  case (torn_commit_step st i st' q)
  from crash_store_ok(1) [OF ok commit_failed(1) [OF ok torn_commit_step(3,1,2)]] show ?case .
qed

definition no_tables :: tables where
  "no_tables = \<lparr>tb_data = (\<lambda>_. []), tb_wal = (\<lambda>_. []), tb_meta = (\<lambda>_. None), tb_schema = (\<lambda>_. None)\<rparr>"

text \<open>The store of a new data directory.\<close>

definition fresh_store :: "'k \<Rightarrow> ('k, 't) hybrid_store" where
  "fresh_store k =
     \<lparr>hs_kv = k, hs_dirs = (\<lambda>_. None), hs_writers = (\<lambda>_. False), hs_seq = (\<lambda>_. None), hs_ops = (\<lambda>_. None),
      hs_schemas = (\<lambda>_. None), hs_open = [], hs_tick = 0\<rparr>"

inductive reachable ::
  "('k, 't) engines \<Rightarrow> config \<Rightarrow> deps \<Rightarrow> ('k, 't) hybrid_store \<Rightarrow> bool"
  for e cfg d where
  reachable_fresh: "kv_view e k = no_tables \<Longrightarrow> kv_disk e k = no_tables \<Longrightarrow> reachable e cfg d (fresh_store k)"
| reachable_step: "reachable e cfg d st \<Longrightarrow> store_step e cfg d st st' \<Longrightarrow> reachable e cfg d st'"

lemma reachable_ok: "reachable e cfg d st \<Longrightarrow> engines_ok e \<Longrightarrow> store_ok e cfg d st"
proof (induction rule: reachable.induct)
  case (reachable_fresh k)
  then show ?case
    by (simp add: store_ok_def durable_ok_def index_ok_def fresh_store_def view_def disk_def slice_of_def no_tables_def)
next
  case (reachable_step st st')
  then show ?case using store_step_ok by blast
qed

end
