(* ===== verification/Store_Props.thy ===== *)
theory Store_Props
  imports Store_Steps "HOL-Library.Code_Target_Numeral"
begin

text \<open>
  What the store promises its callers, over every state its operations and crashes can reach, and a plain
  pair of engines the promises are tried on: redb as two sets of tables, Tantivy as two lists of documents.
\<close>

section \<open>A plain pair of engines\<close>

record plain_index =
  pi_columns :: "column list"
  pi_docs :: "tdoc list"
  pi_buffer :: "tdoc list"
  pi_payload :: "string option"

definition plain_engines :: "(tables \<times> tables, plain_index) engines" where
  "plain_engines =
     \<lparr>kv_view = fst, kv_disk = snd, kv_commit = (\<lambda>b t k. (t, if b then t else snd k)), kv_reopen = (\<lambda>k. (snd k, snd k)),
      tv_create = (\<lambda>cs. \<lparr>pi_columns = cs, pi_docs = [], pi_buffer = [], pi_payload = None\<rparr>),
      tv_columns = pi_columns, tv_docs = (\<lambda>t. mset (pi_docs t)), tv_buffered = (\<lambda>t. mset (pi_buffer t)),
      tv_payload = pi_payload, tv_top_by_seq = (\<lambda>_. None),
      tv_delete_term = (\<lambda>f s t. t\<lparr>pi_buffer := filter (\<lambda>x. (f, VText s) \<notin> set x) (pi_buffer t)\<rparr>),
      tv_add_document = (\<lambda>x t. Some (t\<lparr>pi_buffer := x # pi_buffer t\<rparr>)),
      tv_commit = (\<lambda>p t. Some (t\<lparr>pi_docs := pi_buffer t, pi_payload := p\<rparr>)),
      tv_rollback = (\<lambda>t. t\<lparr>pi_buffer := pi_docs t\<rparr>), from_legacy = (\<lambda>_. None)\<rparr>"

lemma plain_engines_ok: "engines_ok plain_engines"
  by (auto simp: engines_ok_def kv_ok_def tv_ok_def plain_engines_def)

definition plain_config :: config where
  "plain_config = \<lparr>cf_indices = ''/d'', cf_wal_sync = True, cf_default_batch_size = 100, cf_max_open_indexes = 2\<rparr>"

abbreviation plain_batch ::
  "wal_op list \<Rightarrow> (tables \<times> tables, plain_index) hybrid_store \<Rightarrow> (tables \<times> tables, plain_index, nat list \<times> nat) outcome" where
  "plain_batch \<equiv> apply_batch plain_engines plain_config plain_deps (\<lambda>_. False) ''docs''"

definition plain_ops :: "wal_op list" where
  "plain_ops = [Put ''a'' (Some (JObject [(''n'', JNumber (PosInt 1))])), Put ''b'' None, Delete ''a'']"

definition plain_start :: "(tables \<times> tables, plain_index) hybrid_store" where
  "plain_start = fresh_store (no_tables, no_tables)"

definition plain_written :: "(tables \<times> tables, plain_index) hybrid_store" where
  "plain_written = fst (plain_batch plain_ops plain_start)"

lemma plain_start_reachable: "reachable plain_engines plain_config plain_deps plain_start"
  unfolding plain_start_def by (rule reachable_fresh) (simp_all add: plain_engines_def)

lemma plain_room: "has_room plain_engines plain_config plain_deps (\<lambda>_. False) ''docs'' plain_ops plain_start"
  by code_simp

lemma plain_answer: "snd (plain_batch plain_ops plain_start) = Inr ([1, 2, 3], 1)"
  by code_simp

lemma plain_batch_run: "plain_batch plain_ops plain_start = (plain_written, Inr ([1, 2, 3], 1))"
  using plain_answer by (simp add: plain_written_def prod_eq_iff)

lemma plain_written_reachable: "reachable plain_engines plain_config plain_deps plain_written"
  by (rule reachable_step [OF plain_start_reachable batch_step [OF plain_room plain_batch_run]])

section \<open>The promises\<close>




definition plain_committed :: "(tables \<times> tables, plain_index) hybrid_store" where
  "plain_committed = fst (commit_index plain_engines plain_config plain_deps (\<lambda>_. False) ''docs'' plain_written)"

lemma plain_commit_answer:
  "snd (commit_index plain_engines plain_config plain_deps (\<lambda>_. False) ''docs'' plain_written) = Inr ()"
  unfolding plain_written_def by code_simp

lemma plain_commit_run:
  "commit_index plain_engines plain_config plain_deps (\<lambda>_. False) ''docs'' plain_written = (plain_committed, Inr ())"
  using plain_commit_answer by (simp add: plain_committed_def prod_eq_iff)

lemma plain_pending: "0 < get_operations_count ''docs'' plain_written"
  unfolding plain_written_def by code_simp


text \<open>
  C4: A batch that is acknowledged changes the rows of its index as the same operations, in order, change a
  map from identifiers to bodies (a put stores the body without the fields the schema does not keep, a
  delete removes), and no row of any other index.
\<close>

theorem batch_refines_map_update:
  assumes "engines_ok e" "reachable e cfg d st" "has_room e cfg d busy i ops st" "ops \<noteq> []"
    "apply_batch e cfg d busy i ops st = (st', Inr (seqs, m))"
  shows "om_get (tb_data (view e st') i) =
      fold (op_effect (schema_in_force e cfg i (fst (get_or_create_index_locked e cfg d busy i st)))) ops
        (om_get (tb_data (view e st) i)) \<and>
    (j \<noteq> i \<longrightarrow> tb_data (view e st') j = tb_data (view e st) j)"
  using apply_batch_ok(3) [OF assms(1) reachable_ok [OF assms(2,1)] assms(3,5) refl assms(4)]
  by (simp add: applied_def)

lemma plain_ops_some: "plain_ops \<noteq> []"
  by (simp add: plain_ops_def)

theorem batch_refines_map_update_witness:
  "om_get (tb_data (view plain_engines plain_written) ''docs'') ''b'' = Some None \<and>
   om_get (tb_data (view plain_engines plain_written) ''docs'') ''a'' = None"
  using batch_refines_map_update [OF plain_engines_ok plain_start_reachable plain_room plain_ops_some plain_batch_run]
  by (simp add: plain_ops_def op_effect_def stored_body_def)


definition plain_reopened :: "(tables \<times> tables, plain_index) hybrid_store" where
  "plain_reopened =
     fst (get_or_create_index plain_engines plain_config plain_deps (\<lambda>_. False) ''docs'' (crash plain_engines plain_written))"

definition plain_fields :: schema_fields where
  "plain_fields =
     projr (snd (get_or_create_index plain_engines plain_config plain_deps (\<lambda>_. False) ''docs'' (crash plain_engines plain_written)))"

lemma plain_reopen_answer:
  "\<not> isl (snd (get_or_create_index plain_engines plain_config plain_deps (\<lambda>_. False) ''docs'' (crash plain_engines plain_written)))"
  unfolding plain_written_def by code_simp

lemma plain_reopen_run:
  "get_or_create_index plain_engines plain_config plain_deps (\<lambda>_. False) ''docs'' (crash plain_engines plain_written) =
   (plain_reopened, Inr plain_fields)"
  using plain_reopen_answer
  by (cases "snd (get_or_create_index plain_engines plain_config plain_deps (\<lambda>_. False) ''docs'' (crash plain_engines plain_written))")
     (simp_all add: plain_reopened_def plain_fields_def prod_eq_iff)


text \<open>
  C1: With the log synced on every write, a batch the store acknowledged is there after a crash: the index,
  once opened, holds the rows the batch left and a writer that agrees with each of them.
\<close>

theorem acknowledged_batch_survives:
  assumes "engines_ok e" "reachable e cfg d st" "cf_wal_sync cfg" "has_room e cfg d busy i ops st" "ops \<noteq> []"
    "apply_batch e cfg d busy i ops st = (st1, Inr (seqs, m))"
    "get_or_create_index e cfg d busy' i (crash e st1) = (st2, Inr fs)"
  shows "om_get (tb_data (view e st2) i) =
      fold (op_effect (schema_in_force e cfg i (fst (get_or_create_index_locked e cfg d busy i st)))) ops
        (om_get (tb_data (view e st) i)) \<and>
    (\<exists>t. hs_dirs st2 i = Some t \<and> (\<forall>j. row_indexed d fs j (om_get (tb_data (view e st2) i) j) (tv_buffered e t)))"
proof -
  note b = apply_batch_ok [OF assms(1) reachable_ok [OF assms(2,1)] assms(4,6)]
  note c = crash_store_ok [OF assms(1) b(1)]
  from get_or_create_index_ok [OF assms(1) c(1) assms(7)] have g: "store_ok e cfg d st2" "same_rows e (crash e st1) st2" "opened e i fs st2"
    by simp_all
  have "disk e st1 = view e st1" using b(1) assms(3) by (simp add: store_ok_def durable_ok_def)
  with g(2) c(2) have rows: "tb_data (view e st2) = tb_data (view e st1)" by (simp add: same_rows_def)
  from g(3) have wr: "hs_writers st2 i" by (simp add: opened_def)
  obtain t where "hs_dirs st2 i = Some t" "live_ok e d t (slice_of (view e st2) i)" by (rule open_index [OF g(1) wr])
  with b(3) [OF refl assms(5)] g(3) rows show ?thesis by (auto simp: live_ok_def opened_def applied_def)
qed

theorem acknowledged_batch_survives_witness:
  "om_get (tb_data (view plain_engines plain_reopened) ''docs'') ''b'' = Some None \<and>
   om_get (tb_data (view plain_engines plain_reopened) ''docs'') ''a'' = None"
  using acknowledged_batch_survives [OF plain_engines_ok plain_start_reachable _ plain_room plain_ops_some plain_batch_run plain_reopen_run]
  by (simp add: plain_config_def plain_ops_def op_effect_def stored_body_def)

text \<open>
  C18: The sequences a batch is given on an open index are new and in order: they continue the log of the
  index in strictly increasing order, one per operation, and are above the recorded checkpoint, so that no
  replay can take them for covered.
\<close>

theorem sequences_are_fresh:
  assumes "engines_ok e" "reachable e cfg d st" "hs_writers st i" "has_room e cfg d busy i ops st" "ops \<noteq> []"
    "apply_batch e cfg d busy i ops st = (st', Inr (seqs, m))"
  shows "length seqs = length ops \<and> sorted_wrt (<) (om_keys (tb_wal (view e st) i) @ seqs) \<and>
    list_all (\<lambda>s. s < u64_max) seqs \<and>
    (case tb_meta (view e st) i of Some c \<Rightarrow> list_all (\<lambda>s. c < s) seqs | None \<Rightarrow> True)"
proof -
  note st = reachable_ok [OF assms(2,1)]
  obtain fs where go: "get_or_create_index_locked e cfg d busy i st = (st, fs)"
    using assms(3) by (simp add: get_or_create_index_locked_def split: option.splits)
  note a = apply_batch_ok(3) [OF assms(1) st assms(4,6) refl assms(5), unfolded go fst_conv]
  obtain t n where t: "hs_seq st i = Some n" "intact e cfg d i t st" by (rule open_index [OF st assms(3)])
  with a have seqs: "seqs = [n + 1..<n + 1 + length ops]" by (auto simp: applied_def)
  let ?V = "slice_of (view e st) i"
  from t obtain c where c: "slice_wf ?V" "checkpoint_is e ?V t c" "high_water ?V c \<le> n"
    by (auto simp: intact_def crash_ok_def seq_ok_def)
  have le: "k \<le> n" if "k \<in> set (om_keys (tb_wal (view e st) i))" for k
    using that c(1,3) max_wal_ge [of "tb_wal (view e st) i" k] by (fastforce simp: om_keys_def slice_wf_def high_water_def)
  have "sorted_wrt (<) (om_keys (tb_wal (view e st) i))" using c(1) by (simp add: slice_wf_def om_inv_def om_keys_def)
  then have "sorted_wrt (<) (om_keys (tb_wal (view e st) i) @ seqs)"
    using le by (fastforce simp: seqs sorted_wrt_append sorted_wrt_upt simp del: upt_Suc)
  moreover have "n + length ops < u64_max" using assms(4) t(1) by (simp add: has_room_def writable_def go)
  moreover have "c' \<le> n" if "tb_meta (view e st) i = Some c'" for c'
    using checkpoint_meta_le [OF c(2)] that c(3) by (simp add: high_water_def)
  ultimately show ?thesis by (auto simp: seqs list_all_iff less_Suc_eq_le split: option.split simp del: upt_Suc)
qed

lemma plain_room_again: "has_room plain_engines plain_config plain_deps (\<lambda>_. False) ''docs'' plain_ops plain_committed"
  unfolding plain_committed_def plain_written_def by code_simp

lemma plain_again: "snd (plain_batch plain_ops plain_committed) = Inr ([4, 5, 6], 0)"
  unfolding plain_committed_def plain_written_def by code_simp

lemma plain_committed_reachable: "reachable plain_engines plain_config plain_deps plain_committed"
  by (rule reachable_step [OF plain_written_reachable commit_step [OF plain_commit_run]])

theorem sequences_are_fresh_witness:
  "length [4::nat, 5, 6] = length plain_ops \<and>
   sorted_wrt (<) (om_keys (tb_wal (view plain_engines plain_committed) ''docs'') @ [4::nat, 5, 6])"
proof -
  have "plain_batch plain_ops plain_committed = (fst (plain_batch plain_ops plain_committed), Inr ([4, 5, 6], 0))"
    using plain_again by (simp add: prod_eq_iff)
  moreover have "hs_writers plain_committed ''docs''" unfolding plain_committed_def plain_written_def by code_simp
  ultimately show ?thesis
    using sequences_are_fresh [OF plain_engines_ok plain_committed_reachable _ plain_room_again plain_ops_some] by blast
qed

text \<open>
  C19: Admitting an index to the set of open ones, where a cap is set and it was not in it, ends with at most
  the cap open, unless every other open index was in use: those are never closed.
\<close>

theorem open_indexes_stay_under_the_cap:
  assumes "0 < cf_max_open_indexes cfg" "om_get (hs_open st) i = None"
  shows "length (hs_open (admit_open_index e cfg busy i st)) \<le> cf_max_open_indexes cfg \<or>
    list_all (\<lambda>(n, u). n = i \<or> busy n) (hs_open (admit_open_index e cfg busy i st))"
proof -
  let ?st = "make_room e cfg busy i (st\<lparr>hs_tick := Suc (hs_tick st)\<rparr>)"
  have eq: "hs_open (admit_open_index e cfg busy i st) = om_insert i (hs_tick st) (hs_open ?st)"
    using assms by (simp add: admit_open_index_def Let_def)
  have len: "length (om_insert k v m) \<le> Suc (length m)" for k :: string and v :: nat and m by (induction m) auto
  have sub: "x \<in> set (om_insert k v m) \<Longrightarrow> x = (k, v) \<or> x \<in> set m" for k :: string and v :: nat and m x
    by (induction m) (auto split: if_splits)
  from room_made [of e cfg busy i "st\<lparr>hs_tick := Suc (hs_tick st)\<rparr>"] show ?thesis
  proof
    assume "length (hs_open ?st) < cf_max_open_indexes cfg"
    with len [of i "hs_tick st" "hs_open ?st"] show ?thesis unfolding eq by linarith
  next
    assume "\<forall>(n, u) \<in> set (hs_open ?st). n = i \<or> busy n"
    with sub [of _ i "hs_tick st" "hs_open ?st"] show ?thesis unfolding eq list_all_iff by fastforce
  qed
qed

definition plain_full :: "(tables \<times> tables, plain_index) hybrid_store" where
  "plain_full = plain_start\<lparr>hs_open := [(''p'', 1), (''q'', 0)], hs_tick := 2\<rparr>"

theorem open_indexes_stay_under_the_cap_witness:
  "length (hs_open (admit_open_index plain_engines plain_config (\<lambda>_. False) ''docs'' plain_full)) \<le> 2"
proof -
  have "0 < cf_max_open_indexes plain_config" "om_get (hs_open plain_full) ''docs'' = None"
    by (simp_all add: plain_config_def plain_full_def)
  from open_indexes_stay_under_the_cap [OF this, of plain_engines "\<lambda>_. False"]
  have "length (hs_open (admit_open_index plain_engines plain_config (\<lambda>_. False) ''docs'' plain_full)) \<le> 2 \<or>
      list_all (\<lambda>(n, u). n = ''docs'') (hs_open (admit_open_index plain_engines plain_config (\<lambda>_. False) ''docs'' plain_full))"
    by (simp add: plain_config_def)
  moreover have "map fst (hs_open (admit_open_index plain_engines plain_config (\<lambda>_. False) ''docs'' plain_full)) = [''docs'', ''p'']"
    unfolding plain_full_def by code_simp
  ultimately show ?thesis by (auto dest: arg_cong [where f = length])
qed



text \<open>The stale document is still there once the index is opened again.\<close>

lemma torn_drop_reopens_stale:
  "map_option (length \<circ> pi_buffer) (hs_dirs (fst (get_or_create_index plain_engines plain_config plain_deps (\<lambda>_. False) ''docs''
     (crash plain_engines (delete_index_tables plain_engines ''docs'' False plain_committed)))) ''docs'') =
   Some 1"
  unfolding plain_committed_def plain_written_def by code_simp

end
