(* ===== verification/Auth.thy ===== *)
theory Auth
  imports Index_Name "HOL-Library.Code_Target_Numeral"
begin

text \<open>
  API keys (server, \<open>auth.rs\<close>): roles and capabilities, the scopes of index names a key or a tenant is
  held to, the key ring made from the configuration with every reason to refuse it, and the reload that
  replaces the ring of a running node. The hash function and the hexadecimal codec are third-party and are
  parameters, as is what a file holds.
\<close>

section \<open>Capabilities and roles\<close>

datatype capability = Read | Write | IndexAdmin | NodeAdmin | KeyManage

datatype role = Admin | Writer | Reader | Provisioner

definition all_roles :: "role list" where
  "all_roles = [Admin, Writer, Reader, Provisioner]"

fun capability_as_str :: "capability \<Rightarrow> string" where
  "capability_as_str Read = ''read''"
| "capability_as_str Write = ''write''"
| "capability_as_str IndexAdmin = ''index-admin''"
| "capability_as_str NodeAdmin = ''node-admin''"
| "capability_as_str KeyManage = ''key-manage''"

fun role_as_str :: "role \<Rightarrow> string" where
  "role_as_str Admin = ''admin''"
| "role_as_str Writer = ''writer''"
| "role_as_str Reader = ''reader''"
| "role_as_str Provisioner = ''provisioner''"

definition role_parse :: "string \<Rightarrow> (string, role) result" where
  "role_parse s =
     (let t = to_ascii_lowercase (trim s) in
      if t = ''admin'' then Ok Admin
      else if t = ''writer'' then Ok Writer
      else if t = ''reader'' then Ok Reader
      else if t = ''provisioner'' then Ok Provisioner
      else Err t)"

fun capabilities :: "role \<Rightarrow> capability list" where
  "capabilities Admin = [Read, Write, IndexAdmin, NodeAdmin, KeyManage]"
| "capabilities Writer = [Read, Write]"
| "capabilities Reader = [Read]"
| "capabilities Provisioner = [KeyManage]"

definition role_has :: "role \<Rightarrow> capability \<Rightarrow> bool" where
  "role_has r c = (c \<in> set (capabilities r))"

section \<open>Keys\<close>

record crypto =
  cr_sha256 :: "string \<Rightarrow> bytes"
  cr_hex_decode :: "string \<Rightarrow> bytes option"
  cr_hex_encode :: "bytes \<Rightarrow> string"

definition KEY_PREFIX :: string where
  "KEY_PREFIX = ''cameo_v1_''"

definition KEY_BODY_LEN :: nat where
  "KEY_BODY_LEN = 43"

definition key_body :: "string \<Rightarrow> string option" where
  "key_body token =
     Option.bind (strip_prefix KEY_PREFIX token)
       (\<lambda>body. if length body = KEY_BODY_LEN \<and>
                  list_all (\<lambda>b. is_ascii_alphanumeric b \<or> b = CHR ''-'' \<or> b = CHR ''_'') body
               then Some body else None)"

definition DIGEST_PREFIX :: string where
  "DIGEST_PREFIX = ''sha256:''"

datatype hash_error = NoPrefix | WrongLength nat | NotHex

definition digest_parse :: "crypto \<Rightarrow> string \<Rightarrow> (hash_error, bytes) result" where
  "digest_parse c raw =
     (case strip_prefix DIGEST_PREFIX (trim raw) of
        None \<Rightarrow> Err NoPrefix
      | Some h \<Rightarrow>
          if length h \<noteq> 64 then Err (WrongLength (length h))
          else case cr_hex_decode c h of None \<Rightarrow> Err NotHex | Some b \<Rightarrow> Ok b)"

definition to_config_value :: "crypto \<Rightarrow> bytes \<Rightarrow> string" where
  "to_config_value c digest = DIGEST_PREFIX @ cr_hex_encode c digest"

definition digest_key_id :: "crypto \<Rightarrow> bytes \<Rightarrow> string" where
  "digest_key_id c digest = cr_hex_encode c (take 4 digest)"

section \<open>Scopes\<close>

datatype index_pattern = Exact string | Prefix string

datatype scope_error = StarAlone | StarTwice string | StarInside string | EmptyScope

definition pattern_parse :: "string \<Rightarrow> (scope_error, index_pattern) result" where
  "pattern_parse raw =
     (case strip_suffix ''*'' raw of
        Some p \<Rightarrow> if p = [] then Err StarAlone
                  else if CHR ''*'' \<in> set p then Err (StarTwice raw)
                  else Ok (Prefix p)
      | None \<Rightarrow> if CHR ''*'' \<in> set raw then Err (StarInside raw) else Ok (Exact raw))"

fun pattern_matches :: "index_pattern \<Rightarrow> string \<Rightarrow> bool" where
  "pattern_matches (Exact n) i = (n = i)"
| "pattern_matches (Prefix p) i = starts_with i p"

fun covers :: "index_pattern \<Rightarrow> index_pattern \<Rightarrow> bool" where
  "covers (Exact a) (Exact b) = (a = b)"
| "covers (Exact _) (Prefix _) = False"
| "covers (Prefix a) (Exact b) = starts_with b a"
| "covers (Prefix a) (Prefix b) = starts_with b a"

fun overlaps :: "index_pattern \<Rightarrow> index_pattern \<Rightarrow> bool" where
  "overlaps (Exact a) (Exact b) = (a = b)"
| "overlaps (Exact n) (Prefix p) = pattern_matches (Prefix p) n"
| "overlaps (Prefix p) (Exact n) = pattern_matches (Prefix p) n"
| "overlaps (Prefix a) (Prefix b) = (starts_with a b \<or> starts_with b a)"

fun pattern_to_string :: "index_pattern \<Rightarrow> string" where
  "pattern_to_string (Exact n) = n"
| "pattern_to_string (Prefix p) = p @ ''*''"

type_synonym index_scope = "index_pattern list"

definition scope_parse :: "string list \<Rightarrow> (scope_error, index_scope) result" where
  "scope_parse xs =
     and_then (try_fold (\<lambda>acc x. and_then (pattern_parse x) (\<lambda>p. Ok (acc @ [p]))) [] (filter (\<lambda>x. x \<noteq> []) (map trim xs)))
       (\<lambda>ps. if ps = [] then Err EmptyScope else Ok ps)"

definition scope_allows :: "index_scope \<Rightarrow> string \<Rightarrow> bool" where
  "scope_allows s i = list_ex (\<lambda>p. pattern_matches p i) s"

definition first_outside :: "index_scope \<Rightarrow> index_scope \<Rightarrow> string option" where
  "first_outside s inner = map_option pattern_to_string (find (\<lambda>p. \<not> list_ex (\<lambda>own. covers own p) s) inner)"

fun overlap_with :: "index_scope \<Rightarrow> index_scope \<Rightarrow> (string \<times> string) option" where
  "overlap_with [] other = None"
| "overlap_with (a # s) other =
     (case find (overlaps a) other of
        Some b \<Rightarrow> Some (pattern_to_string a, pattern_to_string b)
      | None \<Rightarrow> overlap_with s other)"

fun str_join :: "string \<Rightarrow> string list \<Rightarrow> string" where
  "str_join sep [] = []"
| "str_join sep [x] = x"
| "str_join sep (x # y # ys) = x @ sep @ str_join sep (y # ys)"

definition scope_to_string :: "index_scope \<Rightarrow> string" where
  "scope_to_string s = str_join '', '' (map pattern_to_string s)"

section \<open>The configuration\<close>

record tenant_quota =
  tq_max_indexes :: nat
  tq_max_bytes :: nat
  tq_allowed_indexes :: "string list option"

text \<open>
  \<open>index_overrides\<close> is a hash map: the list gives its entries in the order they are visited.
\<close>

record api_key_config =
  ak_key_hash :: "string option"
  ak_key_hash_file :: "string option"
  ak_role :: "role option"
  ak_label :: "string option"
  ak_allowed_indexes :: "string list option"
  ak_index_overrides :: "(string \<times> role) list"
  ak_tenant :: "string option"
  ak_allowed_tenants :: "string list option"

text \<open>The limits, the audit and the OAuth settings are kept whole and only ever compared.\<close>

record ('l, 'a, 'o) security_config =
  sc_enabled :: bool
  sc_implicit_index_creation :: bool
  sc_api_keys :: "api_key_config list"
  sc_tenants :: "(string, tenant_quota) omap"
  sc_include_folders :: "string list"
  sc_override_key :: "api_key_config option"
  sc_limits :: 'l
  sc_audit :: 'a
  sc_oauth :: 'o

definition valid_tenant_name :: "string \<Rightarrow> bool" where
  "valid_tenant_name name =
     (length name \<le> 64 \<and> name \<noteq> [] \<and> is_ascii_alphanumeric (hd name) \<and>
      list_all (\<lambda>c. is_ascii_alphanumeric c \<or> c = CHR ''.'' \<or> c = CHR ''_'' \<or> c = CHR ''-'') (tl name) \<and>
      \<not> str_contains name ''..'')"

section \<open>The ring\<close>

record key_entry =
  ke_digest :: bytes
  ke_role :: role
  ke_label :: string
  ke_allowed_indexes :: "index_scope option"
  ke_index_overrides :: "(string, role) omap"
  ke_tenant :: "string option"
  ke_tenant_scope :: "index_scope option"
  ke_allowed_tenants :: "index_scope option"

record key_ring =
  kr_enabled :: bool
  kr_entries :: "key_entry list"

datatype file_read = Missing | Unreadable | Contents string

datatype key_error =
    FileMissing | FileUnreadable | FileEmpty | FileHasLines | NoHash | BadHash hash_error | NoRole
  | BadScope scope_error | TenantsWithoutManage | OverrideUnnamed | OverrideWidens string
  | OverrideOutside string | OverrideTwice string | HashConfigured | TenantUnnamed
  | PastTenant string | OverridePastTenant string | TenantScope string scope_error | TenantsOverlap string string

definition read_key_hash_file :: "file_read \<Rightarrow> (key_error, string) result" where
  "read_key_hash_file f =
     (case f of
        Missing \<Rightarrow> Err FileMissing
      | Unreadable \<Rightarrow> Err FileUnreadable
      | Contents s \<Rightarrow>
          let hash = trim s in
          if hash = [] then Err FileEmpty
          else if CHR 0x0A \<in> set hash then Err FileHasLines
          else Ok hash)"

definition map_err :: "('e \<Rightarrow> 'f) \<Rightarrow> ('e, 'a) result \<Rightarrow> ('f, 'a) result" where
  "map_err f r = (case r of Inl x \<Rightarrow> Err (f x) | Inr v \<Rightarrow> Ok v)"

definition transpose_result :: "('e, 'a) result option \<Rightarrow> ('e, 'a option) result" where
  "transpose_result r = (case r of None \<Rightarrow> Ok None | Some (Inr v) \<Rightarrow> Ok (Some v) | Some (Inl x) \<Rightarrow> Err x)"

fun add_override ::
  "role \<Rightarrow> index_scope option \<Rightarrow> (string, role) omap \<Rightarrow> string \<times> role \<Rightarrow> (key_error, (string, role) omap) result" where
  "add_override role allowed acc (name, r) =
     (let index = trim name in
      if index = [] then Err OverrideUnnamed
      else if list_ex (\<lambda>c. \<not> role_has role c) (capabilities r) then Err (OverrideWidens index)
      else if (case allowed of Some s \<Rightarrow> \<not> scope_allows s index | None \<Rightarrow> False) then Err (OverrideOutside index)
      else if om_get acc index \<noteq> None then Err (OverrideTwice index)
      else Ok (om_insert index r acc))"

definition key_label :: "crypto \<Rightarrow> string option \<Rightarrow> bytes \<Rightarrow> string" where
  "key_label c label digest =
     (case map_option trim label of
        Some l \<Rightarrow> if l = [] then ''key-'' @ digest_key_id c digest else l
      | None \<Rightarrow> ''key-'' @ digest_key_id c digest)"

text \<open>A key against the scope of its tenant: it narrows within it, never past it.\<close>

definition within_tenant ::
  "index_scope option \<Rightarrow> index_scope option \<Rightarrow> (string, role) omap \<Rightarrow> (key_error, unit) result" where
  "within_tenant tenant_scope allowed overrides =
     (case tenant_scope of
        None \<Rightarrow> Ok ()
      | Some scope \<Rightarrow>
          (case Option.bind allowed (first_outside scope) of
             Some outside \<Rightarrow> Err (PastTenant outside)
           | None \<Rightarrow>
               (case find (\<lambda>i. \<not> scope_allows scope i) (om_keys overrides) of
                  Some i \<Rightarrow> Err (OverridePastTenant i)
                | None \<Rightarrow> Ok ())))"

definition key_hash_of :: "(string \<Rightarrow> file_read) \<Rightarrow> api_key_config \<Rightarrow> (key_error, string) result" where
  "key_hash_of files entry =
     (case (ak_key_hash entry, ak_key_hash_file entry) of
        (Some h, _) \<Rightarrow> Ok h
      | (None, Some path) \<Rightarrow> read_key_hash_file (files path)
      | (None, None) \<Rightarrow> Err NoHash)"

definition resolve_key ::
  "crypto \<Rightarrow> (string \<Rightarrow> file_read) \<Rightarrow> (string, index_scope) omap \<Rightarrow> key_entry list \<Rightarrow> api_key_config \<Rightarrow>
   (key_error, key_entry list) result" where
  "resolve_key c files scopes resolved entry =
     and_then (key_hash_of files entry) (\<lambda>raw.
     and_then (map_err BadHash (digest_parse c raw)) (\<lambda>digest.
     case ak_role entry of None \<Rightarrow> Err NoRole | Some role \<Rightarrow>
     and_then (map_err BadScope (transpose_result (map_option scope_parse (ak_allowed_indexes entry)))) (\<lambda>allowed.
     and_then (map_err BadScope (transpose_result (map_option scope_parse (ak_allowed_tenants entry)))) (\<lambda>tenants.
     if tenants \<noteq> None \<and> \<not> role_has role KeyManage then Err TenantsWithoutManage else
     and_then (try_fold (add_override role allowed) [] (ak_index_overrides entry)) (\<lambda>overrides.
     if list_ex (\<lambda>k. ke_digest k = digest) resolved then Err HashConfigured else
     let tenant = map_option trim (ak_tenant entry) in
     if tenant = Some [] then Err TenantUnnamed else
     let tenant_scope = Option.bind tenant (om_get scopes) in
     and_then (within_tenant tenant_scope allowed overrides) (\<lambda>_.
     Ok (resolved @
         [\<lparr>ke_digest = digest, ke_role = role, ke_label = key_label c (ak_label entry) digest,
           ke_allowed_indexes = allowed, ke_index_overrides = overrides, ke_tenant = tenant,
           ke_tenant_scope = tenant_scope, ke_allowed_tenants = tenants\<rparr>])))))))"

fun add_tenant_scope ::
  "(string, index_scope) omap \<Rightarrow> string \<times> tenant_quota \<Rightarrow> (key_error, (string, index_scope) omap) result" where
  "add_tenant_scope scopes (tenant, quota) =
     (case tq_allowed_indexes quota of
        None \<Rightarrow> Ok scopes
      | Some xs \<Rightarrow>
          and_then (map_err (TenantScope tenant) (scope_parse xs)) (\<lambda>scope.
          case find (\<lambda>(other, s). overlap_with scope s \<noteq> None) scopes of
            Some (other, _) \<Rightarrow> Err (TenantsOverlap tenant other)
          | None \<Rightarrow> Ok (scopes @ [(tenant, scope)])))"

definition tenant_scopes :: "(string, tenant_quota) omap \<Rightarrow> (key_error, (string, index_scope) omap) result" where
  "tenant_scopes tenants = try_fold add_tenant_scope [] tenants"

definition load_keyring ::
  "crypto \<Rightarrow> (string \<Rightarrow> file_read) \<Rightarrow> ('l, 'a, 'o) security_config \<Rightarrow> (key_error, key_ring) result" where
  "load_keyring c files sec =
     and_then (tenant_scopes (sc_tenants sec)) (\<lambda>scopes.
     and_then (try_fold (resolve_key c files scopes) []
                 (sc_api_keys sec @ (case sc_override_key sec of Some k \<Rightarrow> [k] | None \<Rightarrow> []))) (\<lambda>entries.
     Ok \<lparr>kr_enabled = sc_enabled sec, kr_entries = entries\<rparr>))"

section \<open>What an entry may do\<close>

definition key_has :: "key_entry \<Rightarrow> capability \<Rightarrow> bool" where
  "key_has k c = role_has (ke_role k) c"

definition role_on :: "key_entry \<Rightarrow> string \<Rightarrow> role" where
  "role_on k index = (case om_get (ke_index_overrides k) index of Some r \<Rightarrow> r | None \<Rightarrow> ke_role k)"

definition has_on :: "key_entry \<Rightarrow> capability \<Rightarrow> string \<Rightarrow> bool" where
  "has_on k c index = (case om_get (ke_index_overrides k) index of Some r \<Rightarrow> role_has r c | None \<Rightarrow> role_has (ke_role k) c)"

definition is_index_scoped :: "key_entry \<Rightarrow> bool" where
  "is_index_scoped k = (ke_allowed_indexes k \<noteq> None \<or> ke_tenant_scope k \<noteq> None)"

definition key_scopes :: "key_entry \<Rightarrow> index_scope list" where
  "key_scopes k = concat (map (\<lambda>s. case s of Some x \<Rightarrow> [x] | None \<Rightarrow> []) [ke_allowed_indexes k, ke_tenant_scope k])"

definition allows_index :: "key_entry \<Rightarrow> string \<Rightarrow> bool" where
  "allows_index k index = list_all (\<lambda>s. scope_allows s index) (key_scopes k)"

definition allows_tenant :: "key_entry \<Rightarrow> string \<Rightarrow> bool" where
  "allows_tenant k tenant = (case ke_allowed_tenants k of None \<Rightarrow> True | Some s \<Rightarrow> scope_allows s tenant)"

fun find_outside :: "index_scope list \<Rightarrow> index_scope \<Rightarrow> string option" where
  "find_outside [] grant = None"
| "find_outside (s # ss) grant = (case first_outside s grant of Some p \<Rightarrow> Some p | None \<Rightarrow> find_outside ss grant)"

definition grant_outside :: "key_entry \<Rightarrow> string list option \<Rightarrow> string option" where
  "grant_outside k grant =
     (if \<not> is_index_scoped k then None
      else case grant of
             None \<Rightarrow> Some ''every index''
           | Some xs \<Rightarrow>
               (case scope_parse xs of
                  Inl _ \<Rightarrow> None
                | Inr g \<Rightarrow> map_option (\<lambda>p. CHR 0x27 # p @ [CHR 0x27]) (find_outside (key_scopes k) g)))"

definition scope_summary :: "key_entry \<Rightarrow> string" where
  "scope_summary k =
     (case (ke_allowed_indexes k, ke_tenant_scope k) of
        (None, None) \<Rightarrow> ''all indexes''
      | (Some own, None) \<Rightarrow> scope_to_string own
      | (None, Some tenant) \<Rightarrow> scope_to_string tenant @ '' (tenant)''
      | (Some own, Some tenant) \<Rightarrow> scope_to_string own @ '' (within tenant '' @ scope_to_string tenant @ '')'')"

definition ring_holds :: "key_ring \<Rightarrow> capability \<Rightarrow> bool" where
  "ring_holds r c = list_ex (\<lambda>k. key_has k c) (kr_entries r)"

definition by_digest :: "key_ring \<Rightarrow> bytes \<Rightarrow> key_entry option" where
  "by_digest r digest = find (\<lambda>k. ke_digest k = digest) (kr_entries r)"

definition authenticate :: "crypto \<Rightarrow> key_ring \<Rightarrow> string \<Rightarrow> key_entry option" where
  "authenticate c r presented = Option.bind (key_body (trim presented)) (\<lambda>body. by_digest r (cr_sha256 c body))"

definition role_count :: "key_ring \<Rightarrow> role \<Rightarrow> string option" where
  "role_count r role =
     (let n = length (filter (\<lambda>k. ke_role k = role) (kr_entries r)) in
      if 0 < n then Some (dec_digits n @ '' '' @ role_as_str role) else None)"

definition ring_summary :: "key_ring \<Rightarrow> string" where
  "ring_summary r =
     (let counts = str_join '', '' (List.map_filter (role_count r) all_roles) in
      case kr_entries r of
        [] \<Rightarrow> ''no keys''
      | [k] \<Rightarrow> ''1 key ('' @ counts @ '')''
      | ks \<Rightarrow> dec_digits (length ks) @ '' keys ('' @ counts @ '')'')"

section \<open>Reload\<close>

record ('l, 'a, 'o) key_reloader =
  rl_ring :: key_ring
  rl_startup :: "('l, 'a, 'o) security_config"
  rl_tenant_limits :: "(string, tenant_quota) omap"
  rl_include_folders :: "string list"
  rl_loaded :: "('l, 'a, 'o) security_config"

datatype reload_error = ConfigUnreadable | KeysRefused key_error | NoAdminLeft

definition reloader_new ::
  "crypto \<Rightarrow> (string \<Rightarrow> file_read) \<Rightarrow> ('l, 'a, 'o) security_config \<Rightarrow> (key_error, ('l, 'a, 'o) key_reloader) result" where
  "reloader_new c files sec =
     and_then (load_keyring c files sec) (\<lambda>ring.
     Ok \<lparr>rl_ring = ring, rl_startup = sec, rl_tenant_limits = sc_tenants sec,
         rl_include_folders = sc_include_folders sec, rl_loaded = sec\<rparr>)"

definition not_applied :: "('l, 'a, 'o) security_config \<Rightarrow> ('l, 'a, 'o) security_config \<Rightarrow> string list" where
  "not_applied startup sec =
     (if sc_implicit_index_creation sec \<noteq> sc_implicit_index_creation startup then [''security.implicit_index_creation''] else []) @
     (if sc_limits sec \<noteq> sc_limits startup then [''security.limits''] else []) @
     (if sc_audit sec \<noteq> sc_audit startup then [''security.audit''] else []) @
     (if sc_oauth sec \<noteq> sc_oauth startup then [''security.oauth''] else [])"

record reload_report =
  rr_enabled :: bool
  rr_keys :: "(string \<times> string \<times> string \<times> string) list"
  rr_summary :: string
  rr_not_applied :: "string list"

definition reload_keys ::
  "crypto \<Rightarrow> (string \<Rightarrow> file_read) \<Rightarrow> ('l, 'a, 'o) security_config option \<Rightarrow> ('l, 'a, 'o) key_reloader \<Rightarrow>
   ('l, 'a, 'o) key_reloader \<times> (reload_error, reload_report) result" where
  "reload_keys c files config rl =
     (case config of
        None \<Rightarrow> (rl, Err ConfigUnreadable)
      | Some sec \<Rightarrow>
          (case load_keyring c files sec of
             Inl x \<Rightarrow> (rl, Err (KeysRefused x))
           | Inr ring \<Rightarrow>
               if kr_enabled ring \<and> \<not> ring_holds ring NodeAdmin then (rl, Err NoAdminLeft)
               else (rl\<lparr>rl_loaded := sec, rl_tenant_limits := sc_tenants sec,
                        rl_include_folders := sc_include_folders sec, rl_ring := ring\<rparr>,
                     Ok \<lparr>rr_enabled = kr_enabled ring,
                         rr_keys = map (\<lambda>k. (digest_key_id c (ke_digest k), ke_label k, role_as_str (ke_role k), scope_summary k))
                                     (kr_entries ring),
                         rr_summary = ring_summary ring,
                         rr_not_applied = not_applied (rl_startup rl) sec\<rparr>)))"

section \<open>Scopes as sets of names\<close>

lemma covers_matches: "covers a b \<longleftrightarrow> (\<forall>n. pattern_matches b n \<longrightarrow> pattern_matches a n)"
proof (cases a; cases b)
  fix x p
  assume ab: "a = Exact x" "b = Prefix p"
  have "p @ ''x'' \<noteq> x \<or> p \<noteq> x" by auto
  moreover have "starts_with p p" "starts_with (p @ ''x'') p" by (auto simp: str_simps)
  ultimately show ?thesis unfolding ab covers.simps pattern_matches.simps by blast
qed (auto simp: str_simps)

lemma overlaps_matches: "overlaps a b \<longleftrightarrow> (\<exists>n. pattern_matches a n \<and> pattern_matches b n)"
  by (cases a; cases b) (auto simp: str_simps append_eq_append_conv2)

lemma first_outside_None:
  "first_outside s inner = None \<Longrightarrow> scope_allows inner i \<Longrightarrow> scope_allows s i"
  by (auto simp: first_outside_def find_None_iff scope_allows_def list_ex_iff covers_matches)

lemma overlap_with_None:
  "overlap_with s t = None \<longleftrightarrow> (\<forall>i. \<not> (scope_allows s i \<and> scope_allows t i))"
proof (induction s)
  case (Cons a s)
  have "find (overlaps a) t = None \<longleftrightarrow> (\<forall>i. \<not> (pattern_matches a i \<and> scope_allows t i))"
    by (auto simp: find_None_iff overlaps_matches scope_allows_def list_ex_iff)
  with Cons show ?case by (auto simp: scope_allows_def split: option.split)
qed (simp add: scope_allows_def)

section \<open>The scopes of the tenants\<close>

definition scopes_apart :: "(string, index_scope) omap \<Rightarrow> bool" where
  "scopes_apart scopes \<longleftrightarrow>
     sorted_wrt (\<lambda>(a, s) (b, t). a < b \<and> (\<forall>i. \<not> (scope_allows s i \<and> scope_allows t i))) scopes"

lemma add_tenant_scope_apart:
  assumes "add_tenant_scope scopes (n, q) = Inr scopes'" "scopes_apart scopes" "\<forall>k \<in> set (om_keys scopes). k < n"
  shows "scopes_apart scopes'" "set (om_keys scopes') \<subseteq> insert n (set (om_keys scopes))"
proof -
  from assms(1) consider "scopes' = scopes" | s where "scopes' = scopes @ [(n, s)]"
      "find (\<lambda>(other, t). overlap_with s t \<noteq> None) scopes = None"
  proof (cases "tq_allowed_indexes q")
    case (Some xs)
    with assms(1) obtain s where "(case find (\<lambda>(other, t). overlap_with s t \<noteq> None) scopes of
          Some (other, _) \<Rightarrow> Err (TenantsOverlap n other) | None \<Rightarrow> Ok (scopes @ [(n, s)])) = Inr scopes'"
      by (auto simp: and_then_Ok_iff)
    with that(2) [of s] show thesis by (cases "find (\<lambda>(other, t). overlap_with s t \<noteq> None) scopes") auto
  qed simp
  then have "scopes_apart scopes' \<and> set (om_keys scopes') \<subseteq> insert n (set (om_keys scopes))"
  proof cases
    case 2
    then have "\<forall>(b, t) \<in> set scopes. \<forall>i. \<not> (scope_allows s i \<and> scope_allows t i)"
      by (auto simp: find_None_iff overlap_with_None)
    with assms(2,3) 2 show ?thesis by (fastforce simp: scopes_apart_def sorted_wrt_append om_keys_def)
  qed (use assms in auto)
  then show "scopes_apart scopes'" "set (om_keys scopes') \<subseteq> insert n (set (om_keys scopes))" by simp_all
qed

lemma tenant_scopes_fold:
  assumes "try_fold add_tenant_scope scopes ts = Inr scopes'" "scopes_apart scopes" "om_inv ts"
    "\<forall>k \<in> set (om_keys scopes). \<forall>n \<in> set (om_keys ts). k < n"
  shows "scopes_apart scopes'"
  using assms
proof (induction ts arbitrary: scopes)
  case (Cons x ts)
  obtain n q where x: "x = (n, q)" by (cases x)
  from Cons.prems(1) obtain s1 where s1: "add_tenant_scope scopes (n, q) = Inr s1" "try_fold add_tenant_scope s1 ts = Inr scopes'"
    by (auto simp: x split: sum.splits)
  have n: "\<forall>k \<in> set (om_keys scopes). k < n" using Cons.prems(4) by (simp add: x om_keys_def)
  note a = add_tenant_scope_apart [OF s1(1) Cons.prems(2) n]
  have "\<forall>m \<in> set (om_keys ts). n < m" using Cons.prems(3) by (simp add: x om_inv_def om_keys_def)
  moreover have "\<forall>k \<in> set (om_keys scopes). \<forall>m \<in> set (om_keys ts). k < m" using Cons.prems(4) by (simp add: x)
  ultimately have "\<forall>k \<in> set (om_keys s1). \<forall>m \<in> set (om_keys ts). k < m" using a(2) by blast
  moreover have "om_inv ts" using Cons.prems(3) by (simp add: x om_inv_def)
  ultimately show ?case using Cons.IH [OF s1(2) a(1)] by blast
qed simp

lemma tenant_scopes_apart: "tenant_scopes ts = Inr scopes \<Longrightarrow> om_inv ts \<Longrightarrow> scopes_apart scopes"
  unfolding tenant_scopes_def by (erule tenant_scopes_fold) (simp_all add: scopes_apart_def om_keys_def)

lemma scopes_apart_get:
  assumes "scopes_apart scopes" "om_get scopes a = Some s" "om_get scopes b = Some t" "a \<noteq> b"
  shows "\<not> (scope_allows s i \<and> scope_allows t i)"
proof -
  have inv: "om_inv scopes"
    using assms(1) by (auto simp: scopes_apart_def om_inv_def sorted_wrt_map elim!: sorted_wrt_mono_rel [rotated])
  have disj: "\<not> (scope_allows u i \<and> scope_allows v i)" if "(x, u) \<in> set scopes" "(y, v) \<in> set scopes" "x < y" for x y u v
    using assms(1) that unfolding scopes_apart_def
  proof (induction scopes)
    case (Cons z zs)
    then show ?case by (cases z) auto
  qed simp
  from assms(2,3) inv have "(a, s) \<in> set scopes" "(b, t) \<in> set scopes" by (simp_all add: om_get_iff)
  with disj [of a s b t] disj [of b t a s] assms(4) show ?thesis by (metis not_less_iff_gr_or_eq)
qed

section \<open>The entries of a loaded ring\<close>

definition narrows :: "role \<Rightarrow> (string, role) omap \<Rightarrow> bool" where
  "narrows role ov \<longleftrightarrow> om_inv ov \<and> (\<forall>i r. om_get ov i = Some r \<longrightarrow> set (capabilities r) \<subseteq> set (capabilities role))"

lemma add_override_narrows:
  assumes "add_override role allowed acc x = Inr acc'" "narrows role acc"
  shows "narrows role acc'"
proof (cases x)
  case (Pair name r)
  with assms(1) have "set (capabilities r) \<subseteq> set (capabilities role)" "acc' = om_insert (trim name) r acc"
    by (auto simp: Let_def list_ex_iff role_has_def split: if_splits)
  with assms(2) show ?thesis by (auto simp: narrows_def split: if_splits)
qed

lemma overrides_narrow:
  "try_fold (add_override role allowed) acc xs = Inr ov \<Longrightarrow> narrows role acc \<Longrightarrow> narrows role ov"
  by (induction xs arbitrary: acc) (auto split: sum.splits dest: add_override_narrows)

definition key_sound :: "(string, index_scope) omap \<Rightarrow> key_entry \<Rightarrow> bool" where
  "key_sound scopes k \<longleftrightarrow>
     narrows (ke_role k) (ke_index_overrides k) \<and>
     ke_tenant_scope k = Option.bind (ke_tenant k) (om_get scopes) \<and>
     (\<forall>own t i. ke_allowed_indexes k = Some own \<longrightarrow> ke_tenant_scope k = Some t \<longrightarrow> scope_allows own i \<longrightarrow> scope_allows t i)"

lemma within_tenant_allows:
  assumes "within_tenant ts allowed ov = Inr u" "allowed = Some own" "ts = Some t" "scope_allows own i"
  shows "scope_allows t i"
proof -
  from assms(1-3) have "first_outside t own = None" by (simp add: within_tenant_def split: option.splits)
  from first_outside_None [OF this assms(4)] show ?thesis .
qed

lemma resolve_key_sound:
  assumes "resolve_key c files scopes resolved entry = Inr entries"
  obtains k where "entries = resolved @ [k]" "key_sound scopes k" "ke_digest k \<notin> ke_digest ` set resolved"
proof -
  from assms obtain digest role allowed tenants ov where
      ov: "try_fold (add_override role allowed) [] (ak_index_overrides entry) = Inr ov"
    and fresh: "\<not> list_ex (\<lambda>k. ke_digest k = digest) resolved"
    and wt: "within_tenant (Option.bind (map_option trim (ak_tenant entry)) (om_get scopes)) allowed ov = Inr ()"
    and entries: "entries = resolved @
         [\<lparr>ke_digest = digest, ke_role = role, ke_label = key_label c (ak_label entry) digest,
           ke_allowed_indexes = allowed, ke_index_overrides = ov, ke_tenant = map_option trim (ak_tenant entry),
           ke_tenant_scope = Option.bind (map_option trim (ak_tenant entry)) (om_get scopes), ke_allowed_tenants = tenants\<rparr>]"
    by (auto simp: resolve_key_def and_then_Ok_iff Let_def split: option.splits if_splits)
  have "narrows role ov" by (rule overrides_narrow [OF ov]) (simp add: narrows_def)
  with wt within_tenant_allows [OF wt] fresh that [OF entries] show thesis
    by (auto simp: key_sound_def list_ex_iff)
qed

lemma resolve_keys_sound:
  assumes "try_fold (resolve_key c files scopes) resolved xs = Inr entries"
    "distinct (map ke_digest resolved)" "list_all (key_sound scopes) resolved"
  shows "distinct (map ke_digest entries) \<and> list_all (key_sound scopes) entries"
  using assms
proof (induction xs arbitrary: resolved)
  case (Cons x xs)
  then obtain r1 where r1: "resolve_key c files scopes resolved x = Inr r1" "try_fold (resolve_key c files scopes) r1 xs = Inr entries"
    by (auto split: sum.splits)
  obtain k where "r1 = resolved @ [k]" "key_sound scopes k" "ke_digest k \<notin> ke_digest ` set resolved"
    by (rule resolve_key_sound [OF r1(1)])
  with Cons.prems(2,3) Cons.IH [OF r1(2)] show ?case by simp
qed simp

lemma load_keyring_sound:
  assumes "load_keyring c files sec = Inr ring"
  obtains scopes where "tenant_scopes (sc_tenants sec) = Inr scopes" "distinct (map ke_digest (kr_entries ring))"
    "list_all (key_sound scopes) (kr_entries ring)" "kr_enabled ring = sc_enabled sec"
proof -
  from assms obtain scopes entries where s: "tenant_scopes (sc_tenants sec) = Inr scopes"
      "try_fold (resolve_key c files scopes) [] (sc_api_keys sec @ (case sc_override_key sec of Some k \<Rightarrow> [k] | None \<Rightarrow> [])) = Inr entries"
      "ring = \<lparr>kr_enabled = sc_enabled sec, kr_entries = entries\<rparr>"
    by (auto simp: load_keyring_def and_then_Ok_iff)
  from resolve_keys_sound [OF s(2)] s that show thesis by simp
qed

lemma has_on_narrows: "narrows (ke_role k) (ke_index_overrides k) \<Longrightarrow> has_on k c i \<Longrightarrow> key_has k c"
  by (auto simp: narrows_def has_on_def key_has_def role_has_def split: option.splits)

text \<open>A small configuration: two tenants held to their own prefixes, with a key each, and an operator.\<close>

definition plain_crypto :: crypto where
  "plain_crypto = \<lparr>cr_sha256 = take 32, cr_hex_decode = (\<lambda>h. Some (take 32 h)), cr_hex_encode = (\<lambda>b. b)\<rparr>"

definition plain_key :: "char \<Rightarrow> role \<Rightarrow> string option \<Rightarrow> api_key_config" where
  "plain_key x r t =
     \<lparr>ak_key_hash = Some (DIGEST_PREFIX @ replicate 64 x), ak_key_hash_file = None, ak_role = Some r, ak_label = None,
      ak_allowed_indexes = None, ak_index_overrides = [(''shared'', Reader)], ak_tenant = t, ak_allowed_tenants = None\<rparr>"

definition plain_security :: "(unit, unit, unit) security_config" where
  "plain_security =
     \<lparr>sc_enabled = True, sc_implicit_index_creation = True,
      sc_api_keys = [(plain_key CHR ''a'' Writer (Some ''acme''))\<lparr>ak_index_overrides := [(''acme-log'', Reader)]\<rparr>,
                     (plain_key CHR ''b'' Writer (Some ''beta''))\<lparr>ak_index_overrides := []\<rparr>, plain_key CHR ''c'' Admin None],
      sc_tenants = [(''acme'', \<lparr>tq_max_indexes = 0, tq_max_bytes = 0, tq_allowed_indexes = Some [''acme-*'']\<rparr>),
                    (''beta'', \<lparr>tq_max_indexes = 0, tq_max_bytes = 0, tq_allowed_indexes = Some [''beta-*'', ''b'']\<rparr>)],
      sc_include_folders = [], sc_override_key = None, sc_limits = (), sc_audit = (), sc_oauth = ()\<rparr>"

definition plain_ring :: key_ring where
  "plain_ring = projr (load_keyring plain_crypto (\<lambda>_. Missing) plain_security)"

lemma plain_ring_loads: "load_keyring plain_crypto (\<lambda>_. Missing) plain_security = Inr plain_ring"
proof -
  have "\<not> isl (load_keyring plain_crypto (\<lambda>_. Missing) plain_security)" by code_simp
  then show ?thesis unfolding plain_ring_def by (cases "load_keyring plain_crypto (\<lambda>_. Missing) plain_security") simp_all
qed

section \<open>Properties\<close>

text \<open>
  The two relations the loader compares scopes with are what they stand for: one pattern covers another
  exactly when every name the other matches it matches too, and two overlap exactly when some name matches
  both.
\<close>

lemma patterns_are_name_sets:
  "(covers a b \<longleftrightarrow> (\<forall>n. pattern_matches b n \<longrightarrow> pattern_matches a n)) \<and>
   (overlaps a b \<longleftrightarrow> (\<exists>n. pattern_matches a n \<and> pattern_matches b n))"
  by (simp add: covers_matches overlaps_matches)

text \<open>
  C5: Tenants are isolated by the configuration the node accepts: two keys of different tenants, each
  tenant held to a scope, are never both allowed on the same index, whatever their own lists say.
\<close>

theorem tenants_are_isolated:
  assumes "load_keyring c files sec = Inr ring" "om_inv (sc_tenants sec)"
    "k \<in> set (kr_entries ring)" "k' \<in> set (kr_entries ring)" "ke_tenant k \<noteq> ke_tenant k'"
    "ke_tenant_scope k \<noteq> None" "ke_tenant_scope k' \<noteq> None"
  shows "\<not> (allows_index k i \<and> allows_index k' i)"
proof -
  obtain scopes where sc: "tenant_scopes (sc_tenants sec) = Inr scopes" "list_all (key_sound scopes) (kr_entries ring)"
    by (rule load_keyring_sound [OF assms(1)])
  note ap = tenant_scopes_apart [OF sc(1) assms(2)]
  from sc(2) assms(3,4) have "key_sound scopes k" "key_sound scopes k'" by (simp_all add: list_all_iff)
  with assms(6,7) obtain t s t' s' where "ke_tenant k = Some t" "om_get scopes t = Some s" "ke_tenant_scope k = Some s"
      "ke_tenant k' = Some t'" "om_get scopes t' = Some s'" "ke_tenant_scope k' = Some s'"
    by (auto simp: key_sound_def bind_eq_Some_conv)
  moreover from this assms(5) scopes_apart_get [OF ap, of t s t' s' i] have "\<not> (scope_allows s i \<and> scope_allows s' i)" by simp
  ultimately show ?thesis by (auto simp: allows_index_def key_scopes_def)
qed

lemma plain_tenants_sorted: "om_inv (sc_tenants plain_security)"
  by (simp add: plain_security_def om_inv_def)

lemma plain_ring_keys:
  "map (\<lambda>k. (ke_tenant k, ke_tenant_scope k, ke_role k, hd (ke_digest k))) (kr_entries plain_ring) =
   [(Some ''acme'', Some [Prefix ''acme-''], Writer, CHR ''a''),
    (Some ''beta'', Some [Prefix ''beta-'', Exact ''b''], Writer, CHR ''b''), (None, None, Admin, CHR ''c'')]"
  unfolding plain_ring_def by code_simp

theorem tenants_are_isolated_witness:
  "\<not> (allows_index (kr_entries plain_ring ! 0) ''acme-log'' \<and> allows_index (kr_entries plain_ring ! 1) ''acme-log'')"
proof -
  let ?k = "kr_entries plain_ring ! 0" and ?k' = "kr_entries plain_ring ! 1"
  have len: "length (kr_entries plain_ring) = 3" using arg_cong [OF plain_ring_keys, of length] by simp
  have "ke_tenant ?k = Some ''acme''" "ke_tenant ?k' = Some ''beta''" "ke_tenant_scope ?k \<noteq> None" "ke_tenant_scope ?k' \<noteq> None"
    using arg_cong [OF plain_ring_keys, of "\<lambda>xs. xs ! 0"] arg_cong [OF plain_ring_keys, of "\<lambda>xs. xs ! 1"] len by simp_all
  moreover have "?k \<in> set (kr_entries plain_ring)" "?k' \<in> set (kr_entries plain_ring)" using len by simp_all
  ultimately show ?thesis
    using tenants_are_isolated [OF plain_ring_loads plain_tenants_sorted, of ?k ?k'] by simp
qed

text \<open>
  C24: No entry of a loaded ring reaches past what its configuration grants: no two entries share a digest,
  so a key has one role; an override on an index only takes capabilities away; and the indexes of a key's
  own list are among its tenant's.
\<close>

theorem loaded_keys_stay_in_bounds:
  assumes "load_keyring c files sec = Inr ring" "k \<in> set (kr_entries ring)"
  shows "distinct (map ke_digest (kr_entries ring)) \<and> (has_on k cap i \<longrightarrow> key_has k cap) \<and>
    (ke_allowed_indexes k = Some own \<longrightarrow> ke_tenant_scope k = Some t \<longrightarrow> scope_allows own i \<longrightarrow> scope_allows t i)"
proof -
  obtain scopes where sc: "distinct (map ke_digest (kr_entries ring))" "list_all (key_sound scopes) (kr_entries ring)"
    by (rule load_keyring_sound [OF assms(1)])
  with assms(2) have "key_sound scopes k" by (simp add: list_all_iff)
  with sc(1) has_on_narrows [of k cap i] show ?thesis by (auto simp: key_sound_def)
qed

theorem loaded_keys_stay_in_bounds_witness:
  "distinct (map ke_digest (kr_entries plain_ring)) \<and> \<not> has_on (kr_entries plain_ring ! 0) NodeAdmin ''acme-log''"
proof -
  let ?k = "kr_entries plain_ring ! 0"
  have len: "length (kr_entries plain_ring) = 3" using arg_cong [OF plain_ring_keys, of length] by simp
  have "ke_role ?k = Writer" using arg_cong [OF plain_ring_keys, of "\<lambda>xs. xs ! 0"] len by simp
  then have "\<not> key_has ?k NodeAdmin" by (simp add: key_has_def role_has_def)
  moreover have "?k \<in> set (kr_entries plain_ring)" using len by simp
  ultimately show ?thesis using loaded_keys_stay_in_bounds [OF plain_ring_loads, of ?k NodeAdmin "''acme-log''"] by blast
qed

text \<open>
  C25: A reload replaces the ring or leaves it: a refused one changes nothing, and an accepted one installs
  exactly the ring of the new configuration, with a key that holds node administration whenever requests
  are authenticated, so that no sequence of reloads locks the operator out.
\<close>

theorem reload_keeps_an_admin:
  assumes "kr_enabled (rl_ring rl) \<longrightarrow> ring_holds (rl_ring rl) NodeAdmin" "reload_keys c files config rl = (rl', r)"
  shows "(kr_enabled (rl_ring rl') \<longrightarrow> ring_holds (rl_ring rl') NodeAdmin) \<and>
    (case r of Inl _ \<Rightarrow> rl' = rl
     | Inr rep \<Rightarrow> \<exists>sec. config = Some sec \<and> load_keyring c files sec = Inr (rl_ring rl') \<and> rl_tenant_limits rl' = sc_tenants sec \<and>
         rr_enabled rep = sc_enabled sec)"
proof (cases config)
  case (Some sec)
  show ?thesis
  proof (cases "load_keyring c files sec")
    case (Inr ring)
    from load_keyring_sound [OF Inr] have "kr_enabled ring = sc_enabled sec" .
    with assms Some Inr show ?thesis by (auto simp: reload_keys_def split: if_splits)
  qed (use assms Some in \<open>auto simp: reload_keys_def\<close>)
qed (use assms in \<open>auto simp: reload_keys_def\<close>)

definition plain_reloader :: "(unit, unit, unit) key_reloader" where
  "plain_reloader =
     \<lparr>rl_ring = plain_ring, rl_startup = plain_security, rl_tenant_limits = sc_tenants plain_security,
      rl_include_folders = [], rl_loaded = plain_security\<rparr>"

theorem reload_keeps_an_admin_witness:
  "ring_holds (rl_ring (fst (reload_keys plain_crypto (\<lambda>_. Missing)
     (Some (plain_security\<lparr>sc_api_keys := [plain_key CHR ''b'' Writer None]\<rparr>)) plain_reloader))) NodeAdmin"
proof -
  let ?run = "reload_keys plain_crypto (\<lambda>_. Missing) (Some (plain_security\<lparr>sc_api_keys := [plain_key CHR ''b'' Writer None]\<rparr>)) plain_reloader"
  have adm: "ring_holds plain_ring NodeAdmin" "kr_enabled plain_ring" unfolding plain_ring_def by code_simp+
  then have pre: "kr_enabled (rl_ring plain_reloader) \<longrightarrow> ring_holds (rl_ring plain_reloader) NodeAdmin"
    by (simp add: plain_reloader_def)
  have run: "?run = (fst ?run, snd ?run)" by simp
  have "kr_enabled (rl_ring (fst ?run))" unfolding plain_reloader_def plain_ring_def by code_simp
  with reload_keeps_an_admin [OF pre run] show ?thesis by blast
qed

end
