(* ===== verification/OAuth.thy ===== *)
theory OAuth
  imports Auth Wal_Codec
begin

text \<open>
  The node as its own authorization server (server, \<open>oauth.rs\<close>): signed artifacts, client registration and
  its redirect addresses, the exchange of a code and the refresh of a token, and the check of an access
  token at the gate. The clock is read where the source reads it: every reading is an argument. The keyed
  hash, the base64 codec and the JSON codecs of the payloads are parameters.
\<close>

section \<open>Text helpers\<close>

fun split_once :: "char \<Rightarrow> string \<Rightarrow> (string \<times> string) option" where
  "split_once c [] = None"
| "split_once c (x # s) = (if x = c then Some ([], s) else map_option (\<lambda>(a, b). (x # a, b)) (split_once c s))"

fun split_once_str :: "string \<Rightarrow> string \<Rightarrow> (string \<times> string) option" where
  "split_once_str p [] = (if p = [] then Some ([], []) else None)"
| "split_once_str p (x # s) =
     (case strip_prefix p (x # s) of
        Some r \<Rightarrow> Some ([], r)
      | None \<Rightarrow> map_option (\<lambda>(a, b). (x # a, b)) (split_once_str p s))"

definition trim_end_char :: "char \<Rightarrow> string \<Rightarrow> string" where
  "trim_end_char c s = rev (dropWhile (\<lambda>x. x = c) (rev s))"

definition is_ascii_digit :: "char \<Rightarrow> bool" where
  "is_ascii_digit c = (let n = of_char c :: nat in 48 \<le> n \<and> n \<le> 57)"

definition is_ascii_graphic :: "char \<Rightarrow> bool" where
  "is_ascii_graphic c = (let n = of_char c :: nat in 33 \<le> n \<and> n \<le> 126)"

section \<open>Constants and configuration\<close>

definition ACCESS_PREFIX :: string where "ACCESS_PREFIX = ''cameo_at1_''"
definition REFRESH_PREFIX :: string where "REFRESH_PREFIX = ''cameo_rt1_''"
definition CODE_PREFIX :: string where "CODE_PREFIX = ''cameo_code1_''"
definition CLIENT_PREFIX :: string where "CLIENT_PREFIX = ''cameo_client1_''"
definition REQUEST_PREFIX :: string where "REQUEST_PREFIX = ''cameo_req1_''"
definition CLIENT_SECRET_DOMAIN :: string where "CLIENT_SECRET_DOMAIN = ''cameo_secret1_''"
definition SECRET_PREFIX :: string where "SECRET_PREFIX = ''cameo_oauth_v1_''"
definition CODE_TTL_SECS :: nat where "CODE_TTL_SECS = 60"
definition REQUEST_TTL_SECS :: nat where "REQUEST_TTL_SECS = 600"
definition MAX_ARTIFACT_LEN :: nat where "MAX_ARTIFACT_LEN = 8 * 1024"
definition MAX_REDIRECT_URIS :: nat where "MAX_REDIRECT_URIS = 8"
definition MAX_REDIRECT_URI_LEN :: nat where "MAX_REDIRECT_URI_LEN = 512"
definition MAX_CLIENT_NAME_LEN :: nat where "MAX_CLIENT_NAME_LEN = 100"

record oauth_config =
  oc_enabled :: bool
  oc_issuer :: "string option"
  oc_signing_key_file :: "string option"
  oc_access_token_ttl_secs :: nat
  oc_refresh_token_ttl_secs :: nat
  oc_approval_max_age_secs :: nat

definition is_loopback_host :: "string \<Rightarrow> bool" where
  "is_loopback_host authority =
     (case (case strip_prefix ''['' authority of
              Some v6 \<Rightarrow> split_once CHR '']'' v6
            | None \<Rightarrow> Some (takeWhile (\<lambda>c. c \<noteq> CHR '':'') authority, dropWhile (\<lambda>c. c \<noteq> CHR '':'') authority)) of
        None \<Rightarrow> False
      | Some (host, port) \<Rightarrow>
          (port = [] \<or>
           (case strip_prefix '':'' port of
              Some p \<Rightarrow> p \<noteq> [] \<and> length p \<le> 5 \<and> list_all is_ascii_digit p
            | None \<Rightarrow> False)) \<and>
          host \<in> set [''localhost'', ''127.0.0.1'', ''::1''])"

datatype issuer_error = NotAUrl | NotHostOnly | NotHttps

definition normalize_issuer :: "string \<Rightarrow> (issuer_error, string) result" where
  "normalize_issuer issuer =
     (let trimmed = trim_end_char CHR ''/'' (trim issuer) in
      case split_once_str ''://'' trimmed of
        None \<Rightarrow> Err NotAUrl
      | Some (scheme, rest) \<Rightarrow>
          if rest = [] \<or> list_ex (\<lambda>c. c \<in> set ''/?#@'') rest then Err NotHostOnly
          else if scheme = ''https'' \<or> scheme = ''http'' \<and> is_loopback_host rest then Ok trimmed
          else Err NotHttps)"

datatype config_error =
    SecurityOff | McpOff | NoIssuer | BadIssuer issuer_error | NoSigningKey | ZeroLifetime | RefreshShorter | ApprovalShorter

definition validate_oauth :: "oauth_config \<Rightarrow> bool \<Rightarrow> bool \<Rightarrow> (config_error, unit) result" where
  "validate_oauth c security_enabled mcp_enabled =
     (if \<not> oc_enabled c then Ok ()
      else if \<not> security_enabled then Err SecurityOff
      else if \<not> mcp_enabled then Err McpOff
      else case oc_issuer c of
             None \<Rightarrow> Err NoIssuer
           | Some issuer \<Rightarrow>
               (case normalize_issuer issuer of
                  Inl x \<Rightarrow> Err (BadIssuer x)
                | Inr _ \<Rightarrow>
                    if oc_signing_key_file c = None then Err NoSigningKey
                    else if oc_access_token_ttl_secs c = 0 \<or> oc_refresh_token_ttl_secs c = 0 \<or> oc_approval_max_age_secs c = 0
                    then Err ZeroLifetime
                    else if oc_refresh_token_ttl_secs c < oc_access_token_ttl_secs c then Err RefreshShorter
                    else if oc_approval_max_age_secs c < oc_access_token_ttl_secs c then Err ApprovalShorter
                    else Ok ()))"

section \<open>Artifacts\<close>

datatype client_auth = NoAuth | ClientSecretPost | ClientSecretBasic

definition client_auth_parse :: "string \<Rightarrow> client_auth option" where
  "client_auth_parse s =
     (if s = ''none'' then Some NoAuth
      else if s = ''client_secret_post'' then Some ClientSecretPost
      else if s = ''client_secret_basic'' then Some ClientSecretBasic
      else None)"

record client =
  ct_redirect_uris :: "string list"
  ct_name :: "string option"
  ct_auth :: client_auth
  ct_issued_at :: nat

record authorize_request =
  rq_client_id :: string
  rq_redirect_uri :: string
  rq_code_challenge :: string
  rq_state :: "string option"
  rq_exp :: nat

record code_grant =
  cg_client :: string
  cg_redirect_uri :: string
  cg_code_challenge :: string
  cg_key :: string
  cg_exp :: nat
  cg_nonce :: string

record token_claims =
  tc_key :: string
  tc_client :: string
  tc_aud :: string
  tc_exp :: nat
  tc_auth_time :: "nat option"
  tc_nonce :: string

type_synonym 'a codec = "('a \<Rightarrow> bytes) \<times> (bytes \<Rightarrow> 'a option)"

record oauth_deps =
  od_crypto :: crypto
  od_hmac :: "bytes \<Rightarrow> bytes \<Rightarrow> bytes"
  od_b64_encode :: "bytes \<Rightarrow> string"
  od_b64_decode :: "string \<Rightarrow> bytes option"
  od_client :: "client codec"
  od_request :: "authorize_request codec"
  od_code :: "code_grant codec"
  od_claims :: "token_claims codec"

text \<open>
  What the flow relies on: base64 without padding is read strictly, so a text that decodes is the encoding
  of what it decodes to, and has no full stop in it; a payload reads back from its JSON; hexadecimal reads
  back.
\<close>

definition codec_ok :: "'a codec \<Rightarrow> bool" where
  "codec_ok c \<longleftrightarrow> (\<forall>x. snd c (fst c x) = Some x)"

definition oauth_laws :: "oauth_deps \<Rightarrow> bool" where
  "oauth_laws od \<longleftrightarrow>
     (\<forall>b. od_b64_decode od (od_b64_encode od b) = Some b) \<and>
     (\<forall>s b. od_b64_decode od s = Some b \<longrightarrow> s = od_b64_encode od b) \<and>
     (\<forall>b. CHR ''.'' \<notin> set (od_b64_encode od b)) \<and>
     codec_ok (od_client od) \<and> codec_ok (od_request od) \<and> codec_ok (od_code od) \<and> codec_ok (od_claims od)"

definition artifact_tag :: "oauth_deps \<Rightarrow> bytes \<Rightarrow> string \<Rightarrow> string \<Rightarrow> bytes" where
  "artifact_tag od key pre body = od_hmac od key (pre @ ''.'' @ body)"

definition seal :: "oauth_deps \<Rightarrow> bytes \<Rightarrow> 'a codec \<Rightarrow> string \<Rightarrow> 'a \<Rightarrow> string" where
  "seal od key codec pre payload =
     (let body = od_b64_encode od (fst codec payload)
      in pre @ body @ ''.'' @ od_b64_encode od (artifact_tag od key pre body))"

definition open_artifact :: "oauth_deps \<Rightarrow> bytes \<Rightarrow> 'a codec \<Rightarrow> string \<Rightarrow> string \<Rightarrow> 'a option" where
  "open_artifact od key codec pre artifact =
     (if length artifact > MAX_ARTIFACT_LEN then None
      else
        Option.bind (strip_prefix pre artifact) (\<lambda>rest.
        Option.bind (split_once CHR ''.'' rest) (\<lambda>(body, tag).
        Option.bind (od_b64_decode od tag) (\<lambda>t.
        if artifact_tag od key pre body = t
        then Option.bind (od_b64_decode od body) (snd codec)
        else None))))"

definition derive :: "oauth_deps \<Rightarrow> bytes \<Rightarrow> string \<Rightarrow> string \<Rightarrow> string" where
  "derive od key domain input = od_b64_encode od (artifact_tag od key domain input)"

section \<open>The server\<close>

record oauth =
  oa_issuer :: string
  oa_resource :: string
  oa_key :: bytes
  oa_access_ttl :: nat
  oa_refresh_ttl :: nat
  oa_approval_max_age :: nat
  oa_redeemed :: "(string, nat) omap"

definition signing_key_parse :: "oauth_deps \<Rightarrow> string \<Rightarrow> bytes option" where
  "signing_key_parse od text =
     Option.bind (strip_prefix SECRET_PREFIX (trim text)) (\<lambda>body.
     Option.bind (od_b64_decode od body) (\<lambda>b. if length b = 32 then Some b else None))"

definition oauth_load :: "oauth_deps \<Rightarrow> (string \<Rightarrow> file_read) \<Rightarrow> oauth_config \<Rightarrow> oauth option option" where
  "oauth_load od files c =
     (if \<not> oc_enabled c then Some None
      else case normalize_issuer (case oc_issuer c of Some i \<Rightarrow> i | None \<Rightarrow> []) of
             Inl _ \<Rightarrow> None
           | Inr issuer \<Rightarrow>
               (case map_option files (oc_signing_key_file c) of
                  Some (Contents text) \<Rightarrow>
                    (case signing_key_parse od text of
                       None \<Rightarrow> None
                     | Some key \<Rightarrow>
                         Some (Some \<lparr>oa_issuer = issuer, oa_resource = issuer @ ''/mcp'', oa_key = key,
                                     oa_access_ttl = oc_access_token_ttl_secs c, oa_refresh_ttl = oc_refresh_token_ttl_secs c,
                                     oa_approval_max_age = oc_approval_max_age_secs c, oa_redeemed = []\<rparr>))
                | _ \<Rightarrow> None))"

definition accepts_resource :: "oauth \<Rightarrow> string option \<Rightarrow> bool" where
  "accepts_resource oa resource =
     (case resource of
        None \<Rightarrow> True
      | Some r \<Rightarrow> (let r' = trim_end_char CHR ''/'' r in r' = oa_resource oa \<or> r' = oa_issuer oa))"

section \<open>Redirect addresses\<close>

definition loopback_parts :: "string \<Rightarrow> (string \<times> string) option" where
  "loopback_parts uri =
     Option.bind (strip_prefix ''http://'' uri) (\<lambda>rest.
       let authority = takeWhile (\<lambda>c. c \<noteq> CHR ''/'') rest; path = dropWhile (\<lambda>c. c \<noteq> CHR ''/'') rest in
       if \<not> is_loopback_host authority then None
       else Some (if starts_with authority ''['' then hd (split_on CHR '']'' authority)
                  else hd (split_on CHR '':'' authority), path))"

definition redirect_matches :: "string \<Rightarrow> string \<Rightarrow> bool" where
  "redirect_matches registered requested =
     (registered = requested \<or>
      (case (loopback_parts registered, loopback_parts requested) of
         (Some (host_a, path_a), Some (host_b, path_b)) \<Rightarrow> host_a = host_b \<and> path_a = path_b
       | _ \<Rightarrow> False))"

definition client_redirect_uri :: "client \<Rightarrow> string option \<Rightarrow> string option" where
  "client_redirect_uri c requested =
     (case requested of
        Some uri \<Rightarrow> if list_ex (\<lambda>registered. redirect_matches registered uri) (ct_redirect_uris c) then Some uri else None
      | None \<Rightarrow> if length (ct_redirect_uris c) = 1 then Some (hd (ct_redirect_uris c)) else None)"

datatype redirect_error = UriTooLong | UriNotPrintable | NotAUri | UriRefused

definition check_redirect_uri :: "string \<Rightarrow> (redirect_error, unit) result" where
  "check_redirect_uri uri =
     (if length uri > MAX_REDIRECT_URI_LEN then Err UriTooLong
      else if CHR ''#'' \<in> set uri \<or> \<not> list_all is_ascii_graphic uri then Err UriNotPrintable
      else case split_once CHR '':'' uri of
             None \<Rightarrow> Err NotAUri
           | Some (scheme, rest) \<Rightarrow>
               let authority = map_option (takeWhile (\<lambda>c. c \<noteq> CHR ''/'' \<and> c \<noteq> CHR ''?'')) (strip_prefix ''//'' rest);
                   ok = (if scheme = ''https''
                         then (case authority of Some a \<Rightarrow> a \<noteq> [] \<and> CHR ''@'' \<notin> set a | None \<Rightarrow> False)
                         else if scheme = ''http''
                         then (case authority of Some a \<Rightarrow> is_loopback_host a | None \<Rightarrow> False)
                         else CHR ''.'' \<in> set scheme \<and>
                              list_all (\<lambda>c. is_ascii_alphanumeric c \<or> c \<in> set ''.+-'') scheme)
               in if ok then Ok () else Err UriRefused)"

section \<open>Registration\<close>

text \<open>The characters of a text, each as its bytes, and the code point of one.\<close>

function utf8_chars :: "string \<Rightarrow> string list" where
  "utf8_chars s = (case utf8_char s of None \<Rightarrow> [] | Some r \<Rightarrow> take (length s - length r) s # utf8_chars r)"
  by pat_completeness auto
termination
  by (relation "measure length") (auto dest: utf8_char_length)

declare utf8_chars.simps [simp del]

fun code_point :: "string \<Rightarrow> nat" where
  "code_point [a] = of_char a"
| "code_point [a, b] = (of_char a mod 32) * 64 + of_char b mod 64"
| "code_point [a, b, c] = ((of_char a mod 16) * 64 + of_char b mod 64) * 64 + of_char c mod 64"
| "code_point [a, b, c, d] =
     (((of_char a mod 8) * 64 + of_char b mod 64) * 64 + of_char c mod 64) * 64 + of_char d mod 64"
| "code_point _ = 0"

definition is_control :: "nat \<Rightarrow> bool" where
  "is_control n = (n < 0x20 \<or> 0x7F \<le> n \<and> n \<le> 0x9F)"

definition is_invisible :: "nat \<Rightarrow> bool" where
  "is_invisible n =
     (n = 0xAD \<or> n = 0x61C \<or> n = 0x180E \<or> 0x200B \<le> n \<and> n \<le> 0x200F \<or> 0x202A \<le> n \<and> n \<le> 0x202E \<or>
      0x2060 \<le> n \<and> n \<le> 0x206F \<or> n = 0xFEFF \<or> 0xFFF9 \<le> n \<and> n \<le> 0xFFFB \<or> 0xE0000 \<le> n \<and> n \<le> 0xE007F)"

definition client_name :: "string \<Rightarrow> string option" where
  "client_name n =
     (let shown = concat (filter (\<lambda>c. \<not> is_control (code_point c) \<and> \<not> is_invisible (code_point c)) (utf8_chars n));
          cut = concat (take MAX_CLIENT_NAME_LEN (utf8_chars (trim shown)))
      in if cut = [] then None else Some cut)"

text \<open>The refusals, by the error code the answer carries and the description it gives.\<close>

datatype client_error = IdMissing | UnknownClient | SecretMissing | SecretWrong

datatype grant_error =
    CodeInvalid | CodeExpired | CodeOfAnotherClient | RedirectDiffers | VerifierWrong | CodeUsed | NoKeyNamed | KeyGone
  | RefreshInvalid | RefreshExpired | RefreshOfAnotherClient | ApprovalTooOld

datatype oauth_error =
    VerifierMissing | InvalidGrant grant_error | InvalidClient client_error | InvalidRedirectUri "redirect_error option" | InvalidTarget

definition client_secret :: "oauth_deps \<Rightarrow> oauth \<Rightarrow> string \<Rightarrow> string" where
  "client_secret od oa client_id = derive od (oa_key oa) CLIENT_SECRET_DOMAIN client_id"

definition register ::
  "oauth_deps \<Rightarrow> oauth \<Rightarrow> nat \<Rightarrow> string list \<Rightarrow> string option \<Rightarrow> client_auth \<Rightarrow>
   (oauth_error, string \<times> string option \<times> client) result" where
  "register od oa now uris name auth =
     (if uris = [] \<or> length uris > MAX_REDIRECT_URIS then Err (InvalidRedirectUri None)
      else
        and_then (try_fold (\<lambda>_ uri. map_err (\<lambda>x. InvalidRedirectUri (Some x)) (check_redirect_uri uri)) () uris) (\<lambda>_.
        let c = \<lparr>ct_redirect_uris = uris, ct_name = Option.bind name client_name, ct_auth = auth, ct_issued_at = now\<rparr>;
            i = seal od (oa_key oa) (od_client od) CLIENT_PREFIX c
        in Ok (i, if auth \<noteq> NoAuth then Some (client_secret od oa i) else None, c)))"

definition find_client :: "oauth_deps \<Rightarrow> oauth \<Rightarrow> string \<Rightarrow> client option" where
  "find_client od oa client_id = open_artifact od (oa_key oa) (od_client od) CLIENT_PREFIX client_id"

record client_credentials =
  cc_client_id :: "string option"
  cc_client_secret :: "string option"

definition authenticate_client ::
  "oauth_deps \<Rightarrow> oauth \<Rightarrow> client_credentials \<Rightarrow> (oauth_error, string \<times> client) result" where
  "authenticate_client od oa cr =
     (case cc_client_id cr of
        None \<Rightarrow> Err (InvalidClient IdMissing)
      | Some i \<Rightarrow>
          (case find_client od oa i of
             None \<Rightarrow> Err (InvalidClient UnknownClient)
           | Some c \<Rightarrow>
               if ct_auth c = NoAuth then Ok (i, c)
               else case cc_client_secret cr of
                      None \<Rightarrow> Err (InvalidClient SecretMissing)
                    | Some presented \<Rightarrow>
                        if presented = client_secret od oa i then Ok (i, c)
                        else Err (InvalidClient SecretWrong)))"

section \<open>Codes and tokens\<close>

definition client_hash :: "oauth_deps \<Rightarrow> string \<Rightarrow> string" where
  "client_hash od client_id = od_b64_encode od (take 16 (cr_sha256 (od_crypto od) client_id))"

definition pkce_matches :: "oauth_deps \<Rightarrow> string \<Rightarrow> string \<Rightarrow> bool" where
  "pkce_matches od verifier challenge =
     (43 \<le> length verifier \<and> length verifier \<le> 128 \<and>
      list_all (\<lambda>b. is_ascii_alphanumeric b \<or> b \<in> set ''-._~'') verifier \<and>
      od_b64_encode od (cr_sha256 (od_crypto od) verifier) = challenge)"

definition is_s256_challenge :: "string \<Rightarrow> bool" where
  "is_s256_challenge c = (length c = 43 \<and> list_all (\<lambda>b. is_ascii_alphanumeric b \<or> b \<in> set ''-_'') c)"

definition seal_request ::
  "oauth_deps \<Rightarrow> oauth \<Rightarrow> nat \<Rightarrow> string \<Rightarrow> string \<Rightarrow> string \<Rightarrow> string option \<Rightarrow> string" where
  "seal_request od oa now client_id redirect_uri challenge state =
     seal od (oa_key oa) (od_request od) REQUEST_PREFIX
       \<lparr>rq_client_id = client_id, rq_redirect_uri = redirect_uri, rq_code_challenge = challenge, rq_state = state,
        rq_exp = (now + REQUEST_TTL_SECS) mod u64_mod\<rparr>"

definition open_request :: "oauth_deps \<Rightarrow> oauth \<Rightarrow> nat \<Rightarrow> string \<Rightarrow> authorize_request option" where
  "open_request od oa now sealed =
     (case open_artifact od (oa_key oa) (od_request od) REQUEST_PREFIX sealed of
        Some r \<Rightarrow> if now \<le> rq_exp r then Some r else None
      | None \<Rightarrow> None)"

definition issue_code :: "oauth_deps \<Rightarrow> oauth \<Rightarrow> nat \<Rightarrow> string \<Rightarrow> authorize_request \<Rightarrow> key_entry \<Rightarrow> string" where
  "issue_code od oa now nonce r k =
     seal od (oa_key oa) (od_code od) CODE_PREFIX
       \<lparr>cg_client = client_hash od (rq_client_id r), cg_redirect_uri = rq_redirect_uri r,
        cg_code_challenge = rq_code_challenge r, cg_key = to_config_value (od_crypto od) (ke_digest k),
        cg_exp = (now + CODE_TTL_SECS) mod u64_mod, cg_nonce = nonce\<rparr>"

record token_pair =
  tp_access_token :: string
  tp_refresh_token :: string
  tp_expires_in :: nat

definition claims_until :: "oauth_deps \<Rightarrow> oauth \<Rightarrow> key_entry \<Rightarrow> string \<Rightarrow> nat \<Rightarrow> nat \<Rightarrow> string \<Rightarrow> token_claims" where
  "claims_until od oa k cl exp auth_time nonce =
     \<lparr>tc_key = to_config_value (od_crypto od) (ke_digest k), tc_client = cl, tc_aud = oa_resource oa, tc_exp = exp,
      tc_auth_time = Some auth_time, tc_nonce = nonce\<rparr>"

definition issue_tokens ::
  "oauth_deps \<Rightarrow> oauth \<Rightarrow> nat \<Rightarrow> string \<times> string \<Rightarrow> key_entry \<Rightarrow> string \<Rightarrow> nat \<Rightarrow> token_pair" where
  "issue_tokens od oa now nonces k cl auth_time =
     (let until = sat_add64 auth_time (oa_approval_max_age oa);
          access_exp = min ((now + oa_access_ttl oa) mod u64_mod) until;
          refresh_exp = min ((now + oa_refresh_ttl oa) mod u64_mod) until
      in \<lparr>tp_access_token = seal od (oa_key oa) (od_claims od) ACCESS_PREFIX (claims_until od oa k cl access_exp auth_time (fst nonces)),
          tp_refresh_token = seal od (oa_key oa) (od_claims od) REFRESH_PREFIX (claims_until od oa k cl refresh_exp auth_time (snd nonces)),
          tp_expires_in = access_exp - now\<rparr>)"

definition live_key :: "oauth_deps \<Rightarrow> key_ring \<Rightarrow> string \<Rightarrow> (oauth_error, key_entry) result" where
  "live_key od ring digest =
     (case digest_parse (od_crypto od) digest of
        Inl _ \<Rightarrow> Err (InvalidGrant NoKeyNamed)
      | Inr d \<Rightarrow>
          (case by_digest ring d of
             Some k \<Rightarrow> if key_has k Read then Ok k else Err (InvalidGrant KeyGone)
           | None \<Rightarrow> Err (InvalidGrant KeyGone)))"

text \<open>The part of a code after its last full stop names it among the redeemed.\<close>

definition code_id :: "string \<Rightarrow> string" where
  "code_id code = last (split_on CHR ''.'' code)"

definition redeem_once :: "nat \<Rightarrow> string \<Rightarrow> nat \<Rightarrow> oauth \<Rightarrow> oauth \<times> (oauth_error, unit) result" where
  "redeem_once now code exp oa =
     (let kept = om_retain (\<lambda>_ until. now \<le> until) (oa_redeemed oa);
          oa' = oa\<lparr>oa_redeemed := om_insert (code_id code) exp kept\<rparr>
      in (oa', if om_get kept (code_id code) \<noteq> None then Err (InvalidGrant CodeUsed) else Ok ()))"

text \<open>The readings of the clock one exchange makes, in the order it makes them.\<close>

record readings =
  at_check :: nat
  at_redeem :: nat
  at_auth :: nat
  at_issue :: nat

record exchange_call =
  xc_credentials :: client_credentials
  xc_code :: string
  xc_redirect_uri :: "string option"
  xc_code_verifier :: "string option"
  xc_resource :: "string option"
  xc_nonces :: "string \<times> string"

definition check_grant ::
  "oauth_deps \<Rightarrow> oauth \<Rightarrow> nat \<Rightarrow> exchange_call \<Rightarrow> string \<Rightarrow> code_grant \<Rightarrow> (oauth_error, unit) result" where
  "check_grant od oa now x i g =
     (if cg_exp g < now then Err (InvalidGrant CodeExpired)
      else if cg_client g \<noteq> client_hash od i then Err (InvalidGrant CodeOfAnotherClient)
      else if xc_redirect_uri x \<noteq> Some (cg_redirect_uri g) then Err (InvalidGrant RedirectDiffers)
      else case xc_code_verifier x of
             None \<Rightarrow> Err VerifierMissing
           | Some v \<Rightarrow>
               if \<not> pkce_matches od v (cg_code_challenge g) then Err (InvalidGrant VerifierWrong)
               else if \<not> accepts_resource oa (xc_resource x) then Err InvalidTarget
               else Ok ())"

definition check_code ::
  "oauth_deps \<Rightarrow> oauth \<Rightarrow> nat \<Rightarrow> exchange_call \<Rightarrow> (oauth_error, code_grant) result" where
  "check_code od oa now x =
     and_then (authenticate_client od oa (xc_credentials x)) (\<lambda>ic.
     case open_artifact od (oa_key oa) (od_code od) CODE_PREFIX (xc_code x) of
       None \<Rightarrow> Err (InvalidGrant CodeInvalid)
     | Some g \<Rightarrow> and_then (check_grant od oa now x (fst ic) g) (\<lambda>_. Ok g))"

definition exchange_code ::
  "oauth_deps \<Rightarrow> key_ring \<Rightarrow> readings \<Rightarrow> exchange_call \<Rightarrow> oauth \<Rightarrow> oauth \<times> (oauth_error, token_pair) result" where
  "exchange_code od ring t x oa =
     (case check_code od oa (at_check t) x of
        Inl e \<Rightarrow> (oa, Err e)
      | Inr g \<Rightarrow>
          (case redeem_once (at_redeem t) (xc_code x) (cg_exp g) oa of
             (oa', Inl e) \<Rightarrow> (oa', Err e)
           | (oa', Inr _) \<Rightarrow>
               (case live_key od ring (cg_key g) of
                  Inl e \<Rightarrow> (oa', Err e)
                | Inr k \<Rightarrow> (oa', Ok (issue_tokens od oa (at_issue t) (xc_nonces x) k (cg_client g) (at_auth t))))))"

definition refresh ::
  "oauth_deps \<Rightarrow> oauth \<Rightarrow> key_ring \<Rightarrow> nat \<Rightarrow> nat \<Rightarrow> nat \<Rightarrow> string \<times> string \<Rightarrow> client_credentials \<Rightarrow> string \<Rightarrow> string option \<Rightarrow>
   (oauth_error, token_pair) result" where
  "refresh od oa ring now1 now2 now3 nonces cr token resource =
     and_then (authenticate_client od oa cr) (\<lambda>(i, c).
     case open_artifact od (oa_key oa) (od_claims od) REFRESH_PREFIX token of
       None \<Rightarrow> Err (InvalidGrant RefreshInvalid)
     | Some cl \<Rightarrow>
         if tc_exp cl < now1 then Err (InvalidGrant RefreshExpired)
         else if tc_client cl \<noteq> client_hash od i \<or> tc_aud cl \<noteq> oa_resource oa
         then Err (InvalidGrant RefreshOfAnotherClient)
         else if \<not> accepts_resource oa resource then Err InvalidTarget
         else
           let auth_time = (case tc_auth_time cl of Some a \<Rightarrow> a | None \<Rightarrow> tc_exp cl - oa_refresh_ttl oa) in
           if sat_add64 auth_time (oa_approval_max_age oa) \<le> now2
           then Err (InvalidGrant ApprovalTooOld)
           else and_then (live_key od ring (tc_key cl)) (\<lambda>k.
                Ok (issue_tokens od oa now3 nonces k (tc_client cl) auth_time)))"

datatype token_refusal = TokenInvalid | TokenExpired | WrongAudience | KeyRevoked

definition verify_access ::
  "oauth_deps \<Rightarrow> oauth \<Rightarrow> key_ring \<Rightarrow> nat \<Rightarrow> string \<Rightarrow> (token_refusal, key_entry \<times> string) result" where
  "verify_access od oa ring now token =
     (case open_artifact od (oa_key oa) (od_claims od) ACCESS_PREFIX token of
        None \<Rightarrow> Err TokenInvalid
      | Some cl \<Rightarrow>
          if tc_exp cl < now then Err TokenExpired
          else if tc_aud cl \<noteq> oa_resource oa then Err WrongAudience
          else case digest_parse (od_crypto od) (tc_key cl) of
                 Inl _ \<Rightarrow> Err TokenInvalid
               | Inr d \<Rightarrow> (case by_digest ring d of Some k \<Rightarrow> Ok (k, tc_client cl) | None \<Rightarrow> Err KeyRevoked))"

section \<open>Sealing and opening\<close>

lemma split_once_append: "c \<notin> set a \<Longrightarrow> split_once c (a @ c # b) = Some (a, b)"
  by (induction a) auto

lemma open_seal:
  assumes "oauth_laws od" "codec_ok codec" "length (seal od key codec pre x) \<le> MAX_ARTIFACT_LEN"
  shows "open_artifact od key codec pre (seal od key codec pre x) = Some x"
proof -
  have "split_once CHR ''.'' (od_b64_encode od (fst codec x) @ CHR ''.'' # s) = Some (od_b64_encode od (fst codec x), s)" for s
    by (rule split_once_append) (use assms(1) in \<open>simp add: oauth_laws_def\<close>)
  with assms show ?thesis by (simp add: open_artifact_def seal_def Let_def oauth_laws_def codec_ok_def)
qed

definition artifact_prefixes :: "string list" where
  "artifact_prefixes = [ACCESS_PREFIX, REFRESH_PREFIX, CODE_PREFIX, CLIENT_PREFIX, REQUEST_PREFIX]"

lemma prefixes_apart:
  assumes "p \<in> set artifact_prefixes" "q \<in> set artifact_prefixes" "p \<noteq> q"
  shows "strip_prefix q (p @ s) = None"
  using assms
  by (auto simp: artifact_prefixes_def ACCESS_PREFIX_def REFRESH_PREFIX_def CODE_PREFIX_def CLIENT_PREFIX_def REQUEST_PREFIX_def)

lemma open_other_prefix:
  assumes "p \<in> set artifact_prefixes" "q \<in> set artifact_prefixes" "p \<noteq> q"
  shows "open_artifact od key codec q (seal od key codec' p x) = None"
  using prefixes_apart [OF assms] by (simp add: open_artifact_def seal_def Let_def)

section \<open>Redemption\<close>

definition held :: "string \<Rightarrow> nat \<Rightarrow> oauth \<Rightarrow> bool" where
  "held code exp oa \<longleftrightarrow> om_inv (oa_redeemed oa) \<and> om_get (oa_redeemed oa) (code_id code) = Some exp"

lemma check_code_open:
  assumes "check_code od oa now x = Inr g"
  shows "open_artifact od (oa_key oa) (od_code od) CODE_PREFIX (xc_code x) = Some g"
    "\<exists>i. check_grant od oa now x i g = Inr ()"
  using assms by (auto simp: check_code_def and_then_Ok_iff split: option.splits)

text \<open>Whatever an exchange answers, it leaves the server as it was or as the redemption left it.\<close>

lemma exchange_state:
  "fst (exchange_code od ring t x oa) =
   (case check_code od oa (at_check t) x of
      Inl _ \<Rightarrow> oa | Inr g \<Rightarrow> fst (redeem_once (at_redeem t) (xc_code x) (cg_exp g) oa))"
proof (cases "check_code od oa (at_check t) x")
  case (Inr g)
  obtain oa' r where "redeem_once (at_redeem t) (xc_code x) (cg_exp g) oa = (oa', r)" by (rule prod.exhaust)
  with Inr show ?thesis by (cases r; cases "live_key od ring (cg_key g)") (simp_all add: exchange_code_def)
qed (simp add: exchange_code_def)

lemma redeem_state:
  "oa_key (fst (redeem_once now code exp oa)) = oa_key oa"
  "oa_redeemed (fst (redeem_once now code exp oa)) =
     om_insert (code_id code) exp (om_retain (\<lambda>_ until. now \<le> until) (oa_redeemed oa))"
  by (simp_all add: redeem_once_def Let_def)

lemma exchange_key: "oa_key (fst (exchange_code od ring t x oa)) = oa_key oa"
  by (simp add: exchange_state redeem_state split: sum.split)

lemma exchange_redeems:
  assumes "exchange_code od ring t x oa = (oa', Inr tp)" "om_inv (oa_redeemed oa)"
    "open_artifact od (oa_key oa) (od_code od) CODE_PREFIX (xc_code x) = Some g"
  shows "held (xc_code x) (cg_exp g) oa'"
proof (cases "check_code od oa (at_check t) x")
  case (Inl e)
  with assms(1) show ?thesis by (simp add: exchange_code_def)
next
  case (Inr g')
  from check_code_open(1) [OF Inr] assms(3) have "g' = g" by simp
  with Inr exchange_state [of od ring t x oa] have "oa' = fst (redeem_once (at_redeem t) (xc_code x) (cg_exp g) oa)"
    unfolding assms(1) by simp
  with assms(2) show ?thesis by (simp add: held_def redeem_state)
qed

lemma exchange_holds:
  assumes "held code exp oa" "at_redeem t \<le> exp" "open_artifact od (oa_key oa) (od_code od) CODE_PREFIX code = Some g" "cg_exp g = exp"
    "xc_code x = code \<or> code_id (xc_code x) \<noteq> code_id code"
  shows "held code exp (fst (exchange_code od ring t x oa))"
proof (cases "check_code od oa (at_check t) x")
  case (Inl e)
  with assms(1) show ?thesis by (simp add: exchange_state)
next
  case (Inr g')
  have "cg_exp g' = exp" if "xc_code x = code"
    using check_code_open(1) [OF Inr] assms(3,4) that by simp
  with assms(1,2,5) Inr show ?thesis by (auto simp: held_def exchange_state redeem_state)
qed

lemma held_refuses:
  assumes "held (xc_code x) exp oa" "at_redeem t \<le> exp"
  shows "\<exists>e. snd (exchange_code od ring t x oa) = Inl e"
proof (cases "check_code od oa (at_check t) x")
  case (Inr g)
  with assms show ?thesis by (simp add: exchange_code_def redeem_once_def Let_def held_def)
qed (simp add: exchange_code_def)

section \<open>Lifetimes\<close>

lemma issued_claims:
  assumes "oauth_laws od" "length (tp_access_token (issue_tokens od oa now ns k cl a)) \<le> MAX_ARTIFACT_LEN"
    "open_artifact od (oa_key oa) (od_claims od) ACCESS_PREFIX (tp_access_token (issue_tokens od oa now ns k cl a)) = Some c"
  shows "tc_exp c \<le> sat_add64 a (oa_approval_max_age oa)" "tc_auth_time c = Some a" "tc_client c = cl"
    "tc_key c = to_config_value (od_crypto od) (ke_digest k)"
proof -
  let ?c = "claims_until od oa k cl (min ((now + oa_access_ttl oa) mod u64_mod) (sat_add64 a (oa_approval_max_age oa))) a (fst ns)"
  have "tp_access_token (issue_tokens od oa now ns k cl a) = seal od (oa_key oa) (od_claims od) ACCESS_PREFIX ?c"
    by (simp add: issue_tokens_def Let_def)
  with open_seal [OF assms(1), of "od_claims od" "oa_key oa" ACCESS_PREFIX ?c] assms have "c = ?c"
    by (simp add: oauth_laws_def)
  then show "tc_exp c \<le> sat_add64 a (oa_approval_max_age oa)" "tc_auth_time c = Some a" "tc_client c = cl"
    "tc_key c = to_config_value (od_crypto od) (ke_digest k)" by (simp_all add: claims_until_def)
qed

lemma issued_refresh_claims:
  assumes "oauth_laws od" "length (tp_refresh_token (issue_tokens od oa now ns k cl a)) \<le> MAX_ARTIFACT_LEN"
    "open_artifact od (oa_key oa) (od_claims od) REFRESH_PREFIX (tp_refresh_token (issue_tokens od oa now ns k cl a)) = Some c"
  shows "tc_exp c \<le> sat_add64 a (oa_approval_max_age oa)" "tc_auth_time c = Some a"
proof -
  let ?c = "claims_until od oa k cl (min ((now + oa_refresh_ttl oa) mod u64_mod) (sat_add64 a (oa_approval_max_age oa))) a (snd ns)"
  have "tp_refresh_token (issue_tokens od oa now ns k cl a) = seal od (oa_key oa) (od_claims od) REFRESH_PREFIX ?c"
    by (simp add: issue_tokens_def Let_def)
  with open_seal [OF assms(1), of "od_claims od" "oa_key oa" REFRESH_PREFIX ?c] assms have "c = ?c"
    by (simp add: oauth_laws_def)
  then show "tc_exp c \<le> sat_add64 a (oa_approval_max_age oa)" "tc_auth_time c = Some a" by (simp_all add: claims_until_def)
qed

lemma issued_expires:
  assumes "oauth_laws od" "length (tp_access_token (issue_tokens od oa now ns k cl a)) \<le> MAX_ARTIFACT_LEN"
    "sat_add64 a (oa_approval_max_age oa) < t"
  shows "verify_access od oa ring t (tp_access_token (issue_tokens od oa now ns k cl a)) = Inl TokenExpired \<or>
    verify_access od oa ring t (tp_access_token (issue_tokens od oa now ns k cl a)) = Inl TokenInvalid"
proof (cases "open_artifact od (oa_key oa) (od_claims od) ACCESS_PREFIX (tp_access_token (issue_tokens od oa now ns k cl a))")
  case (Some c)
  from issued_claims(1) [OF assms(1,2) Some] assms(3) have "tc_exp c < t" by simp
  with Some show ?thesis by (simp add: verify_access_def)
qed (simp add: verify_access_def)

end
