(* ===== verification/Audit_Trail.thy ===== *)
theory Audit_Trail
  imports Json "HOL-Library.Option_ord" "HOL-Library.Product_Lexorder"
begin

text \<open>
  The audit trail (\<open>audit.rs\<close>): the records, the totals of the events that are counted rather than listed,
  the ring of recent records, the rotating file, the bounded queue to the writer thread, and the writer. The
  text a record renders to is a parameter, as are the outcomes of the file operations. A clock reading is an
  argument of the step that takes it. The file's own buffer is not modelled: a line is in the file once it is
  written.
\<close>

section \<open>Settings and records\<close>

record audit_config =
  ac_enabled :: bool
  ac_file :: bool
  ac_buffer_capacity :: nat
  ac_queue_capacity :: nat
  ac_max_file_bytes :: nat
  ac_max_files :: nat
  ac_record_query_text :: bool
  ac_rollup_secs :: nat

datatype audit_config_error = BufferZero | QueueZero | RollupZero | FilesZero | FileBytesZero

definition validate_audit :: "audit_config \<Rightarrow> (audit_config_error, unit) result" where
  "validate_audit c =
     (if \<not> ac_enabled c then Ok ()
      else if ac_buffer_capacity c = 0 then Err BufferZero
      else if ac_queue_capacity c = 0 then Err QueueZero
      else if ac_rollup_secs c = 0 then Err RollupZero
      else if ac_max_files c = 0 then Err FilesZero
      else if ac_file c \<and> ac_max_file_bytes c = 0 then Err FileBytesZero
      else Ok ())"

datatype audit_outcome = Allowed | Denied

record audit_record =
  ar_ts :: string
  ar_event :: string
  ar_outcome :: "audit_outcome option"
  ar_reason :: "string option"
  ar_key_id :: "string option"
  ar_label :: "string option"
  ar_role :: "string option"
  ar_peer :: "string option"
  ar_method :: "string option"
  ar_path :: "string option"
  ar_index :: "string option"
  ar_tool :: "string option"
  ar_query :: "string option"
  ar_status :: "nat option"
  ar_ops :: "nat option"
  ar_errors :: "nat option"
  ar_window_start :: "string option"
  ar_dropped :: "nat option"

definition blank_record :: audit_record where
  "blank_record =
     \<lparr>ar_ts = [], ar_event = [], ar_outcome = None, ar_reason = None, ar_key_id = None, ar_label = None, ar_role = None,
      ar_peer = None, ar_method = None, ar_path = None, ar_index = None, ar_tool = None, ar_query = None, ar_status = None,
      ar_ops = None, ar_errors = None, ar_window_start = None, ar_dropped = None\<rparr>"

definition audit_http :: "string \<Rightarrow> string \<Rightarrow> audit_record" where
  "audit_http method path =
     blank_record\<lparr>ar_event := ''http'', ar_method := Some method, ar_path := Some (hd (split_on CHR ''?'' path))\<rparr>"

definition audit_mcp_tool :: "string \<Rightarrow> audit_record" where
  "audit_mcp_tool tool = blank_record\<lparr>ar_event := ''mcp_tool'', ar_tool := Some tool\<rparr>"

definition with_identity :: "string option \<Rightarrow> string option \<Rightarrow> string option \<Rightarrow> audit_record \<Rightarrow> audit_record" where
  "with_identity key_id label role r = r\<lparr>ar_key_id := key_id, ar_label := label, ar_role := role\<rparr>"

definition succeeded :: "audit_record \<Rightarrow> audit_record" where
  "succeeded r = r\<lparr>ar_outcome := Some Allowed\<rparr>"

definition refused :: "string \<Rightarrow> audit_record \<Rightarrow> audit_record" where
  "refused reason r = r\<lparr>ar_outcome := Some Denied, ar_reason := Some reason\<rparr>"

definition allowed :: "nat \<Rightarrow> audit_record \<Rightarrow> audit_record" where
  "allowed status r = r\<lparr>ar_outcome := Some Allowed, ar_status := Some status\<rparr>"

definition denied :: "nat \<Rightarrow> string \<Rightarrow> audit_record \<Rightarrow> audit_record" where
  "denied status reason r = r\<lparr>ar_outcome := Some Denied, ar_status := Some status, ar_reason := Some reason\<rparr>"

section \<open>Totals\<close>

text \<open>
  The totals are kept in a hash map, whose order a flush does away with: the records it drains are sorted,
  and only totals that differ in nothing but their outcome keep the map's order. The list stands for that
  map.
\<close>

type_synonym rollup_key = "string \<times> string option \<times> string option \<times> audit_outcome option"

record rollup =
  ru_ops :: nat
  ru_errors :: nat
  ru_window_start :: string
  ru_label :: "string option"
  ru_role :: "string option"

type_synonym rollups = "(rollup_key \<times> rollup) list"

definition rollup_key_of :: "audit_record \<Rightarrow> rollup_key" where
  "rollup_key_of r = (ar_event r, ar_key_id r, ar_index r, ar_outcome r)"

definition count_op :: "bool \<Rightarrow> rollup \<Rightarrow> rollup" where
  "count_op failed u = u\<lparr>ru_ops := ru_ops u + 1, ru_errors := ru_errors u + (if failed then 1 else 0)\<rparr>"

definition new_rollup :: "audit_record \<Rightarrow> rollup" where
  "new_rollup r = \<lparr>ru_ops = 0, ru_errors = 0, ru_window_start = ar_ts r, ru_label = ar_label r, ru_role = ar_role r\<rparr>"

definition record_failed :: "audit_record \<Rightarrow> bool" where
  "record_failed r = (case ar_status r of Some s \<Rightarrow> 400 \<le> s | None \<Rightarrow> False)"

fun rollups_fold :: "audit_record \<Rightarrow> rollups \<Rightarrow> rollups" where
  "rollups_fold r [] = [(rollup_key_of r, count_op (record_failed r) (new_rollup r))]"
| "rollups_fold r ((k, u) # us) =
     (if k = rollup_key_of r then (k, count_op (record_failed r) u) # us else (k, u) # rollups_fold r us)"

fun rollup_record :: "string \<Rightarrow> rollup_key \<times> rollup \<Rightarrow> audit_record" where
  "rollup_record now ((event, key_id, index, res), u) =
     blank_record\<lparr>ar_ts := now, ar_event := event, ar_outcome := res, ar_key_id := key_id, ar_label := ru_label u,
       ar_role := ru_role u, ar_index := index, ar_ops := Some (ru_ops u), ar_errors := Some (ru_errors u),
       ar_window_start := Some (ru_window_start u)\<rparr>"

definition rollups_drain :: "string \<Rightarrow> rollups \<Rightarrow> audit_record list" where
  "rollups_drain now us = sort_key (\<lambda>r. (ar_key_id r, ar_index r, ar_event r)) (map (rollup_record now) us)"

section \<open>The ring\<close>

record audit_ring =
  rg_capacity :: nat
  rg_records :: "audit_record list"

definition audit_ring_new :: "nat \<Rightarrow> audit_ring" where
  "audit_ring_new capacity = \<lparr>rg_capacity = max capacity 1, rg_records = []\<rparr>"

definition ring_push :: "audit_record \<Rightarrow> audit_ring \<Rightarrow> audit_ring" where
  "ring_push r g =
     g\<lparr>rg_records := (if length (rg_records g) = rg_capacity g then tl (rg_records g) else rg_records g) @ [r]\<rparr>"

definition ring_recent :: "nat \<Rightarrow> audit_ring \<Rightarrow> audit_record list" where
  "ring_recent limit g = take limit (rev (rg_records g))"

section \<open>The file\<close>

text \<open>
  A directory gives each name an inode and an inode its lines. Name 0 is the active file and name \<open>i\<close> its
  \<open>i\<close>th rotation. The handle is an inode, so it follows the file through a rename.
\<close>

record audit_disk =
  dk_names :: "(nat, nat) omap"
  dk_data :: "(nat, string list) omap"
  dk_fresh :: nat

record file_sink =
  fk_handle :: nat
  fk_written :: nat
  fk_max_bytes :: nat
  fk_max_files :: nat

text \<open>Which of the file operations of a step succeed.\<close>

record io =
  io_write :: bool
  io_rename :: "nat \<Rightarrow> bool"
  io_open :: bool

definition rename :: "nat \<Rightarrow> nat \<Rightarrow> audit_disk \<Rightarrow> audit_disk" where
  "rename from to d =
     (case om_get (dk_names d) from of
        None \<Rightarrow> d
      | Some i \<Rightarrow> d\<lparr>dk_names := om_insert to i (om_remove from (dk_names d))\<rparr>)"

definition open_append :: "audit_disk \<Rightarrow> audit_disk \<times> nat" where
  "open_append d =
     (case om_get (dk_names d) 0 of
        Some i \<Rightarrow> (d, i)
      | None \<Rightarrow> (d\<lparr>dk_names := om_insert 0 (dk_fresh d) (dk_names d), dk_data := om_insert (dk_fresh d) [] (dk_data d),
                   dk_fresh := dk_fresh d + 1\<rparr>, dk_fresh d))"

definition lines_of :: "audit_disk \<Rightarrow> nat \<Rightarrow> string list" where
  "lines_of d i = (case om_get (dk_data d) i of Some ls \<Rightarrow> ls | None \<Rightarrow> [])"

definition sink_open :: "nat \<Rightarrow> nat \<Rightarrow> audit_disk \<Rightarrow> audit_disk \<times> file_sink" where
  "sink_open max_bytes max_files d =
     (let (d', i) = open_append d
      in (d', \<lparr>fk_handle = i, fk_written = (\<Sum>l\<leftarrow>lines_of d' i. length l + 1), fk_max_bytes = max_bytes,
               fk_max_files = max max_files 1\<rparr>))"

fun shift_from :: "io \<Rightarrow> nat \<Rightarrow> audit_disk \<Rightarrow> audit_disk" where
  "shift_from io 0 d = d"
| "shift_from io (Suc i) d = shift_from io i (if io_rename io (Suc i) then rename (Suc i) (i + 2) d else d)"

definition rotate_file :: "io \<Rightarrow> file_sink \<times> audit_disk \<Rightarrow> file_sink \<times> audit_disk" where
  "rotate_file io fd =
     (let f = fst fd; d = shift_from io (fk_max_files f - 1) (snd fd) in
      if \<not> io_rename io 0 \<or> om_get (dk_names d) 0 = None then (f, d)
      else let d = rename 0 1 d in
           if io_open io then let (d, i) = open_append d in (f\<lparr>fk_handle := i, fk_written := 0\<rparr>, d)
           else (f, d))"

definition sink_write :: "io \<Rightarrow> string \<Rightarrow> file_sink \<times> audit_disk \<Rightarrow> file_sink \<times> audit_disk" where
  "sink_write io line fd =
     (if \<not> io_write io then fd
      else
        let f = fst fd; d = snd fd;
            d = d\<lparr>dk_data := om_insert (fk_handle f) (lines_of d (fk_handle f) @ [line]) (dk_data d)\<rparr>;
            f = f\<lparr>fk_written := fk_written f + length line + 1\<rparr>
        in if fk_max_bytes f \<le> fk_written f then rotate_file io (f, d) else (f, d))"

section \<open>The queue and the writer\<close>

datatype message = Detail audit_record | Rolled audit_record | Shutdown

record audit_sink =
  as_enabled :: bool
  as_queue :: "message list"
  as_capacity :: nat
  as_dropped :: nat
  as_ring :: audit_ring
  as_record_query_text :: bool
  aw_running :: bool
  aw_rollups :: rollups
  aw_reported :: nat
  aw_interval :: nat
  aw_next_flush :: nat
  aw_file :: "(file_sink \<times> audit_disk) option"
  aw_log :: "audit_record list"

definition audit_disabled :: audit_sink where
  "audit_disabled =
     \<lparr>as_enabled = False, as_queue = [], as_capacity = 0, as_dropped = 0, as_ring = audit_ring_new 1, as_record_query_text = False,
      aw_running = False, aw_rollups = [], aw_reported = 0, aw_interval = 1, aw_next_flush = 0, aw_file = None, aw_log = []\<rparr>"

definition audit_start :: "bool \<Rightarrow> audit_disk \<Rightarrow> nat \<Rightarrow> audit_config \<Rightarrow> audit_sink" where
  "audit_start can_open d now c =
     (if \<not> ac_enabled c then audit_disabled
      else
        let interval = max (ac_rollup_secs c) 1 in
        \<lparr>as_enabled = True, as_queue = [], as_capacity = ac_queue_capacity c, as_dropped = 0,
         as_ring = audit_ring_new (ac_buffer_capacity c), as_record_query_text = ac_record_query_text c, aw_running = True,
         aw_rollups = [], aw_reported = 0, aw_interval = interval, aw_next_flush = now + interval,
         aw_file = (if ac_file c \<and> can_open
                    then Some (let (d', f) = sink_open (ac_max_file_bytes c) (ac_max_files c) d in (f, d')) else None),
         aw_log = []\<rparr>)"

definition audit_send :: "(audit_record \<Rightarrow> message) \<Rightarrow> string \<Rightarrow> audit_record \<Rightarrow> audit_sink \<Rightarrow> audit_sink" where
  "audit_send wrap ts r s =
     (if \<not> as_enabled s then s
      else if aw_running s \<and> length (as_queue s) < as_capacity s then s\<lparr>as_queue := as_queue s @ [wrap (r\<lparr>ar_ts := ts\<rparr>)]\<rparr>
      else s\<lparr>as_dropped := as_dropped s + 1\<rparr>)"

definition audit_emit :: "io \<Rightarrow> (audit_record \<Rightarrow> string) \<Rightarrow> audit_record \<Rightarrow> audit_sink \<Rightarrow> audit_sink" where
  "audit_emit io render r s =
     s\<lparr>aw_file := map_option (sink_write io (render r)) (aw_file s), aw_log := aw_log s @ [r], as_ring := ring_push r (as_ring s)\<rparr>"

definition gap_record :: "string \<Rightarrow> nat \<Rightarrow> audit_record" where
  "gap_record now lost = blank_record\<lparr>ar_ts := now, ar_event := ''gap'', ar_dropped := Some lost\<rparr>"

definition audit_flush :: "io \<Rightarrow> (audit_record \<Rightarrow> string) \<Rightarrow> string \<Rightarrow> audit_sink \<Rightarrow> audit_sink" where
  "audit_flush io render now s =
     (let s = fold (audit_emit io render) (rollups_drain now (aw_rollups s)) (s\<lparr>aw_rollups := []\<rparr>) in
      if aw_reported s < as_dropped s
      then audit_emit io render (gap_record now (as_dropped s - aw_reported s)) (s\<lparr>aw_reported := as_dropped s\<rparr>)
      else s)"

text \<open>
  One turn of the writer. A waiting message is received however late it is; only an empty queue lets the
  timer fire, and before it fires the writer sleeps.
\<close>

definition writer_turn :: "io \<Rightarrow> (audit_record \<Rightarrow> string) \<Rightarrow> nat \<Rightarrow> string \<Rightarrow> audit_sink \<Rightarrow> audit_sink" where
  "writer_turn io render now ts s =
     (if \<not> aw_running s then s
      else case as_queue s of
             Detail r # q \<Rightarrow> audit_emit io render r (s\<lparr>as_queue := q\<rparr>)
           | Rolled r # q \<Rightarrow> s\<lparr>as_queue := q, aw_rollups := rollups_fold r (aw_rollups s)\<rparr>
           | Shutdown # q \<Rightarrow> (audit_flush io render ts (s\<lparr>as_queue := q\<rparr>))\<lparr>aw_running := False\<rparr>
           | [] \<Rightarrow> if aw_next_flush s \<le> now
                  then (audit_flush io render ts s)\<lparr>aw_next_flush := now + aw_interval s\<rparr>
                  else s)"

text \<open>Shutdown waits for room in the queue: the step is taken when there is some.\<close>

definition audit_shutdown :: "audit_sink \<Rightarrow> audit_sink" where
  "audit_shutdown s =
     (if as_enabled s \<and> aw_running s \<and> length (as_queue s) < as_capacity s then s\<lparr>as_queue := as_queue s @ [Shutdown]\<rparr> else s)"

datatype audit_event =
    EvRecord string audit_record
  | EvRolled string audit_record
  | EvShutdown
  | EvWriter io nat string

fun audit_exec :: "(audit_record \<Rightarrow> string) \<Rightarrow> audit_event \<Rightarrow> audit_sink \<Rightarrow> audit_sink" where
  "audit_exec render (EvRecord ts r) s = audit_send Detail ts r s"
| "audit_exec render (EvRolled ts r) s = audit_send Rolled ts r s"
| "audit_exec render EvShutdown s = audit_shutdown s"
| "audit_exec render (EvWriter io now ts) s = writer_turn io render now ts s"

section \<open>What a line stands for\<close>

definition events_of :: "audit_record \<Rightarrow> nat" where
  "events_of r = (case ar_ops r of Some n \<Rightarrow> n | None \<Rightarrow> if ar_dropped r = None then 1 else 0)"

definition lost_of :: "audit_record \<Rightarrow> nat" where
  "lost_of r = (case ar_dropped r of Some n \<Rightarrow> n | None \<Rightarrow> 0)"

definition single_event :: "audit_record \<Rightarrow> bool" where
  "single_event r \<longleftrightarrow> ar_ops r = None \<and> ar_dropped r = None"

fun message_ok :: "message \<Rightarrow> bool" where
  "message_ok (Detail r) = single_event r"
| "message_ok (Rolled r) = single_event r"
| "message_ok Shutdown = True"

fun event_ok :: "audit_event \<Rightarrow> bool" where
  "event_ok (EvRecord ts r) = single_event r"
| "event_ok (EvRolled ts r) = single_event r"
| "event_ok _ = True"

fun sent :: "audit_event \<Rightarrow> nat" where
  "sent (EvRecord _ _) = 1"
| "sent (EvRolled _ _) = 1"
| "sent _ = 0"

definition queued :: "audit_sink \<Rightarrow> nat" where
  "queued s = length (filter (\<lambda>m. m \<noteq> Shutdown) (as_queue s))"

definition open_totals :: "rollups \<Rightarrow> nat" where
  "open_totals us = (\<Sum>(k, u)\<leftarrow>us. ru_ops u)"

definition accounted :: "audit_sink \<Rightarrow> nat" where
  "accounted s = (\<Sum>r\<leftarrow>aw_log s. events_of r) + open_totals (aw_rollups s) + queued s + as_dropped s"

definition ring_shows :: "audit_ring \<Rightarrow> audit_record list \<Rightarrow> bool" where
  "ring_shows g log \<longleftrightarrow> 0 < rg_capacity g \<and> rg_records g = drop (length log - rg_capacity g) log"

definition audit_inv :: "audit_sink \<Rightarrow> bool" where
  "audit_inv s \<longleftrightarrow>
     list_all message_ok (as_queue s) \<and> length (as_queue s) \<le> as_capacity s \<and>
     (\<Sum>r\<leftarrow>aw_log s. lost_of r) = aw_reported s \<and> aw_reported s \<le> as_dropped s \<and>
     ring_shows (as_ring s) (aw_log s) \<and> (\<not> aw_running s \<longrightarrow> aw_rollups s = [])"

lemma ring_push_shows: "ring_shows g log \<Longrightarrow> ring_shows (ring_push r g) (log @ [r])"
  by (auto simp: ring_shows_def ring_push_def tl_drop drop_Suc Suc_diff_le)

lemma events_single [simp]: "single_event r \<Longrightarrow> events_of r = 1" "single_event r \<Longrightarrow> lost_of r = 0"
  by (simp_all add: single_event_def events_of_def lost_of_def)

lemma single_event_ts [simp]: "single_event (r\<lparr>ar_ts := ts\<rparr>) = single_event r"
  by (simp add: single_event_def)

lemma pending_fold: "open_totals (rollups_fold r us) = open_totals us + 1"
  by (induction r us rule: rollups_fold.induct) (auto simp: open_totals_def count_op_def new_rollup_def)

lemma rollup_record_events: "events_of (rollup_record now ku) = ru_ops (snd ku)" "lost_of (rollup_record now ku) = 0"
  by (cases "(now, ku)" rule: rollup_record.cases, simp add: events_of_def lost_of_def blank_record_def)+

lemma sum_sort_key: "(\<Sum>x\<leftarrow>sort_key k xs. f x) = (\<Sum>x\<leftarrow>xs. f x :: nat)"
  by (metis mset_map mset_sort sum_mset_sum_list)

lemma drain_events:
  "(\<Sum>r\<leftarrow>rollups_drain now us. events_of r) = open_totals us" "(\<Sum>r\<leftarrow>rollups_drain now us. lost_of r) = 0"
  by (simp_all add: rollups_drain_def sum_sort_key comp_def rollup_record_events open_totals_def case_prod_unfold)

text \<open>What emitting a list of records leaves.\<close>

lemma emit_fields [simp]:
  "as_queue (audit_emit io render r s) = as_queue s" "as_capacity (audit_emit io render r s) = as_capacity s"
  "as_dropped (audit_emit io render r s) = as_dropped s" "aw_rollups (audit_emit io render r s) = aw_rollups s"
  "aw_reported (audit_emit io render r s) = aw_reported s" "aw_running (audit_emit io render r s) = aw_running s"
  "aw_log (audit_emit io render r s) = aw_log s @ [r]" "as_enabled (audit_emit io render r s) = as_enabled s"
  by (simp_all add: audit_emit_def)

lemma emit_ring: "ring_shows (as_ring s) (aw_log s) \<Longrightarrow> ring_shows (as_ring (audit_emit io render r s)) (aw_log s @ [r])"
  by (simp add: audit_emit_def ring_push_shows)

lemma emit_all_fields [simp]:
  "as_queue (fold (audit_emit io render) rs s) = as_queue s" "as_capacity (fold (audit_emit io render) rs s) = as_capacity s"
  "as_dropped (fold (audit_emit io render) rs s) = as_dropped s" "aw_rollups (fold (audit_emit io render) rs s) = aw_rollups s"
  "aw_reported (fold (audit_emit io render) rs s) = aw_reported s" "aw_running (fold (audit_emit io render) rs s) = aw_running s"
  "aw_log (fold (audit_emit io render) rs s) = aw_log s @ rs" "as_enabled (fold (audit_emit io render) rs s) = as_enabled s"
  by (induction rs arbitrary: s) simp_all

lemma emit_all_ring:
  "ring_shows (as_ring s) (aw_log s) \<Longrightarrow> ring_shows (as_ring (fold (audit_emit io render) rs s)) (aw_log s @ rs)"
proof (induction rs arbitrary: s)
  case (Cons r rs)
  from Cons.IH [of "audit_emit io render r s"] emit_ring [OF Cons.prems] show ?case by simp
qed simp

section \<open>The writer keeps count\<close>

lemma flush_fields [simp]:
  "as_queue (audit_flush io render now s) = as_queue s" "as_capacity (audit_flush io render now s) = as_capacity s"
  "as_dropped (audit_flush io render now s) = as_dropped s" "aw_rollups (audit_flush io render now s) = []"
  "as_enabled (audit_flush io render now s) = as_enabled s"
  by (simp_all add: audit_flush_def Let_def)

lemma flush_reports: "aw_reported s \<le> as_dropped s \<Longrightarrow> aw_reported (audit_flush io render now s) = as_dropped s"
  by (simp add: audit_flush_def Let_def)

lemma gap_events [simp]: "events_of (gap_record now n) = 0" "lost_of (gap_record now n) = n"
  by (simp_all add: gap_record_def events_of_def lost_of_def blank_record_def)

lemma flush_sums:
  assumes "audit_inv s"
  shows "(\<Sum>r\<leftarrow>aw_log (audit_flush io render now s). events_of r) = (\<Sum>r\<leftarrow>aw_log s. events_of r) + open_totals (aw_rollups s)"
    "(\<Sum>r\<leftarrow>aw_log (audit_flush io render now s). lost_of r) = as_dropped s"
    "ring_shows (as_ring (audit_flush io render now s)) (aw_log (audit_flush io render now s))"
proof -
  let ?rs = "rollups_drain now (aw_rollups s)" and ?s = "s\<lparr>aw_rollups := []\<rparr>"
  from assms have inv: "(\<Sum>r\<leftarrow>aw_log s. lost_of r) = aw_reported s" "aw_reported s \<le> as_dropped s"
    and ring: "ring_shows (as_ring ?s) (aw_log ?s)" by (simp_all add: audit_inv_def)
  then show "(\<Sum>r\<leftarrow>aw_log (audit_flush io render now s). events_of r) = (\<Sum>r\<leftarrow>aw_log s. events_of r) + open_totals (aw_rollups s)"
    "(\<Sum>r\<leftarrow>aw_log (audit_flush io render now s). lost_of r) = as_dropped s"
    by (simp_all add: audit_flush_def Let_def drain_events)
  let ?f = "fold (audit_emit io render) ?rs ?s"
  have "ring_shows (as_ring (?f\<lparr>aw_reported := n\<rparr>)) (aw_log (?f\<lparr>aw_reported := n\<rparr>))" for n
    using emit_all_ring [OF ring] by simp
  then have "ring_shows (as_ring (audit_emit io render r (?f\<lparr>aw_reported := n\<rparr>))) (aw_log (audit_emit io render r (?f\<lparr>aw_reported := n\<rparr>)))" for r n
    using emit_ring by (metis emit_fields(7))
  then show "ring_shows (as_ring (audit_flush io render now s)) (aw_log (audit_flush io render now s))"
    using emit_all_ring [OF ring] by (simp add: audit_flush_def Let_def)
qed

lemma exec_keeps:
  assumes "audit_inv s" "event_ok e" "as_enabled s"
  shows "audit_inv (audit_exec render e s)" "accounted (audit_exec render e s) = accounted s + sent e" "as_enabled (audit_exec render e s)"
proof -
  have "audit_inv (audit_exec render e s) \<and> accounted (audit_exec render e s) = accounted s + sent e \<and> as_enabled (audit_exec render e s)"
  proof (cases e)
    case (EvWriter io now ts)
    show ?thesis
    proof (cases "aw_running s")
      case run: True
      consider (detail) r q where "as_queue s = Detail r # q" | (rolled) r q where "as_queue s = Rolled r # q"
        | (stop) q where "as_queue s = Shutdown # q" | (empty) "as_queue s = []"
        by (cases "as_queue s"; cases "hd (as_queue s)") auto
      then show ?thesis
      proof cases
        case detail
        with assms run emit_ring [of "s\<lparr>as_queue := q\<rparr>"] show ?thesis unfolding EvWriter
          by (auto simp: writer_turn_def audit_inv_def accounted_def queued_def)
      next
        case rolled
        with assms run show ?thesis unfolding EvWriter
          by (auto simp: writer_turn_def audit_inv_def accounted_def queued_def pending_fold)
      next
        case stop
        with assms(1) have "audit_inv (s\<lparr>as_queue := q\<rparr>)" by (auto simp: audit_inv_def)
        with flush_sums [OF this] flush_reports [of "s\<lparr>as_queue := q\<rparr>"] stop assms run show ?thesis unfolding EvWriter
          by (auto simp: writer_turn_def audit_inv_def accounted_def queued_def open_totals_def)
      next
        case empty
        with flush_sums [OF assms(1)] flush_reports [of s] assms run show ?thesis unfolding EvWriter
          by (auto simp: writer_turn_def audit_inv_def accounted_def queued_def open_totals_def)
      qed
    qed (use assms in \<open>simp add: EvWriter writer_turn_def\<close>)
  qed (use assms in \<open>auto simp: audit_send_def audit_shutdown_def audit_inv_def accounted_def queued_def\<close>)
  then show "audit_inv (audit_exec render e s)" "accounted (audit_exec render e s) = accounted s + sent e" "as_enabled (audit_exec render e s)"
    by simp_all
qed

lemma run_keeps:
  assumes "audit_inv s" "list_all event_ok evs" "as_enabled s"
  shows "audit_inv (fold (audit_exec render) evs s)"
    "accounted (fold (audit_exec render) evs s) = accounted s + (\<Sum>e\<leftarrow>evs. sent e)"
proof -
  from assms have "audit_inv (fold (audit_exec render) evs s) \<and>
    accounted (fold (audit_exec render) evs s) = accounted s + (\<Sum>e\<leftarrow>evs. sent e)"
    by (induction evs arbitrary: s) (auto simp: exec_keeps)
  then show "audit_inv (fold (audit_exec render) evs s)"
    "accounted (fold (audit_exec render) evs s) = accounted s + (\<Sum>e\<leftarrow>evs. sent e)" by simp_all
qed

lemma start_inv: "audit_inv (audit_start b d now c)" "accounted (audit_start b d now c) = 0" "as_enabled (audit_start b d now c) = ac_enabled c"
  by (simp_all add: audit_start_def audit_disabled_def audit_inv_def accounted_def queued_def open_totals_def ring_shows_def audit_ring_new_def max_def Let_def)

section \<open>Rotation\<close>

definition names_within :: "nat \<Rightarrow> audit_disk \<Rightarrow> bool" where
  "names_within n d \<longleftrightarrow> om_inv (dk_names d) \<and> (\<forall>i. om_get (dk_names d) i \<noteq> None \<longrightarrow> i \<le> n)"

lemma rename_within: "names_within n d \<Longrightarrow> to \<le> n \<Longrightarrow> names_within n (rename from to d)"
  by (auto simp: names_within_def rename_def om_remove_def split: option.splits if_splits)

lemma shift_within: "names_within n d \<Longrightarrow> i < n \<Longrightarrow> names_within n (shift_from io i d)"
  by (induction io i d rule: shift_from.induct) (simp_all add: rename_within)

lemma open_within: "names_within n d \<Longrightarrow> names_within n (fst (open_append d))"
  by (auto simp: names_within_def open_append_def split: option.splits if_splits)

text \<open>However often the file is rotated, it leaves at most \<open>max_files\<close> rotated files beside the active one.\<close>

lemma rotation_keeps_generations:
  assumes "names_within (fk_max_files (fst fd)) (snd fd)" "0 < fk_max_files (fst fd)"
  shows "names_within (fk_max_files (fst fd)) (snd (sink_write io line fd)) \<and> fk_max_files (fst (sink_write io line fd)) = fk_max_files (fst fd)"
proof -
  have rot: "names_within (fk_max_files f) (snd (rotate_file io (f, d))) \<and> fk_max_files (fst (rotate_file io (f, d))) = fk_max_files f"
    if "names_within (fk_max_files f) d" "0 < fk_max_files f" for f d
  proof -
    let ?d = "shift_from io (fk_max_files f - 1) d"
    have d: "names_within (fk_max_files f) ?d" using that by (intro shift_within) simp_all
    then have "names_within (fk_max_files f) (rename 0 1 ?d)" using that by (intro rename_within) simp_all
    with d open_within [OF this] show ?thesis by (auto simp: rotate_file_def Let_def split: prod.splits)
  qed
  have "names_within n (d\<lparr>dk_data := x\<rparr>) = names_within n d" for n d x by (simp add: names_within_def)
  with assms rot [of "fst fd\<lparr>fk_written := Suc (fk_written (fst fd) + length line)\<rparr>"] show ?thesis
    by (auto simp: sink_write_def Let_def)
qed

section \<open>Properties\<close>


text \<open>
  The writer is busy when every turn of it finds a message waiting.
\<close>

fun busy :: "(audit_record \<Rightarrow> string) \<Rightarrow> audit_event list \<Rightarrow> audit_sink \<Rightarrow> bool" where
  "busy render [] s = True"
| "busy render (e # es) s =
     ((case e of EvWriter _ _ _ \<Rightarrow> as_queue s \<noteq> [] | EvShutdown \<Rightarrow> False | _ \<Rightarrow> True) \<and> busy render es (audit_exec render e s))"

definition is_report :: "audit_record \<Rightarrow> bool" where
  "is_report r \<longleftrightarrow> ar_ops r \<noteq> None \<or> ar_dropped r \<noteq> None"

lemma busy_turn:
  assumes "Shutdown \<notin> set (as_queue s)" "list_all message_ok (as_queue s)" "as_queue s \<noteq> []"
  shows "aw_reported (writer_turn io render now ts s) = aw_reported s"
    "filter is_report (aw_log (writer_turn io render now ts s)) = filter is_report (aw_log s)"
    "Shutdown \<notin> set (as_queue (writer_turn io render now ts s))" "list_all message_ok (as_queue (writer_turn io render now ts s))"
  using assms by (cases "as_queue s"; cases "hd (as_queue s)"; auto simp: writer_turn_def is_report_def single_event_def)+

text \<open>
  C40: The timer fires only when the queue is empty. As long as every turn of the writer finds a message
  waiting, no total and no gap line is emitted and no drop is reported, however late the turns are taken:
  a node that outruns its writer reports neither its counts nor its losses while the load lasts.
\<close>

theorem busy_writer_reports_nothing:
  assumes "busy render evs s" "list_all event_ok evs" "Shutdown \<notin> set (as_queue s)" "list_all message_ok (as_queue s)"
  shows "aw_reported (fold (audit_exec render) evs s) = aw_reported s \<and>
    filter is_report (aw_log (fold (audit_exec render) evs s)) = filter is_report (aw_log s)"
  using assms
proof (induction evs arbitrary: s)
  case (Cons e evs)
  have "aw_reported (audit_exec render e s) = aw_reported s \<and> filter is_report (aw_log (audit_exec render e s)) = filter is_report (aw_log s) \<and>
    Shutdown \<notin> set (as_queue (audit_exec render e s)) \<and> list_all message_ok (as_queue (audit_exec render e s))"
  proof (cases e)
    case (EvWriter io now ts)
    with Cons.prems busy_turn [of s] show ?thesis by simp
  qed (use Cons.prems in \<open>auto simp: audit_send_def\<close>)
  with Cons show ?case by simp
qed simp

definition plain_audit :: audit_config where
  "plain_audit =
     \<lparr>ac_enabled = True, ac_file = True, ac_buffer_capacity = 2, ac_queue_capacity = 1, ac_max_file_bytes = 10, ac_max_files = 2,
      ac_record_query_text = False, ac_rollup_secs = 10\<rparr>"

definition plain_disk :: audit_disk where
  "plain_disk = \<lparr>dk_names = [], dk_data = [], dk_fresh = 0\<rparr>"

definition plain_io :: io where
  "plain_io = \<lparr>io_write = True, io_rename = (\<lambda>_. True), io_open = True\<rparr>"

definition plain_trail :: "audit_event list" where
  "plain_trail =
     [EvRolled ''a'' (audit_http ''PUT'' ''/api/x/document''), EvWriter plain_io 90 ''b'', EvRecord ''c'' (audit_http ''GET'' ''/_indexes''),
      EvRecord ''d'' (audit_http ''GET'' ''/_indexes''), EvWriter plain_io 95 ''e'']"

lemma plain_trail_ok: "list_all event_ok plain_trail"
  by (simp add: plain_trail_def audit_http_def blank_record_def single_event_def)


theorem busy_writer_reports_nothing_witness:
  "as_dropped (fold (audit_exec ar_event) plain_trail (audit_start True plain_disk 0 plain_audit)) = 1 \<and>
   aw_next_flush (fold (audit_exec ar_event) plain_trail (audit_start True plain_disk 0 plain_audit)) = 10 \<and>
   aw_reported (fold (audit_exec ar_event) plain_trail (audit_start True plain_disk 0 plain_audit)) = 0"
proof -
  let ?s = "audit_start True plain_disk 0 plain_audit"
  have "busy ar_event plain_trail ?s" "as_queue ?s = []" "aw_reported ?s = 0"
    "as_dropped (fold (audit_exec ar_event) plain_trail ?s) = 1" "aw_next_flush (fold (audit_exec ar_event) plain_trail ?s) = 10"
    by code_simp+
  with busy_writer_reports_nothing [of ar_event plain_trail ?s] plain_trail_ok show ?thesis by simp
qed

end
