(* ===== verification/Authz.thy ===== *)
theory Authz
  imports OAuth Audit_Trail
begin

text \<open>
  The gate in front of the HTTP interface (\<open>server/src/authz.rs\<close>): the table of routes, the decision on a
  request, what the gate hands to the handler and to the MCP endpoint, the record it leaves in the audit
  trail, and the filter of index listings. The handler behind the gate is a parameter, and so is the clock a
  token is verified by. The text of a refusal is given by its reason.
\<close>

section \<open>Routes\<close>

datatype access = Public | Needs capability | Mcp

type_synonym route_rule = "string \<times> string \<times> access"

definition ROUTES :: "route_rule list" where
  "ROUTES =
     [(''GET'', ''/_cluster/health'', Public),
      (''GET'', ''/__fault/panic'', Public),
      (''POST'', ''/api/{index}/search'', Needs Read),
      (''POST'', ''/api/{index}/search/stream'', Needs Read),
      (''GET'', ''/api/{index}/_config'', Needs Read),
      (''GET'', ''/_indexes'', Needs Read),
      (''GET'', ''/_cluster/_indexes'', Needs Read),
      (''PUT'', ''/api/{index}/document'', Needs Write),
      (''DELETE'', ''/api/{index}/document'', Needs Write),
      (''POST'', ''/api/{index}/document/stream'', Needs Write),
      (''POST'', ''/api/{index}/_bulk'', Needs Write),
      (''POST'', ''/api/{index}/_bulk/delete'', Needs Write),
      (''POST'', ''/api/{index}/delete'', Needs Write),
      (''PUT'', ''/api/{index}/_config'', Needs IndexAdmin),
      (''PATCH'', ''/api/{index}/_schema'', Needs IndexAdmin),
      (''DELETE'', ''/api/{index}'', Needs IndexAdmin),
      (''GET'', ''/_admin/memory'', Needs NodeAdmin),
      (''POST'', ''/_admin/memory/purge'', Needs NodeAdmin),
      (''GET'', ''/_admin/workers'', Needs NodeAdmin),
      (''GET'', ''/_admin/audit'', Needs NodeAdmin),
      (''POST'', ''/_admin/keys/reload'', Needs NodeAdmin),
      (''POST'', ''/_admin/index/{index}/commit'', Needs NodeAdmin),
      (''POST'', ''/_admin/index/{index}/merge'', Needs NodeAdmin),
      (''POST'', ''/_admin/index/{index}/evict-writer'', Needs NodeAdmin),
      (''GET'', ''/_keys'', Needs KeyManage),
      (''POST'', ''/_keys'', Needs KeyManage),
      (''PATCH'', ''/_keys/{key_id}'', Needs KeyManage),
      (''DELETE'', ''/_keys/{key_id}'', Needs KeyManage),
      (''GET'', ''/_tenants'', Needs KeyManage),
      (''GET'', ''/_tenants/{tenant}'', Needs KeyManage),
      (''PUT'', ''/_tenants/{tenant}'', Needs KeyManage),
      (''DELETE'', ''/_tenants/{tenant}'', Needs KeyManage),
      (''POST'', ''/_tenants/{tenant}/keys'', Needs KeyManage),
      (''DELETE'', ''/_tenants/{tenant}/keys/{key_id}'', Needs KeyManage),
      (''POST'', ''/mcp'', Mcp),
      (''GET'', ''/mcp'', Mcp),
      (''DELETE'', ''/mcp'', Mcp),
      (''GET'', ''/mcp/sse'', Mcp),
      (''POST'', ''/mcp/sse'', Mcp),
      (''POST'', ''/mcp/messages'', Mcp),
      (''GET'', ''/.well-known/oauth-protected-resource'', Public),
      (''GET'', ''/.well-known/oauth-protected-resource/mcp'', Public),
      (''GET'', ''/.well-known/oauth-authorization-server'', Public),
      (''POST'', ''/oauth/register'', Public),
      (''GET'', ''/oauth/authorize'', Public),
      (''POST'', ''/oauth/authorize'', Public),
      (''POST'', ''/oauth/token'', Public)]"

record classified =
  cl_access :: access
  cl_index :: "string option"

definition normalize :: "string \<Rightarrow> string" where
  "normalize path = (let trimmed = trim_end_char CHR ''/'' path in if trimmed = [] then ''/'' else trimmed)"

fun match_segments :: "string option \<Rightarrow> string list \<Rightarrow> string list \<Rightarrow> string option option" where
  "match_segments index [] [] = Some index"
| "match_segments index (expected # es) (actual # as) =
     (if expected = ''{index}'' then if actual = [] then None else match_segments (Some actual) es as
      else if starts_with expected ''{'' then if actual = [] then None else match_segments index es as
      else if expected \<noteq> actual then None
      else match_segments index es as)"
| "match_segments index _ _ = None"

definition match_pattern :: "string \<Rightarrow> string \<Rightarrow> string option option" where
  "match_pattern pattern path = match_segments None (split_on CHR ''/'' pattern) (split_on CHR ''/'' path)"

fun classify_by :: "route_rule list \<Rightarrow> string \<Rightarrow> string \<Rightarrow> classified option" where
  "classify_by [] method path = None"
| "classify_by ((m, pattern, access) # rules) method path =
     (if m \<noteq> method then classify_by rules method path
      else case match_pattern pattern path of
             Some index \<Rightarrow> Some \<lparr>cl_access = access, cl_index = index\<rparr>
           | None \<Rightarrow> classify_by rules method path)"

definition classify :: "string \<Rightarrow> string \<Rightarrow> classified option" where
  "classify method path = classify_by ROUTES (if method = ''HEAD'' then ''GET'' else method) (normalize path)"

section \<open>Callers\<close>

datatype authz = Disabled | Anonymous | Key key_entry

definition is_identified :: "authz \<Rightarrow> bool" where
  "is_identified a = (a \<noteq> Anonymous)"

definition authz_key_id :: "crypto \<Rightarrow> authz \<Rightarrow> string option" where
  "authz_key_id c a = (case a of Key k \<Rightarrow> Some (digest_key_id c (ke_digest k)) | _ \<Rightarrow> None)"

definition authz_tenant :: "authz \<Rightarrow> string option" where
  "authz_tenant a = (case a of Key k \<Rightarrow> ke_tenant k | _ \<Rightarrow> None)"

record identity =
  id_key_id :: "string option"
  id_label :: "string option"
  id_role :: "string option"

definition no_identity :: identity where
  "no_identity = \<lparr>id_key_id = None, id_label = None, id_role = None\<rparr>"

definition identity_of :: "crypto \<Rightarrow> key_entry \<Rightarrow> identity" where
  "identity_of c k = \<lparr>id_key_id = Some (digest_key_id c (ke_digest k)), id_label = Some (ke_label k), id_role = Some (role_as_str (ke_role k))\<rparr>"

definition authz_identity :: "crypto \<Rightarrow> authz \<Rightarrow> identity" where
  "authz_identity c a = (case a of Key k \<Rightarrow> identity_of c k | _ \<Rightarrow> no_identity)"

datatype mcp_capability = McpRead | McpWrite | McpIndexAdmin | McpNodeAdmin

fun translate :: "mcp_capability \<Rightarrow> capability" where
  "translate McpRead = Read"
| "translate McpWrite = Write"
| "translate McpIndexAdmin = IndexAdmin"
| "translate McpNodeAdmin = NodeAdmin"

definition authz_allows_index :: "authz \<Rightarrow> string \<Rightarrow> bool" where
  "authz_allows_index a index = (case a of Disabled \<Rightarrow> True | Anonymous \<Rightarrow> False | Key k \<Rightarrow> allows_index k index)"

definition authz_has :: "authz \<Rightarrow> mcp_capability \<Rightarrow> bool" where
  "authz_has a c = (case a of Disabled \<Rightarrow> True | Anonymous \<Rightarrow> False | Key k \<Rightarrow> key_has k (translate c))"

definition authz_has_on :: "authz \<Rightarrow> mcp_capability \<Rightarrow> string \<Rightarrow> bool" where
  "authz_has_on a c index = (case a of Disabled \<Rightarrow> True | Anonymous \<Rightarrow> False | Key k \<Rightarrow> has_on k (translate c) index)"

record mcp_caller =
  mc_authz :: authz
  mc_peer :: "string option"
  mc_read_only :: bool

definition caller_allows_index :: "mcp_caller \<Rightarrow> string \<Rightarrow> bool" where
  "caller_allows_index m index = authz_allows_index (mc_authz m) index"

definition caller_has :: "mcp_caller \<Rightarrow> mcp_capability \<Rightarrow> bool" where
  "caller_has m c = ((\<not> mc_read_only m \<or> c = McpRead) \<and> authz_has (mc_authz m) c)"

definition caller_has_on :: "mcp_caller \<Rightarrow> mcp_capability \<Rightarrow> string \<Rightarrow> bool" where
  "caller_has_on m c index = ((\<not> mc_read_only m \<or> c = McpRead) \<and> authz_has_on (mc_authz m) c index)"

section \<open>Listings\<close>

definition entry_index_name :: "json \<Rightarrow> string option" where
  "entry_index_name item =
     (case as_object item of
        None \<Rightarrow> None
      | Some m \<Rightarrow> Option.bind (case m_get m ''name'' of Some v \<Rightarrow> Some v | None \<Rightarrow> m_get m ''index'') as_str)"

definition retain_entries :: "(string \<Rightarrow> bool) \<Rightarrow> json list \<Rightarrow> json list" where
  "retain_entries visible items = filter (\<lambda>item. case entry_index_name item of Some n \<Rightarrow> visible n | None \<Rightarrow> False) items"

definition retain_own :: "(string \<Rightarrow> bool) \<Rightarrow> members \<Rightarrow> members" where
  "retain_own visible m =
     (case m_get m ''indexes'' of
        Some (JArray items) \<Rightarrow>
          let kept = retain_entries visible items; m' = m_insert ''indexes'' (JArray kept) m
          in if m_contains m' ''total_indexes'' then m_insert ''total_indexes'' (JNumber (PosInt (length kept))) m' else m'
      | _ \<Rightarrow> m)"

text \<open>
  The nodes of a cluster listing are listings themselves. The two steps change different members, so their
  order does not show.
\<close>

fun retain_indexes :: "(string \<Rightarrow> bool) \<Rightarrow> json \<Rightarrow> json" and retain_nodes :: "(string \<Rightarrow> bool) \<Rightarrow> members \<Rightarrow> members" where
  "retain_indexes visible (JObject m) = JObject (retain_own visible (retain_nodes visible m))"
| "retain_indexes visible v = v"
| "retain_nodes visible [] = []"
| "retain_nodes visible ((k, v) # m) =
     (if k = ''nodes'' then (k, case v of JArray ns \<Rightarrow> JArray (map (retain_indexes visible) ns) | _ \<Rightarrow> v) # m
      else (k, v) # retain_nodes visible m)"

definition filter_index_listing :: "authz \<Rightarrow> json \<Rightarrow> json" where
  "filter_index_listing a v =
     (case a of
        Disabled \<Rightarrow> v
      | Anonymous \<Rightarrow> retain_indexes (\<lambda>_. False) v
      | Key k \<Rightarrow> if \<not> is_index_scoped k then v else retain_indexes (allows_index k) v)"

definition retain_visible_indexes :: "mcp_caller \<Rightarrow> json \<Rightarrow> json" where
  "retain_visible_indexes m v = retain_indexes (caller_allows_index m) v"

section \<open>The decision\<close>

datatype refusal_reason =
    NoKeyPresented | TokenOnMcpOnly | TokenRefused token_refusal | KeyUnknown
  | RoleLacks role capability | OutsideScope string | OverrideWithholds role string capability

record refusal =
  rf_status :: nat
  rf_reason :: refusal_reason
  rf_identity :: "identity option"
  rf_invalid_token :: bool

definition unauthorized :: "refusal_reason \<Rightarrow> refusal" where
  "unauthorized r = \<lparr>rf_status = 401, rf_reason = r, rf_identity = None, rf_invalid_token = False\<rparr>"

definition invalid_token :: "refusal_reason \<Rightarrow> refusal" where
  "invalid_token r = (unauthorized r)\<lparr>rf_invalid_token := True\<rparr>"

definition forbidden :: "crypto \<Rightarrow> key_entry \<Rightarrow> refusal_reason \<Rightarrow> refusal" where
  "forbidden c k r = \<lparr>rf_status = 403, rf_reason = r, rf_identity = Some (identity_of c k), rf_invalid_token = False\<rparr>"

definition bearer_token :: "string option \<Rightarrow> string option" where
  "bearer_token authorization =
     Option.bind authorization (\<lambda>value.
     Option.bind (split_once CHR '' '' value) (\<lambda>(scheme, token).
     if eq_ignore_ascii_case scheme ''bearer'' \<and> trim token \<noteq> [] then Some (trim token) else None))"

fun is_power_of_two :: "nat \<Rightarrow> bool" where
  "is_power_of_two n = (if n \<le> 1 then n = 1 else n mod 2 = 0 \<and> is_power_of_two (n div 2))"

declare is_power_of_two.simps [simp del]

definition should_log_refusal :: "nat \<Rightarrow> bool" where
  "should_log_refusal n = (n \<le> 3 \<or> is_power_of_two n \<or> n mod 100000 = 0)"

text \<open>The count of refusals since startup and the lines that reported it.\<close>

definition note_unauthenticated_refusal :: "nat \<Rightarrow> nat \<times> nat option" where
  "note_unauthenticated_refusal seen =
     (let n = (seen + 1) mod u64_mod in (n, if should_log_refusal n then Some n else None))"

record admitted =
  ad_authz :: authz
  ad_oauth_client :: "string option"

datatype caller_answer = Counted refusal | Uncounted refusal | Known key_entry "string option"

definition known_caller ::
  "oauth_deps \<Rightarrow> nat \<Rightarrow> key_ring \<Rightarrow> oauth option \<Rightarrow> classified option \<Rightarrow> string \<Rightarrow> caller_answer" where
  "known_caller od now ring oa cl token =
     (case oa of
        Some server \<Rightarrow>
          if starts_with token ACCESS_PREFIX
          then if map_option cl_access cl \<noteq> Some Mcp then Uncounted (invalid_token TokenOnMcpOnly)
               else case verify_access od server ring now token of
                      Inr (k, client) \<Rightarrow> Known k (Some client)
                    | Inl r \<Rightarrow> Counted (invalid_token (TokenRefused r))
          else (case authenticate (od_crypto od) ring token of
                  Some k \<Rightarrow> Known k None
                | None \<Rightarrow> Counted (invalid_token KeyUnknown))
      | None \<Rightarrow>
          (case authenticate (od_crypto od) ring token of
             Some k \<Rightarrow> Known k None
           | None \<Rightarrow> Counted (invalid_token KeyUnknown)))"

definition check_access :: "crypto \<Rightarrow> classified \<Rightarrow> key_entry \<Rightarrow> capability \<Rightarrow> (refusal, unit) result" where
  "check_access c cl k required =
     (if \<not> key_has k required then Err (forbidden c k (RoleLacks (ke_role k) required))
      else case cl_index cl of
             None \<Rightarrow> Ok ()
           | Some index \<Rightarrow>
               if \<not> allows_index k index then Err (forbidden c k (OutsideScope index))
               else if \<not> has_on k required index
               then Err (forbidden c k (OverrideWithholds (role_on k index) index required))
               else Ok ())"

definition required_capability :: "access \<Rightarrow> capability option" where
  "required_capability a = (case a of Public \<Rightarrow> None | Needs c \<Rightarrow> Some c | Mcp \<Rightarrow> Some Read)"

definition decide_with ::
  "oauth_deps \<Rightarrow> nat \<Rightarrow> key_ring \<Rightarrow> oauth option \<Rightarrow> string \<Rightarrow> string \<Rightarrow> string option \<Rightarrow> nat \<Rightarrow>
   nat \<times> (refusal, admitted) result" where
  "decide_with od now ring oa method path authorization seen =
     (if \<not> kr_enabled ring then (seen, Ok \<lparr>ad_authz = Disabled, ad_oauth_client = None\<rparr>)
      else
        let cl = classify method path in
        case bearer_token authorization of
          None \<Rightarrow>
            if map_option cl_access cl = Some Public then (seen, Ok \<lparr>ad_authz = Anonymous, ad_oauth_client = None\<rparr>)
            else (fst (note_unauthenticated_refusal seen), Err (unauthorized NoKeyPresented))
        | Some token \<Rightarrow>
            (case known_caller od now ring oa cl token of
               Counted r \<Rightarrow> (fst (note_unauthenticated_refusal seen), Err r)
             | Uncounted r \<Rightarrow> (seen, Err r)
             | Known k client \<Rightarrow>
                 (seen,
                  case cl of
                    None \<Rightarrow> Ok \<lparr>ad_authz = Key k, ad_oauth_client = client\<rparr>
                  | Some c \<Rightarrow>
                      (case required_capability (cl_access c) of
                         None \<Rightarrow> Ok \<lparr>ad_authz = Key k, ad_oauth_client = client\<rparr>
                       | Some required \<Rightarrow>
                           and_then (check_access (od_crypto od) c k required) (\<lambda>_.
                           Ok \<lparr>ad_authz = Key k, ad_oauth_client = client\<rparr>)))))"

section \<open>The layer\<close>

definition rollup_name :: "access option \<Rightarrow> bool \<Rightarrow> bool \<Rightarrow> string option" where
  "rollup_name access permitted identified =
     (if \<not> permitted then if identified then None else Some ''auth_denied_stats''
      else case access of
             Some Public \<Rightarrow> Some ''public_stats''
           | Some (Needs Write) \<Rightarrow> Some ''write_stats''
           | _ \<Rightarrow> None)"

definition challenge :: "bool \<Rightarrow> string option \<Rightarrow> string" where
  "challenge invalid metadata =
     ''Bearer realm='' @ [CHR 0x22] @ ''cameodb'' @ [CHR 0x22] @
     (case metadata of Some url \<Rightarrow> '', resource_metadata='' @ [CHR 0x22] @ url @ [CHR 0x22] | None \<Rightarrow> []) @
     (if invalid then '', error='' @ [CHR 0x22] @ ''invalid_token'' @ [CHR 0x22] else [])"

definition resource_metadata_url :: "oauth \<Rightarrow> string" where
  "resource_metadata_url oa = oa_issuer oa @ ''/.well-known/oauth-protected-resource/mcp''"

record http_request =
  hr_method :: string
  hr_path :: string
  hr_authorization :: "string option"
  hr_peer :: "string option"

record http_response =
  hs_status :: nat
  hs_challenge :: "string option"
  hs_query :: "string option"

record gate =
  ga_ring :: key_ring
  ga_oauth :: "oauth option"
  ga_audit :: audit_sink
  ga_refused :: nat

text \<open>What the handler finds attached to the request.\<close>

record attached =
  at_authz :: authz
  at_mcp :: "mcp_caller option"
  at_caller :: "string option \<times> string option"

definition leave_record :: "string \<Rightarrow> string option \<Rightarrow> audit_record \<Rightarrow> audit_sink \<Rightarrow> audit_sink" where
  "leave_record ts rollup r s =
     (if \<not> as_enabled s then s
      else case rollup of
             Some event \<Rightarrow> audit_send Rolled ts (r\<lparr>ar_event := event\<rparr>) s
           | None \<Rightarrow> audit_send Detail ts r s)"

definition request_record :: "http_request \<Rightarrow> identity \<Rightarrow> string option \<Rightarrow> audit_record" where
  "request_record req who index =
     (with_identity (id_key_id who) (id_label who) (id_role who) (audit_http (hr_method req) (hr_path req)))
       \<lparr>ar_peer := hr_peer req, ar_index := index\<rparr>"

definition pass_on ::
  "oauth_deps \<Rightarrow> (attached \<Rightarrow> http_request \<Rightarrow> http_response) \<Rightarrow> string \<Rightarrow> gate \<Rightarrow> http_request \<Rightarrow> admitted \<Rightarrow>
   access option \<Rightarrow> string option \<Rightarrow> gate \<times> http_response" where
  "pass_on od next ts g req ad access index =
     (let who = authz_identity (od_crypto od) (ad_authz ad);
          mcp = (if access = Some Mcp
                 then Some \<lparr>mc_authz = ad_authz ad, mc_peer = hr_peer req, mc_read_only = ad_oauth_client ad \<noteq> None\<rparr> else None);
          response = next \<lparr>at_authz = ad_authz ad, at_mcp = mcp,
                           at_caller = (authz_key_id (od_crypto od) (ad_authz ad), hr_peer req)\<rparr> req
      in (g\<lparr>ga_audit := leave_record ts (rollup_name access True True)
                          (allowed (hs_status response) ((request_record req who index)\<lparr>ar_query := hs_query response\<rparr>)) (ga_audit g)\<rparr>,
          response))"

definition authorize ::
  "oauth_deps \<Rightarrow> (refusal_reason \<Rightarrow> string) \<Rightarrow> (attached \<Rightarrow> http_request \<Rightarrow> http_response) \<Rightarrow> nat \<Rightarrow> string \<Rightarrow> gate \<Rightarrow> http_request \<Rightarrow>
   gate \<times> http_response" where
  "authorize od text next now ts g req =
     (let (seen, decision) = decide_with od now (ga_ring g) (ga_oauth g) (hr_method req) (hr_path req) (hr_authorization req) (ga_refused g);
          g = g\<lparr>ga_refused := seen\<rparr>;
          cl = classify (hr_method req) (hr_path req);
          index = Option.bind cl cl_index;
          access = map_option cl_access cl
      in case decision of
           Inr ad \<Rightarrow>
             let who = authz_identity (od_crypto od) (ad_authz ad) in
             (case index of
                Some name \<Rightarrow>
                  if validate_index_name name \<noteq> Inr ()
                  then (g\<lparr>ga_audit := leave_record ts (rollup_name access True (id_key_id who \<noteq> None))
                                        (allowed 400 (request_record req who index)) (ga_audit g)\<rparr>,
                        \<lparr>hs_status = 400, hs_challenge = None, hs_query = None\<rparr>)
                  else pass_on od next ts g req ad access index
              | None \<Rightarrow> pass_on od next ts g req ad access index)
         | Inl r \<Rightarrow>
             let who = (case rf_identity r of Some i \<Rightarrow> i | None \<Rightarrow> no_identity);
                 metadata = (if rf_status r = 401 \<and> access = Some Mcp then map_option resource_metadata_url (ga_oauth g) else None)
             in (g\<lparr>ga_audit := leave_record ts (rollup_name None False (id_key_id who \<noteq> None))
                                 (denied (rf_status r) (text (rf_reason r)) (request_record req who index)) (ga_audit g)\<rparr>,
                 \<lparr>hs_status = rf_status r,
                  hs_challenge = (if rf_status r = 401 then Some (challenge (rf_invalid_token r) metadata) else None),
                  hs_query = None\<rparr>))"

section \<open>The gate\<close>

text \<open>What a handler may count on of the caller it is given.\<close>

definition authorized :: "key_entry \<Rightarrow> classified \<Rightarrow> bool" where
  "authorized k cl =
     (case required_capability (cl_access cl) of
        None \<Rightarrow> True
      | Some c \<Rightarrow> key_has k c \<and> (case cl_index cl of None \<Rightarrow> True | Some i \<Rightarrow> allows_index k i \<and> has_on k c i))"

definition permitted :: "gate \<Rightarrow> http_request \<Rightarrow> attached \<Rightarrow> bool" where
  "permitted g req a \<longleftrightarrow>
     (let cl = classify (hr_method req) (hr_path req) in
      (case at_authz a of
         Disabled \<Rightarrow> False
       | Anonymous \<Rightarrow> bearer_token (hr_authorization req) = None \<and> map_option cl_access cl = Some Public
       | Key k \<Rightarrow> k \<in> set (kr_entries (ga_ring g)) \<and> (\<forall>c. cl = Some c \<longrightarrow> authorized k c)) \<and>
      (\<forall>i. Option.bind cl cl_index = Some i \<longrightarrow> validate_index_name i = Inr ()) \<and>
      (\<forall>token. ga_oauth g \<noteq> None \<and> bearer_token (hr_authorization req) = Some token \<and> starts_with token ACCESS_PREFIX \<longrightarrow>
         (\<exists>m. at_mcp a = Some m \<and> mc_authz m = at_authz a \<and> (\<forall>c. caller_has m c \<longrightarrow> c = McpRead) \<and>
              (\<forall>c i. caller_has_on m c i \<longrightarrow> c = McpRead))))"

lemma check_access_authorized:
  assumes "check_access c cl k cap = Inr ()" "required_capability (cl_access cl) = Some cap"
  shows "authorized k cl"
  using assms by (auto simp: check_access_def authorized_def split: option.splits if_splits)

lemma known_caller_in_ring:
  assumes "known_caller od now ring oa cl token = Known k client"
  shows "k \<in> set (kr_entries ring)"
    and "oa \<noteq> None \<Longrightarrow> starts_with token ACCESS_PREFIX \<Longrightarrow> client \<noteq> None \<and> map_option cl_access cl = Some Mcp"
proof -
  have digest: "by_digest ring d = Some k \<Longrightarrow> k \<in> set (kr_entries ring)" for d
    by (auto simp: by_digest_def find_Some_iff)
  then have "authenticate c ring t = Some k \<Longrightarrow> k \<in> set (kr_entries ring)" for c t
    by (auto simp: authenticate_def split: bind_splits)
  moreover have "verify_access od s ring now token = Inr (k, cl) \<Longrightarrow> k \<in> set (kr_entries ring)" for s cl
    using digest by (auto simp: verify_access_def split: option.splits if_splits sum.splits)
  ultimately show "k \<in> set (kr_entries ring)"
    using assms by (auto simp: known_caller_def split: option.splits if_splits sum.splits)
  show "client \<noteq> None \<and> map_option cl_access cl = Some Mcp" if "oa \<noteq> None" "starts_with token ACCESS_PREFIX"
    using assms that by (auto simp: known_caller_def split: option.splits if_splits sum.splits)
qed

lemma decide_admits:
  assumes "decide_with od now ring oa method path authorization seen = (seen', Inr ad)" "kr_enabled ring"
  shows "(ad = \<lparr>ad_authz = Anonymous, ad_oauth_client = None\<rparr> \<and> bearer_token authorization = None \<and>
          map_option cl_access (classify method path) = Some Public) \<or>
    (\<exists>token k client. bearer_token authorization = Some token \<and> known_caller od now ring oa (classify method path) token = Known k client \<and>
       ad = \<lparr>ad_authz = Key k, ad_oauth_client = client\<rparr> \<and> (\<forall>c. classify method path = Some c \<longrightarrow> authorized k c))"
proof (cases "bearer_token authorization")
  case None
  with assms show ?thesis by (auto simp: decide_with_def Let_def split: if_splits)
next
  case (Some token)
  show ?thesis
  proof (cases "known_caller od now ring oa (classify method path) token")
    case (Known k client)
    have "authorized k c" if c: "classify method path = Some c" for c
    proof (cases "required_capability (cl_access c)")
      case (Some cap)
      with assms \<open>bearer_token authorization = Some token\<close> Known c have "check_access (od_crypto od) c k cap = Inr ()"
        by (auto simp: decide_with_def Let_def and_then_Ok_iff)
      from check_access_authorized [OF this Some] show ?thesis .
    qed (simp add: authorized_def)
    moreover have "ad = \<lparr>ad_authz = Key k, ad_oauth_client = client\<rparr>"
      using assms Some Known by (auto simp: decide_with_def Let_def and_then_Ok_iff split: option.splits)
    ultimately show ?thesis using Some Known by blast
  qed (use assms Some in \<open>simp_all add: decide_with_def Let_def\<close>)
qed

lemma pass_on_response:
  "snd (pass_on od next ts g req ad access index) =
   next \<lparr>at_authz = ad_authz ad,
         at_mcp = (if access = Some Mcp
                   then Some \<lparr>mc_authz = ad_authz ad, mc_peer = hr_peer req, mc_read_only = ad_oauth_client ad \<noteq> None\<rparr> else None),
         at_caller = (authz_key_id (od_crypto od) (ad_authz ad), hr_peer req)\<rparr> req"
  by (simp add: pass_on_def Let_def)

section \<open>The table\<close>

fun overlap_segments :: "string list \<Rightarrow> string list \<Rightarrow> bool" where
  "overlap_segments [] [] = True"
| "overlap_segments (a # as) (b # bs) = ((starts_with a ''{'' \<or> starts_with b ''{'' \<or> a = b) \<and> overlap_segments as bs)"
| "overlap_segments _ _ = False"

lemma match_both_overlap:
  "match_segments i es as = Some x \<Longrightarrow> match_segments j fs as = Some y \<Longrightarrow> overlap_segments es fs"
proof (induction i es as arbitrary: j fs rule: match_segments.induct)
  case (1 index)
  then show ?case by (cases fs) simp_all
next
  case (2 index expected es actual as)
  have brace: "starts_with ''{index}'' ''{''" by code_simp
  from 2(5) obtain f fs' where fs: "fs = f # fs'" by (cases fs) simp_all
  from 2(4,5) show ?case unfolding fs using 2(1-3) brace by (auto split: if_splits)
qed simp_all

definition rules_apart :: "route_rule list \<Rightarrow> bool" where
  "rules_apart rules =
     sorted_wrt (\<lambda>(m, p, _) (n, q, _). m \<noteq> n \<or> \<not> overlap_segments (split_on CHR ''/'' p) (split_on CHR ''/'' q)) rules"

lemma ROUTES_apart: "rules_apart ROUTES"
  by code_simp

lemma classify_by_Some:
  "classify_by rules verb path = Some c \<Longrightarrow>
   \<exists>p. (verb, p, cl_access c) \<in> set rules \<and> match_pattern p path = Some (cl_index c)"
  by (induction rules verb path rule: classify_by.induct) (force split: if_splits option.splits)+

lemma classify_by_None:
  "classify_by rules verb path = None \<Longrightarrow> (verb, p, a) \<in> set rules \<Longrightarrow> match_pattern p path = None"
  by (induction rules verb path rule: classify_by.induct) (auto split: if_splits option.splits)

lemma rules_apart_unique:
  assumes "rules_apart rules" "(m, p, a) \<in> set rules" "(m, q, b) \<in> set rules"
    "match_pattern p path = Some x" "match_pattern q path = Some y"
  shows "a = b \<and> x = y"
proof -
  have both: "overlap_segments (split_on CHR ''/'' p) (split_on CHR ''/'' q)" "overlap_segments (split_on CHR ''/'' q) (split_on CHR ''/'' p)"
    using match_both_overlap assms(4,5) unfolding match_pattern_def by blast+
  obtain i j where ij: "i < length rules" "rules ! i = (m, p, a)" "j < length rules" "rules ! j = (m, q, b)"
    using assms(2,3) by (metis in_set_conv_nth)
  have "i = j"
  proof (rule ccontr)
    assume "i \<noteq> j"
    then consider "i < j" | "j < i" by linarith
    then show False
      using assms(1) ij both unfolding rules_apart_def by cases (force simp: sorted_wrt_iff_nth_less)+
  qed
  with ij assms(4,5) show ?thesis by simp
qed

section \<open>What a listing shows\<close>

definition own_names :: "members \<Rightarrow> string list" where
  "own_names m = (case m_get m ''indexes'' of Some (JArray items) \<Rightarrow> List.map_filter entry_index_name items | _ \<Rightarrow> [])"

fun listed :: "json \<Rightarrow> string list" and listed_nodes :: "members \<Rightarrow> string list" where
  "listed (JObject m) = own_names m @ listed_nodes m"
| "listed v = []"
| "listed_nodes [] = []"
| "listed_nodes ((k, v) # m) =
     (if k = ''nodes'' then (case v of JArray ns \<Rightarrow> concat (map listed ns) | _ \<Rightarrow> []) else listed_nodes m)"

definition own_honest :: "(string \<Rightarrow> bool) \<Rightarrow> members \<Rightarrow> bool" where
  "own_honest P m =
     (case m_get m ''indexes'' of
        Some (JArray items) \<Rightarrow>
          list_all (\<lambda>i. case entry_index_name i of Some n \<Rightarrow> P n | None \<Rightarrow> False) items \<and>
          (case m_get m ''total_indexes'' of Some t \<Rightarrow> t = JNumber (PosInt (length items)) | None \<Rightarrow> True)
      | _ \<Rightarrow> True)"

fun honest :: "(string \<Rightarrow> bool) \<Rightarrow> json \<Rightarrow> bool" and honest_nodes :: "(string \<Rightarrow> bool) \<Rightarrow> members \<Rightarrow> bool" where
  "honest P (JObject m) = (own_honest P m \<and> honest_nodes P m)"
| "honest P v = True"
| "honest_nodes P [] = True"
| "honest_nodes P ((k, v) # m) = (if k = ''nodes'' then (case v of JArray ns \<Rightarrow> list_all (honest P) ns | _ \<Rightarrow> True) else honest_nodes P m)"

lemma m_get_retain_nodes: "k \<noteq> ''nodes'' \<Longrightarrow> m_get (retain_nodes P m) k = m_get m k"
  by (induction m) (auto simp: m_get_def)

lemma listed_nodes_insert: "k \<noteq> ''nodes'' \<Longrightarrow> listed_nodes (m_insert k v m) = listed_nodes m"
  by (induction k v m rule: m_insert.induct) auto

lemma honest_nodes_insert: "k \<noteq> ''nodes'' \<Longrightarrow> honest_nodes P (m_insert k v m) = honest_nodes P m"
  by (induction k v m rule: m_insert.induct) auto

lemma nodes_retain_own:
  "listed_nodes (retain_own P m) = listed_nodes m" "honest_nodes Q (retain_own P m) = honest_nodes Q m"
  by (auto simp: retain_own_def Let_def listed_nodes_insert honest_nodes_insert split: option.splits json.splits)

lemma map_filter_retain: "List.map_filter entry_index_name (retain_entries P items) = filter P (List.map_filter entry_index_name items)"
  by (induction items) (auto simp: retain_entries_def List.map_filter_simps split: option.splits)

lemma own_names_retain: "own_names (retain_own P m) = filter P (own_names m)"
  by (auto simp: own_names_def retain_own_def Let_def map_filter_retain split: option.splits json.splits)

lemma own_honest_retain: "own_honest P (retain_own P m)"
  by (auto simp: own_honest_def retain_own_def Let_def retain_entries_def list_all_iff m_contains_def m_get_def [symmetric]
      split: option.splits json.splits)

lemma own_names_nodes: "own_names (retain_nodes P m) = own_names m"
  by (simp add: own_names_def m_get_retain_nodes)

lemma retain_lists:
  "listed (retain_indexes P v) = filter P (listed v) \<and> honest P (retain_indexes P v)"
  "listed_nodes (retain_nodes P m) = filter P (listed_nodes m) \<and> honest_nodes P (retain_nodes P m)"
proof (induction P v and P m rule: retain_indexes_retain_nodes.induct)
  case (1 P m)
  then show ?case by (simp add: nodes_retain_own own_names_retain own_honest_retain own_names_nodes)
next
  case (4 P k v m)
  show ?case
  proof (cases "k = ''nodes''")
    case True
    show ?thesis
    proof (cases v)
      case (JArray ns)
      with 4(1) [OF True] have "listed (retain_indexes P x) = filter P (listed x)" "honest P (retain_indexes P x)" if "x \<in> set ns" for x
        using that by auto
      then show ?thesis using True JArray
        by (auto simp: list_all_iff filter_concat comp_def intro!: arg_cong [where f = concat])
    qed (use True in simp_all)
  qed (use 4(2) in simp)
qed simp_all

end
