(* ===== verification/OAuth_Props.thy ===== *)
theory OAuth_Props
  imports OAuth
begin

text \<open>
  What the OAuth server guarantees: its artifacts read back and do not stand in for one another, a code is
  redeemed once while it lives, no token outlives the approval, and a browser is sent back only to an address
  the client registered. The first part gives a concrete encoding, so that the laws of the libraries the
  properties assume are known to hold of something.
\<close>

section \<open>A concrete encoding\<close>

fun nibbles :: "char \<Rightarrow> string" where
  "nibbles c = [char_of (97 + (of_char c :: nat) div 16), char_of (97 + (of_char c :: nat) mod 16)]"

definition plain_encode :: "bytes \<Rightarrow> string" where
  "plain_encode b = concat (map nibbles b)"

definition letter :: "char \<Rightarrow> nat option" where
  "letter c = (let n = of_char c :: nat in if 97 \<le> n \<and> n < 113 then Some (n - 97) else None)"

fun plain_decode :: "string \<Rightarrow> bytes option" where
  "plain_decode [] = Some []"
| "plain_decode [x] = None"
| "plain_decode (x # y # s) =
     (case (letter x, letter y, plain_decode s) of
        (Some h, Some l, Some b) \<Rightarrow> Some (char_of (16 * h + l) # b)
      | _ \<Rightarrow> None)"

lemma of_char_bound: "(of_char c :: nat) < 256"
  by (metis of_char_mod_256 mod_less_divisor zero_less_numeral)

lemma nibble_bounds: "(of_char c :: nat) div 16 < 16" "(of_char c :: nat) mod 16 < 16"
  using less_mult_imp_div_less [of "of_char c :: nat" 16 16] of_char_bound [of c] by simp_all

lemma letter_char: "n < 16 \<Longrightarrow> letter (char_of (97 + n)) = Some n"
  by (simp add: letter_def Let_def)

lemma letter_Some: "letter c = Some n \<Longrightarrow> n < 16 \<and> c = char_of (97 + n)"
  by (auto simp: letter_def Let_def split: if_splits)

lemma plain_decode_encode: "plain_decode (plain_encode b) = Some b"
proof (induction b)
  case (Cons c b)
  have "plain_encode (c # b) = nibbles c @ plain_encode b" by (simp add: plain_encode_def)
  then show ?case using Cons.IH by (simp add: letter_char nibble_bounds)
qed (simp add: plain_encode_def)

lemma plain_decode_strict: "plain_decode s = Some b \<Longrightarrow> s = plain_encode b"
proof (induction s arbitrary: b rule: plain_decode.induct)
  case (3 x y s)
  then obtain h l b' where parts: "letter x = Some h" "letter y = Some l" "plain_decode s = Some b'"
    and b: "b = char_of (16 * h + l) # b'" by (auto split: option.splits)
  from letter_Some [OF parts(1)] letter_Some [OF parts(2)]
  have "h < 16" "l < 16" "x = char_of (97 + h)" "y = char_of (97 + l)" by simp_all
  moreover from this have "(of_char (char_of (16 * h + l) :: char) :: nat) = 16 * h + l" by simp
  ultimately have "nibbles (char_of (16 * h + l)) = [x, y]" by simp
  moreover from 3 parts have "s = plain_encode b'" by auto
  ultimately show ?case unfolding b by (simp add: plain_encode_def)
qed (simp_all add: plain_encode_def)

lemma plain_encode_dot: "CHR ''.'' \<notin> set (plain_encode b)"
proof -
  have "(of_char x :: nat) \<noteq> 46" if "x \<in> set (nibbles c)" for x c
    using that nibble_bounds [of c] by auto
  then have "x \<noteq> CHR ''.''" if "x \<in> set (nibbles c)" for x c using that by fastforce
  then show ?thesis by (auto simp: plain_encode_def)
qed

definition pack :: "string list \<Rightarrow> bytes" where
  "pack xs = concat (map (\<lambda>s. replicate (length s) CHR 0x01 @ CHR 0x00 # s) xs)"

fun unpack :: "nat \<Rightarrow> bytes \<Rightarrow> string list" where
  "unpack 0 b = []"
| "unpack (Suc k) b =
     (if b = [] then []
      else let n = length (takeWhile (\<lambda>c. c = CHR 0x01) b); rest = drop (Suc n) b
           in take n rest # unpack k (drop n rest))"

lemma unpack_pack: "length xs \<le> k \<Longrightarrow> unpack k (pack xs) = xs"
proof (induction xs arbitrary: k)
  case Nil
  then show ?case by (cases k) (simp_all add: pack_def)
next
  case (Cons s xs)
  then obtain k' where k: "k = Suc k'" "length xs \<le> k'" by (cases k) auto
  have "takeWhile (\<lambda>c. c = CHR 0x01) (pack (s # xs)) = replicate (length s) CHR 0x01"
    by (simp add: pack_def takeWhile_append)
  moreover have "drop (Suc (length s)) (pack (s # xs)) = s @ pack xs" "pack (s # xs) \<noteq> []"
    by (simp_all add: pack_def)
  ultimately show ?case using Cons.IH [OF k(2)] unfolding k(1) by (simp add: Let_def del: drop_drop)
qed

definition unpacked :: "bytes \<Rightarrow> string list" where
  "unpacked b = unpack (length b) b"

lemma pack_length: "length xs \<le> length (pack xs)"
  by (induction xs) (simp_all add: pack_def)

lemma unpacked_pack [simp]: "unpacked (pack xs) = xs"
  by (simp add: unpacked_def unpack_pack pack_length)

definition strokes :: "nat \<Rightarrow> string" where
  "strokes n = replicate n CHR 0x01"

lemma length_strokes [simp]: "length (strokes n) = n"
  by (simp add: strokes_def)

definition maybe :: "string option \<Rightarrow> string" where
  "maybe x = (case x of None \<Rightarrow> [] | Some s \<Rightarrow> CHR 0x01 # s)"

fun maybe_read :: "string \<Rightarrow> string option" where
  "maybe_read [] = None"
| "maybe_read (_ # s) = Some s"

lemma maybe_read_maybe [simp]: "maybe_read (maybe x) = x"
  by (cases x) (simp_all add: maybe_def)

definition auth_index :: "client_auth \<Rightarrow> nat" where
  "auth_index a = (case a of NoAuth \<Rightarrow> 0 | ClientSecretPost \<Rightarrow> 1 | ClientSecretBasic \<Rightarrow> 2)"

lemma auth_index_read [simp]: "[NoAuth, ClientSecretPost, ClientSecretBasic] ! auth_index a = a"
  by (cases a) (simp_all add: auth_index_def)

definition plain_client :: "client codec" where
  "plain_client =
     (\<lambda>c. pack (maybe (ct_name c) # strokes (auth_index (ct_auth c)) # strokes (ct_issued_at c) # ct_redirect_uris c),
      \<lambda>b. case unpacked b of
            n # a # t # us \<Rightarrow> Some \<lparr>ct_redirect_uris = us, ct_name = maybe_read n,
              ct_auth = [NoAuth, ClientSecretPost, ClientSecretBasic] ! length a, ct_issued_at = length t\<rparr>
          | _ \<Rightarrow> None)"

definition plain_request :: "authorize_request codec" where
  "plain_request =
     (\<lambda>r. pack [rq_client_id r, rq_redirect_uri r, rq_code_challenge r, maybe (rq_state r), strokes (rq_exp r)],
      \<lambda>b. case unpacked b of
            [i, u, c, s, e] \<Rightarrow> Some \<lparr>rq_client_id = i, rq_redirect_uri = u, rq_code_challenge = c, rq_state = maybe_read s, rq_exp = length e\<rparr>
          | _ \<Rightarrow> None)"

definition plain_code :: "code_grant codec" where
  "plain_code =
     (\<lambda>g. pack [cg_client g, cg_redirect_uri g, cg_code_challenge g, cg_key g, strokes (cg_exp g), cg_nonce g],
      \<lambda>b. case unpacked b of
            [c, u, h, k, e, n] \<Rightarrow> Some \<lparr>cg_client = c, cg_redirect_uri = u, cg_code_challenge = h, cg_key = k, cg_exp = length e, cg_nonce = n\<rparr>
          | _ \<Rightarrow> None)"

definition plain_claims :: "token_claims codec" where
  "plain_claims =
     (\<lambda>c. pack [tc_key c, tc_client c, tc_aud c, strokes (tc_exp c), maybe (map_option strokes (tc_auth_time c)), tc_nonce c],
      \<lambda>b. case unpacked b of
            [k, c, a, e, t, n] \<Rightarrow> Some \<lparr>tc_key = k, tc_client = c, tc_aud = a, tc_exp = length e,
              tc_auth_time = map_option length (maybe_read t), tc_nonce = n\<rparr>
          | _ \<Rightarrow> None)"

lemma plain_codecs:
  "codec_ok plain_client" "codec_ok plain_request" "codec_ok plain_code" "codec_ok plain_claims"
  by (simp_all add: codec_ok_def plain_client_def plain_request_def plain_code_def plain_claims_def
      option.map_comp comp_def option.map_ident)

text \<open>The tag is a checksum: enough to tell the artifacts of an example apart.\<close>

definition plain_oauth_deps :: oauth_deps where
  "plain_oauth_deps =
     \<lparr>od_crypto = plain_crypto\<lparr>cr_hex_encode := plain_encode, cr_hex_decode := plain_decode\<rparr>,
      od_hmac = (\<lambda>k m. [char_of ((\<Sum>c\<leftarrow>k @ m. of_char c :: nat) mod 256)]),
      od_b64_encode = plain_encode, od_b64_decode = plain_decode,
      od_client = plain_client, od_request = plain_request, od_code = plain_code, od_claims = plain_claims\<rparr>"

lemma plain_oauth_laws: "oauth_laws plain_oauth_deps"
  using plain_decode_strict by (auto simp: oauth_laws_def plain_oauth_deps_def plain_decode_encode plain_encode_dot plain_codecs)

section \<open>Artifacts\<close>

lemma artifacts_read_back:
  assumes "oauth_laws od" "codec_ok codec" "p \<in> set artifact_prefixes" "q \<in> set artifact_prefixes"
    "length (seal od key codec p x) \<le> MAX_ARTIFACT_LEN"
  shows "open_artifact od key codec q (seal od key codec p x) = (if q = p then Some x else None)"
  using open_seal [OF assms(1,2,5)] open_other_prefix [OF assms(3,4), of od key codec codec x] by auto

lemma loopback_parts_Some:
  assumes "loopback_parts uri = Some (h, p)"
  shows "\<exists>a. uri = ''http://'' @ a @ p \<and> is_loopback_host a"
proof -
  from assms obtain rest where rest: "strip_prefix ''http://'' uri = Some rest"
    by (auto simp: loopback_parts_def split: bind_splits)
  let ?a = "takeWhile (\<lambda>c. c \<noteq> CHR ''/'') rest"
  from rest assms have "is_loopback_host ?a" "p = dropWhile (\<lambda>c. c \<noteq> CHR ''/'') rest"
    by (auto simp: loopback_parts_def Let_def split: if_splits)
  moreover from rest have "uri = ''http://'' @ rest" by (simp add: strip_prefix_Some)
  ultimately have "uri = ''http://'' @ ?a @ p" "is_loopback_host ?a" by simp_all
  then show ?thesis by blast
qed

lemma redirect_stays_registered:
  assumes "client_redirect_uri c requested = Some uri"
  shows "uri \<in> set (ct_redirect_uris c) \<or> (\<exists>a p. uri = ''http://'' @ a @ p \<and> is_loopback_host a)"
proof (cases requested)
  case None
  with assms show ?thesis by (cases "ct_redirect_uris c") (auto simp: client_redirect_uri_def split: if_splits)
next
  case (Some u)
  with assms obtain r where "r \<in> set (ct_redirect_uris c)" "redirect_matches r uri"
    by (auto simp: client_redirect_uri_def list_ex_iff split: if_splits)
  then consider "r = uri" | h p where "loopback_parts uri = Some (h, p)"
    by (auto simp: redirect_matches_def split: option.splits)
  then show ?thesis
  proof cases
    case 2
    from loopback_parts_Some [OF 2] show ?thesis by blast
  qed (use \<open>r \<in> _\<close> in simp)
qed

section \<open>One redemption\<close>

fun exchange_all :: "oauth_deps \<Rightarrow> (key_ring \<times> readings \<times> exchange_call) list \<Rightarrow> oauth \<Rightarrow> oauth" where
  "exchange_all od [] oa = oa"
| "exchange_all od ((ring, t, x) # cs) oa = exchange_all od cs (fst (exchange_code od ring t x oa))"

lemma exchange_all_key: "oa_key (exchange_all od cs oa) = oa_key oa"
  by (induction od cs oa rule: exchange_all.induct) (simp_all add: exchange_key)

lemma exchange_all_holds:
  assumes "held code (cg_exp g) oa" "open_artifact od (oa_key oa) (od_code od) CODE_PREFIX code = Some g"
    "\<forall>(ring, t, x) \<in> set cs. at_redeem t \<le> cg_exp g \<and> (xc_code x = code \<or> code_id (xc_code x) \<noteq> code_id code)"
  shows "held code (cg_exp g) (exchange_all od cs oa)"
  using assms
proof (induction cs arbitrary: oa)
  case (Cons c cs)
  obtain ring t x where c: "c = (ring, t, x)" by (cases c)
  with Cons.prems have "held code (cg_exp g) (fst (exchange_code od ring t x oa))"
    by (intro exchange_holds) auto
  with Cons show ?case by (simp add: c exchange_key)
qed simp

lemma check_code_redeemed: "check_code od (oa\<lparr>oa_redeemed := m\<rparr>) now x = check_code od oa now x"
proof -
  have same: "oa_key (oa\<lparr>oa_redeemed := m\<rparr>) = oa_key oa" "oa_resource (oa\<lparr>oa_redeemed := m\<rparr>) = oa_resource oa"
    "oa_issuer (oa\<lparr>oa_redeemed := m\<rparr>) = oa_issuer oa" by simp_all
  show ?thesis
    unfolding check_code_def check_grant_def accepts_resource_def authenticate_client_def find_client_def client_secret_def same ..
qed

lemma check_grant_later: "check_grant od oa t x i g = Inr () \<Longrightarrow> u \<le> cg_exp g \<Longrightarrow> check_grant od oa u x i g = Inr ()"
  by (simp add: check_grant_def split: if_splits)

lemma check_code_later:
  assumes "check_code od oa t x = Inr g" "u \<le> cg_exp g"
  shows "check_code od oa u x = Inr g"
proof -
  from assms(1) obtain ic where ic: "authenticate_client od oa (xc_credentials x) = Inr ic"
    "check_grant od oa t x (fst ic) g = Inr ()"
    by (auto simp: check_code_def and_then_Ok_iff split: option.splits)
  with check_code_open(1) [OF assms(1)] check_grant_later [OF ic(2) assms(2)] show ?thesis
    by (simp add: check_code_def and_then_def)
qed

section \<open>The flow\<close>

definition code_of :: "oauth_deps \<Rightarrow> nat \<Rightarrow> string \<Rightarrow> authorize_request \<Rightarrow> key_entry \<Rightarrow> code_grant" where
  "code_of od now nonce r k =
     \<lparr>cg_client = client_hash od (rq_client_id r), cg_redirect_uri = rq_redirect_uri r,
      cg_code_challenge = rq_code_challenge r, cg_key = to_config_value (od_crypto od) (ke_digest k),
      cg_exp = (now + CODE_TTL_SECS) mod u64_mod, cg_nonce = nonce\<rparr>"

lemma issued_code_opens:
  assumes "oauth_laws od" "length (issue_code od oa now n r k) \<le> MAX_ARTIFACT_LEN"
  shows "open_artifact od (oa_key oa) (od_code od) CODE_PREFIX (issue_code od oa now n r k) = Some (code_of od now n r k)"
  using assms open_seal [OF assms(1), of "od_code od" "oa_key oa" CODE_PREFIX "code_of od now n r k"]
  by (simp add: issue_code_def code_of_def oauth_laws_def)

lemma registered_client_authenticates:
  assumes "oauth_laws od" "register od oa now uris name auth = Inr (i, sec, c)" "length i \<le> MAX_ARTIFACT_LEN"
  shows "authenticate_client od oa \<lparr>cc_client_id = Some i, cc_client_secret = sec\<rparr> = Inr (i, c)"
proof -
  from assms(2) have parts: "i = seal od (oa_key oa) (od_client od) CLIENT_PREFIX c" "ct_auth c = auth"
    "sec = (if auth \<noteq> NoAuth then Some (client_secret od oa i) else None)"
    by (auto simp: register_def and_then_Ok_iff Let_def split: if_splits)
  with open_seal [OF assms(1), of "od_client od" "oa_key oa" CLIENT_PREFIX c] assms(1,3) have "find_client od oa i = Some c"
    by (simp add: find_client_def oauth_laws_def)
  with parts show ?thesis by (simp add: authenticate_client_def)
qed

definition exchange_of :: "string \<Rightarrow> string option \<Rightarrow> string \<Rightarrow> authorize_request \<Rightarrow> string \<Rightarrow> string \<times> string \<Rightarrow> exchange_call" where
  "exchange_of i sec code r v nonces =
     \<lparr>xc_credentials = \<lparr>cc_client_id = Some i, cc_client_secret = sec\<rparr>, xc_code = code,
      xc_redirect_uri = Some (rq_redirect_uri r), xc_code_verifier = Some v, xc_resource = None, xc_nonces = nonces\<rparr>"

definition flow_ready ::
  "oauth_deps \<Rightarrow> oauth \<Rightarrow> key_ring \<Rightarrow> nat \<Rightarrow> string \<Rightarrow> authorize_request \<Rightarrow> key_entry \<Rightarrow> string \<Rightarrow> bool" where
  "flow_ready od oa ring now n r k v \<longleftrightarrow>
     om_inv (oa_redeemed oa) \<and> om_get (oa_redeemed oa) (code_id (issue_code od oa now n r k)) = None \<and>
     length (rq_client_id r) \<le> MAX_ARTIFACT_LEN \<and> length (issue_code od oa now n r k) \<le> MAX_ARTIFACT_LEN \<and>
     now + CODE_TTL_SECS < u64_mod \<and> pkce_matches od v (rq_code_challenge r) \<and>
     digest_parse (od_crypto od) (to_config_value (od_crypto od) (ke_digest k)) = Inr (ke_digest k) \<and>
     by_digest ring (ke_digest k) = Some k \<and> key_has k Read"

lemma issued_code_exchanges:
  assumes "oauth_laws od" "register od oa n0 uris name auth = Inr (rq_client_id r, sec, c)"
    "flow_ready od oa ring now n r k v" "at_check t \<le> now + CODE_TTL_SECS"
  shows "snd (exchange_code od ring t (exchange_of (rq_client_id r) sec (issue_code od oa now n r k) r v nonces) oa) =
    Inr (issue_tokens od oa (at_issue t) nonces k (client_hash od (rq_client_id r)) (at_auth t))"
proof -
  let ?x = "exchange_of (rq_client_id r) sec (issue_code od oa now n r k) r v nonces" and ?g = "code_of od now n r k"
  have len: "length (rq_client_id r) \<le> MAX_ARTIFACT_LEN" "length (issue_code od oa now n r k) \<le> MAX_ARTIFACT_LEN"
    using assms(3) by (simp_all add: flow_ready_def)
  have "check_grant od oa (at_check t) ?x (rq_client_id r) ?g = Inr ()"
    using assms(3,4) by (simp add: check_grant_def code_of_def exchange_of_def flow_ready_def accepts_resource_def)
  moreover have "authenticate_client od oa (xc_credentials ?x) = Inr (rq_client_id r, c)"
    using registered_client_authenticates [OF assms(1,2) len(1)] by (simp add: exchange_of_def)
  ultimately have check: "check_code od oa (at_check t) ?x = Inr ?g"
    using issued_code_opens [OF assms(1) len(2)] by (simp add: check_code_def exchange_of_def and_then_def)
  have "snd (redeem_once (at_redeem t) (xc_code ?x) (cg_exp ?g) oa) = Inr ()"
    using assms(3) by (simp add: redeem_once_def Let_def flow_ready_def exchange_of_def)
  then obtain oa' where "redeem_once (at_redeem t) (xc_code ?x) (cg_exp ?g) oa = (oa', Inr ())" by (metis prod.collapse)
  moreover have "live_key od ring (cg_key ?g) = Inr k" using assms(3) by (simp add: live_key_def code_of_def flow_ready_def)
  ultimately show ?thesis using check by (simp add: exchange_code_def code_of_def exchange_of_def)
qed

lemma fresh_token_verifies:
  assumes "oauth_laws od" "length (tp_access_token (issue_tokens od oa now ns k cl a)) \<le> MAX_ARTIFACT_LEN"
    "digest_parse (od_crypto od) (to_config_value (od_crypto od) (ke_digest k)) = Inr (ke_digest k)"
    "by_digest ring (ke_digest k) = Some k"
    "now + oa_access_ttl oa < u64_mod" "u \<le> now + oa_access_ttl oa" "u \<le> sat_add64 a (oa_approval_max_age oa)"
  shows "verify_access od oa ring u (tp_access_token (issue_tokens od oa now ns k cl a)) = Inr (k, cl)"
proof -
  let ?c = "claims_until od oa k cl (min ((now + oa_access_ttl oa) mod u64_mod) (sat_add64 a (oa_approval_max_age oa))) a (fst ns)"
  have tok: "tp_access_token (issue_tokens od oa now ns k cl a) = seal od (oa_key oa) (od_claims od) ACCESS_PREFIX ?c"
    by (simp add: issue_tokens_def Let_def)
  with open_seal [OF assms(1), of "od_claims od" "oa_key oa" ACCESS_PREFIX ?c] assms(1,2)
  have "open_artifact od (oa_key oa) (od_claims od) ACCESS_PREFIX (tp_access_token (issue_tokens od oa now ns k cl a)) = Some ?c"
    by (simp add: oauth_laws_def)
  with assms(3-7) show ?thesis by (simp add: verify_access_def claims_until_def)
qed

section \<open>An exchange\<close>

definition plain_oauth :: oauth where
  "plain_oauth =
     \<lparr>oa_issuer = ''https://db'', oa_resource = ''https://db/mcp'', oa_key = ''k'', oa_access_ttl = 5, oa_refresh_ttl = 10,
      oa_approval_max_age = 20, oa_redeemed = []\<rparr>"

definition plain_owner :: key_entry where
  "plain_owner = hd (kr_entries plain_ring)"

definition plain_app :: client where
  "plain_app = \<lparr>ct_redirect_uris = [''https://app/''], ct_name = None, ct_auth = NoAuth, ct_issued_at = 1\<rparr>"

definition plain_ask :: authorize_request where
  "plain_ask =
     \<lparr>rq_client_id = seal plain_oauth_deps (oa_key plain_oauth) (od_client plain_oauth_deps) CLIENT_PREFIX plain_app,
      rq_redirect_uri = ''https://app/'', rq_code_challenge = plain_encode (cr_sha256 plain_crypto (replicate 43 CHR ''v'')),
      rq_state = None, rq_exp = 601\<rparr>"

definition plain_readings :: "nat \<Rightarrow> nat \<Rightarrow> readings" where
  "plain_readings a b = \<lparr>at_check = a, at_redeem = b, at_auth = b, at_issue = b\<rparr>"

lemma plain_registers:
  "register plain_oauth_deps plain_oauth 1 [''https://app/''] None NoAuth = Inr (rq_client_id plain_ask, None, plain_app)"
proof -
  have "check_redirect_uri ''https://app/'' = Inr ()" by code_simp
  then show ?thesis
    by (simp add: register_def plain_ask_def plain_app_def MAX_REDIRECT_URIS_def map_err_def and_then_def Let_def)
qed

lemma plain_encode_length: "length (plain_encode b) = 2 * length b"
  by (induction b) (simp_all add: plain_encode_def)

lemma pack_size: "length (pack xs) = (\<Sum>s\<leftarrow>xs. 2 * length s + 1)"
  by (induction xs) (simp_all add: pack_def)

lemma plain_seal_length: "length (seal plain_oauth_deps key codec p x) = length p + 2 * length (fst codec x) + 3"
  by (simp add: seal_def Let_def plain_oauth_deps_def plain_encode_length artifact_tag_def)

lemma plain_owner_live:
  "ke_digest plain_owner = replicate 32 CHR ''a''" "by_digest plain_ring (ke_digest plain_owner) = Some plain_owner"
  "key_has plain_owner Read"
proof -
  have keys: "list_all2 (\<lambda>k c. ke_digest k = replicate 32 c) (kr_entries plain_ring) ''abc''" "key_has (hd (kr_entries plain_ring)) Read"
    unfolding plain_ring_def by code_simp+
  then obtain ks where "kr_entries plain_ring = plain_owner # ks" unfolding plain_owner_def by (cases "kr_entries plain_ring") auto
  then show "ke_digest plain_owner = replicate 32 CHR ''a''" "by_digest plain_ring (ke_digest plain_owner) = Some plain_owner"
    using keys by (simp_all add: by_digest_def)
  show "key_has plain_owner Read" using keys by (simp add: plain_owner_def)
qed

lemma plain_ready: "flow_ready plain_oauth_deps plain_oauth plain_ring 1 ''n'' plain_ask plain_owner (replicate 43 CHR ''v'')"
proof -
  have ascii_v: "is_ascii_alphanumeric CHR ''v''" by code_simp
  have "pkce_matches plain_oauth_deps (replicate 43 CHR ''v'') (rq_code_challenge plain_ask)"
    using ascii_v by (simp add: pkce_matches_def plain_ask_def plain_oauth_deps_def list_all_iff)
  moreover have "digest_parse (od_crypto plain_oauth_deps) (to_config_value (od_crypto plain_oauth_deps) (replicate 32 CHR ''a'')) =
    Inr (replicate 32 CHR ''a'')"
    by code_simp
  moreover have "length (rq_client_id plain_ask) \<le> MAX_ARTIFACT_LEN"
    by (simp add: plain_ask_def plain_seal_length) (simp add: plain_oauth_deps_def plain_client_def plain_app_def pack_size
        CLIENT_PREFIX_def MAX_ARTIFACT_LEN_def maybe_def auth_index_def)
  moreover have "length (issue_code plain_oauth_deps plain_oauth 1 ''n'' plain_ask plain_owner) \<le> MAX_ARTIFACT_LEN"
    by (simp add: issue_code_def plain_seal_length) (simp add: plain_oauth_deps_def plain_code_def plain_ask_def pack_size
        CODE_PREFIX_def MAX_ARTIFACT_LEN_def client_hash_def plain_encode_length to_config_value_def plain_crypto_def plain_owner_live
        DIGEST_PREFIX_def CODE_TTL_SECS_def u64_mod_def)
  ultimately show ?thesis using plain_owner_live
    by (simp add: flow_ready_def plain_oauth_def CODE_TTL_SECS_def u64_mod_def)
qed

section \<open>Approvals\<close>

text \<open>
  The token pairs one approval gives: the pair of the exchange, and every pair a refresh gives for the
  refresh token of such a pair. The server is the same throughout but for the codes it has redeemed.
\<close>

inductive granted :: "oauth_deps \<Rightarrow> oauth \<Rightarrow> nat \<Rightarrow> token_pair \<Rightarrow> bool" for od oa a where
  exchanged: "exchange_code od ring t x (oa\<lparr>oa_redeemed := m\<rparr>) = (oa', Inr tp) \<Longrightarrow> at_auth t = a \<Longrightarrow> granted od oa a tp"
| refreshed: "granted od oa a tp \<Longrightarrow> refresh od oa ring n1 n2 n3 nonces cr (tp_refresh_token tp) resource = Inr tp' \<Longrightarrow>
    granted od oa a tp'"

lemma issue_tokens_redeemed: "issue_tokens od (oa\<lparr>oa_redeemed := m\<rparr>) = issue_tokens od oa"
  by (intro ext) (simp add: issue_tokens_def claims_until_def)

lemma exchange_issues:
  assumes "exchange_code od ring t x oa = (oa', Inr tp)"
  shows "\<exists>k cl. tp = issue_tokens od oa (at_issue t) (xc_nonces x) k cl (at_auth t)"
proof (cases "check_code od oa (at_check t) x")
  case (Inr g)
  obtain oa' r where "redeem_once (at_redeem t) (xc_code x) (cg_exp g) oa = (oa', r)" by (rule prod.exhaust)
  with Inr assms show ?thesis by (cases r; cases "live_key od ring (cg_key g)") (auto simp: exchange_code_def)
qed (use assms in \<open>simp add: exchange_code_def\<close>)

definition auth_time_of :: "oauth \<Rightarrow> token_claims \<Rightarrow> nat" where
  "auth_time_of oa c = (case tc_auth_time c of Some a \<Rightarrow> a | None \<Rightarrow> tc_exp c - oa_refresh_ttl oa)"

lemma refresh_opens:
  assumes "refresh od oa ring n1 n2 n3 nonces cr token resource = Inr tp"
  shows "\<exists>c k. open_artifact od (oa_key oa) (od_claims od) REFRESH_PREFIX token = Some c \<and>
    tp = issue_tokens od oa n3 nonces k (tc_client c) (auth_time_of oa c) \<and>
    n2 < sat_add64 (auth_time_of oa c) (oa_approval_max_age oa)"
proof (cases "open_artifact od (oa_key oa) (od_claims od) REFRESH_PREFIX token")
  case None
  with assms show ?thesis by (auto simp: refresh_def and_then_Ok_iff)
next
  case (Some c)
  with assms show ?thesis
    unfolding refresh_def auth_time_of_def [symmetric] Let_def
    by (auto simp: and_then_Ok_iff not_le split: if_splits)
qed

lemma refresh_keeps_auth_time:
  assumes "oauth_laws od" "refresh od oa ring n1 n2 n3 nonces cr (tp_refresh_token (issue_tokens od oa now ns k cl a)) resource = Inr tp"
  shows "n2 < sat_add64 a (oa_approval_max_age oa)" "\<exists>k cl. tp = issue_tokens od oa n3 nonces k cl a"
proof -
  let ?token = "tp_refresh_token (issue_tokens od oa now ns k cl a)"
  from refresh_opens [OF assms(2)] obtain c k' where
    c: "open_artifact od (oa_key oa) (od_claims od) REFRESH_PREFIX ?token = Some c" and
    tp: "tp = issue_tokens od oa n3 nonces k' (tc_client c) (auth_time_of oa c)"
      "n2 < sat_add64 (auth_time_of oa c) (oa_approval_max_age oa)" by blast
  have "length ?token \<le> MAX_ARTIFACT_LEN" using c by (simp add: open_artifact_def split: if_splits)
  from issued_refresh_claims(2) [OF assms(1) this c] tp
  show "n2 < sat_add64 a (oa_approval_max_age oa)" "\<exists>k cl. tp = issue_tokens od oa n3 nonces k cl a" by (auto simp: auth_time_of_def)
qed

lemma granted_issued:
  assumes "granted od oa a tp" "oauth_laws od"
  shows "\<exists>now ns k cl. tp = issue_tokens od oa now ns k cl a"
  using assms(1)
proof induction
  case (exchanged ring t x m oa' tp)
  from exchange_issues [OF exchanged(1)] exchanged(2) show ?case unfolding issue_tokens_redeemed by blast
next
  case (refreshed tp ring n1 n2 n3 nonces cr resource tp')
  then obtain now ns k cl where tp: "tp = issue_tokens od oa now ns k cl a" by blast
  from refresh_keeps_auth_time(2) [OF assms(2) refreshed(2) [unfolded tp]] show ?case by blast
qed

section \<open>Properties\<close>

text \<open>
  C26: The flow ends in a token. A client that registers, whose authorization request the owner of a live key
  approves, and that presents the verifier of its challenge before the code expires, is answered with a pair
  of tokens; and for as long as the access token and the approval last, that token resolves to the owner's
  key and to the client.
\<close>

theorem flow_ends_in_a_token:
  assumes "oauth_laws od" "register od oa n0 uris name auth = Inr (rq_client_id r, sec, c)"
    "flow_ready od oa ring now n r k v" "at_check t \<le> now + CODE_TTL_SECS"
    "at_issue t + oa_access_ttl oa < u64_mod" "u \<le> at_issue t + oa_access_ttl oa"
    "u \<le> sat_add64 (at_auth t) (oa_approval_max_age oa)"
    "snd (exchange_code od ring t (exchange_of (rq_client_id r) sec (issue_code od oa now n r k) r v nonces) oa) = answer"
    "\<forall>tp. answer = Inr tp \<longrightarrow> length (tp_access_token tp) \<le> MAX_ARTIFACT_LEN"
  shows "\<exists>tp. answer = Inr tp \<and> verify_access od oa ring u (tp_access_token tp) = Inr (k, client_hash od (rq_client_id r))"
proof -
  let ?tp = "issue_tokens od oa (at_issue t) nonces k (client_hash od (rq_client_id r)) (at_auth t)"
  have tp: "answer = Inr ?tp" using issued_code_exchanges [OF assms(1-4)] assms(8) by simp
  moreover have "verify_access od oa ring u (tp_access_token ?tp) = Inr (k, client_hash od (rq_client_id r))"
    using assms(1,3,5-7,9) tp by (intro fresh_token_verifies) (simp_all add: flow_ready_def)
  ultimately show ?thesis by blast
qed

text \<open>
  C7: An authorization code is redeemed once while it lives. After an exchange of a code has answered with
  tokens, and whatever other exchanges follow, of this code or of codes with another tag, a further exchange
  of the code is refused, provided each of them takes its redemption reading of the clock no later than the
  code's expiry.
\<close>

theorem code_is_redeemed_once:
  assumes "exchange_code od ring t x oa = (oa1, Inr tokens)" "om_inv (oa_redeemed oa)"
    "open_artifact od (oa_key oa) (od_code od) CODE_PREFIX (xc_code x) = Some g"
    "\<forall>(ring', t', y) \<in> set others.
       at_redeem t' \<le> cg_exp g \<and> (xc_code y = xc_code x \<or> code_id (xc_code y) \<noteq> code_id (xc_code x))"
    "xc_code z = xc_code x" "at_redeem u \<le> cg_exp g"
  shows "\<exists>e. snd (exchange_code od ring2 u z (exchange_all od others oa1)) = Inl e"
proof -
  have key: "oa_key oa1 = oa_key oa" using exchange_key [of od ring t x oa] assms(1) by simp
  from exchange_redeems [OF assms(1-3)] assms(3,4)
  have "held (xc_code x) (cg_exp g) (exchange_all od others oa1)" by (intro exchange_all_holds) (simp_all add: key)
  with assms(5,6) show ?thesis by (intro held_refuses) simp_all
qed

text \<open>
  C37: The expiry of a code is read off the clock twice, and at the second the code expires the two readings
  disagree. An exchange that passes the expiry check and then takes its redemption reading after the expiry
  drops the record of the first redemption as stale before looking for it, so a code that has already been
  exchanged is exchanged again.
\<close>

theorem code_is_redeemed_twice_at_expiry:
  assumes "exchange_code od ring t x oa = (oa1, Inr tokens)" "om_inv (oa_redeemed oa)"
    "open_artifact od (oa_key oa) (od_code od) CODE_PREFIX (xc_code x) = Some g"
    "at_check u \<le> cg_exp g" "cg_exp g < at_redeem u"
  shows "\<exists>again. snd (exchange_code od ring u x oa1) = Inr again"
proof -
  obtain g' where c1: "check_code od oa (at_check t) x = Inr g'"
    using assms(1) by (cases "check_code od oa (at_check t) x") (simp_all add: exchange_code_def)
  then have g: "check_code od oa (at_check t) x = Inr g" using check_code_open(1) [OF c1] assms(3) by simp
  obtain oa' r where red: "redeem_once (at_redeem t) (xc_code x) (cg_exp g) oa = (oa', r)" by (rule prod.exhaust)
  obtain k where k: "live_key od ring (cg_key g) = Inr k"
    using assms(1) g red by (cases r; cases "live_key od ring (cg_key g)") (simp_all add: exchange_code_def)
  have oa1: "oa1 = oa\<lparr>oa_redeemed := oa_redeemed oa1\<rparr>" "held (xc_code x) (cg_exp g) oa1"
    using exchange_state [of od ring t x oa] exchange_redeems [OF assms(1-3)] g
    by (simp_all add: assms(1) redeem_once_def Let_def)
  have "check_code od (oa\<lparr>oa_redeemed := m\<rparr>) (at_check u) x = Inr g" for m
    unfolding check_code_redeemed by (rule check_code_later [OF g assms(4)])
  then have "check_code od (oa\<lparr>oa_redeemed := oa_redeemed oa1\<rparr>) (at_check u) x = Inr g" .
  then have "check_code od oa1 (at_check u) x = Inr g" unfolding oa1(1) [symmetric] .
  moreover have "om_get (om_retain (\<lambda>_ until. at_redeem u \<le> until) (oa_redeemed oa1)) (code_id (xc_code x)) = None"
    using oa1(2) assms(5) by (simp add: held_def)
  ultimately show ?thesis using k by (simp add: exchange_code_def redeem_once_def Let_def)
qed


section \<open>The properties on the example\<close>

abbreviation plain_run :: "nat \<Rightarrow> nat \<Rightarrow> oauth \<Rightarrow> oauth \<times> (oauth_error, token_pair) result" where
  "plain_run a b \<equiv>
     exchange_code plain_oauth_deps plain_ring (plain_readings a b)
       (exchange_of (rq_client_id plain_ask) None (issue_code plain_oauth_deps plain_oauth 1 ''n'' plain_ask plain_owner)
          plain_ask (replicate 43 CHR ''v'') (''a'', ''b''))"

lemma plain_run_ok:
  "plain_run 2 2 plain_oauth =
   (fst (plain_run 2 2 plain_oauth),
    Inr (issue_tokens plain_oauth_deps plain_oauth 2 (''a'', ''b'') plain_owner (client_hash plain_oauth_deps (rq_client_id plain_ask)) 2))"
  using issued_code_exchanges [OF plain_oauth_laws plain_registers plain_ready, of "plain_readings 2 2" "(''a'', ''b'')"]
  by (simp add: plain_readings_def CODE_TTL_SECS_def prod_eq_iff)

lemma plain_code_opens:
  "open_artifact plain_oauth_deps (oa_key plain_oauth) (od_code plain_oauth_deps) CODE_PREFIX
     (xc_code (exchange_of i sec (issue_code plain_oauth_deps plain_oauth 1 ''n'' plain_ask plain_owner) r v ns)) =
   Some (code_of plain_oauth_deps 1 ''n'' plain_ask plain_owner)"
  "cg_exp (code_of plain_oauth_deps 1 ''n'' plain_ask plain_owner) = 61"
  using issued_code_opens [OF plain_oauth_laws, of plain_oauth 1 "''n''" plain_ask plain_owner] plain_ready
  by (simp_all add: flow_ready_def exchange_of_def code_of_def CODE_TTL_SECS_def u64_mod_def)

theorem flow_ends_in_a_token_witness:
  "verify_access plain_oauth_deps plain_oauth plain_ring 7 (tp_access_token (projr (snd (plain_run 2 2 plain_oauth)))) =
   Inr (plain_owner, client_hash plain_oauth_deps (rq_client_id plain_ask))"
proof -
  let ?tp = "issue_tokens plain_oauth_deps plain_oauth 2 (''a'', ''b'') plain_owner (client_hash plain_oauth_deps (rq_client_id plain_ask)) 2"
  have "length (tp_access_token ?tp) \<le> MAX_ARTIFACT_LEN"
    by (simp add: issue_tokens_def Let_def plain_seal_length)
      (simp add: plain_oauth_deps_def plain_claims_def claims_until_def pack_size ACCESS_PREFIX_def MAX_ARTIFACT_LEN_def maybe_def
        client_hash_def plain_encode_length to_config_value_def plain_crypto_def plain_owner_live DIGEST_PREFIX_def
        plain_oauth_def sat_add64_def u64_max_def u64_mod_def)
  then have len: "\<forall>tp. snd (plain_run 2 2 plain_oauth) = Inr tp \<longrightarrow> length (tp_access_token tp) \<le> MAX_ARTIFACT_LEN"
    by (subst plain_run_ok) simp
  have "\<exists>tp. snd (plain_run 2 2 plain_oauth) = Inr tp \<and>
    verify_access plain_oauth_deps plain_oauth plain_ring 7 (tp_access_token tp) =
      Inr (plain_owner, client_hash plain_oauth_deps (rq_client_id plain_ask))"
    by (rule flow_ends_in_a_token [OF plain_oauth_laws plain_registers plain_ready _ _ _ _ refl len])
      (simp_all add: plain_readings_def plain_oauth_def CODE_TTL_SECS_def u64_mod_def u64_max_def sat_add64_def)
  then show ?thesis by auto
qed

theorem code_is_redeemed_once_witness:
  "isl (snd (plain_run 60 61 (fst (plain_run 3 3 (fst (plain_run 2 2 plain_oauth))))))"
proof -
  let ?x = "exchange_of (rq_client_id plain_ask) None (issue_code plain_oauth_deps plain_oauth 1 ''n'' plain_ask plain_owner)
    plain_ask (replicate 43 CHR ''v'') (''a'', ''b'')"
  have "\<exists>e. snd (plain_run 60 61 (exchange_all plain_oauth_deps [(plain_ring, plain_readings 3 3, ?x)] (fst (plain_run 2 2 plain_oauth)))) = Inl e"
    by (rule code_is_redeemed_once [OF plain_run_ok _ plain_code_opens(1)])
      (simp_all add: plain_code_opens(2) plain_readings_def plain_oauth_def del: One_nat_def)
  then show ?thesis by (auto simp: isl_def)
qed

theorem code_is_redeemed_twice_at_expiry_witness:
  "\<not> isl (snd (plain_run 2 2 plain_oauth)) \<and> \<not> isl (snd (plain_run 61 62 (fst (plain_run 2 2 plain_oauth))))"
proof
  show "\<not> isl (snd (plain_run 2 2 plain_oauth))" by (subst plain_run_ok) simp
  have "\<exists>again. snd (plain_run 61 62 (fst (plain_run 2 2 plain_oauth))) = Inr again"
    by (rule code_is_redeemed_twice_at_expiry [OF plain_run_ok _ plain_code_opens(1)])
      (simp_all add: plain_code_opens(2) plain_readings_def plain_oauth_def del: One_nat_def)
  then show "\<not> isl (snd (plain_run 61 62 (fst (plain_run 2 2 plain_oauth))))" by auto
qed


end
