(* ===== verification/Authz_Props.thy ===== *)
theory Authz_Props
  imports Authz OAuth_Props
begin

text \<open>
  What the gate guarantees: a handler runs only for a caller its route admits, the decision does not depend on
  the order of the route table, and a listing shows a caller exactly the indexes of its scope.
\<close>

section \<open>An example\<close>

definition plain_gate :: gate where
  "plain_gate = \<lparr>ga_ring = plain_ring, ga_oauth = None, ga_audit = audit_disabled, ga_refused = 0\<rparr>"

definition plain_put :: http_request where
  "plain_put =
     \<lparr>hr_method = ''PUT'', hr_path = ''/api/acme-x/document'',
      hr_authorization = Some (''Bearer cameo_v1_'' @ replicate 43 CHR ''a''), hr_peer = None\<rparr>"

definition answer_with :: "nat \<Rightarrow> attached \<Rightarrow> http_request \<Rightarrow> http_response" where
  "answer_with n a req = \<lparr>hs_status = n, hs_challenge = None, hs_query = None\<rparr>"

lemma plain_put_passes: "hs_status (snd (authorize plain_oauth_deps (\<lambda>_. []) (answer_with n) 0 [] plain_gate plain_put)) = n"
  by code_simp

section \<open>Properties\<close>

text \<open>
  C6: The gate admits only the authorized. On a node that authenticates, either the answer to a request is the
  gate's own, whatever the handler would have said, or the handler ran for a caller the route admits: nobody
  at all on a public route, or a key of the ring that holds the capability the route needs, in its own role
  and on the index named, with that index in its scope and well named; and a caller admitted on an OAuth
  token reaches only the MCP endpoint, where it can do nothing but read.
\<close>

theorem gate_admits_only_the_authorized:
  assumes "kr_enabled (ga_ring g)" "authorize od text next now ts g req = (g', response)"
  shows "(\<forall>next'. authorize od text next' now ts g req = (g', response)) \<or>
    (\<exists>a. response = next a req \<and> permitted g req a)"
proof -
  let ?cl = "classify (hr_method req) (hr_path req)"
  let ?index = "Option.bind ?cl cl_index"
  obtain seen decision where dec: "decide_with od now (ga_ring g) (ga_oauth g) (hr_method req) (hr_path req) (hr_authorization req)
    (ga_refused g) = (seen, decision)" by (rule prod.exhaust)
  show ?thesis
  proof (cases decision)
    case (Inl r)
    with assms(2) dec show ?thesis by (simp add: authorize_def Let_def)
  next
    case (Inr ad)
    note dec = dec [unfolded Inr]
    show ?thesis
    proof (cases "\<exists>i. ?index = Some i \<and> validate_index_name i \<noteq> Inr ()")
      case True
      with assms(2) dec show ?thesis by (auto simp: authorize_def Let_def)
    next
      case False
      let ?a = "\<lparr>at_authz = ad_authz ad,
         at_mcp = (if map_option cl_access ?cl = Some Mcp
                   then Some \<lparr>mc_authz = ad_authz ad, mc_peer = hr_peer req, mc_read_only = ad_oauth_client ad \<noteq> None\<rparr> else None),
         at_caller = (authz_key_id (od_crypto od) (ad_authz ad), hr_peer req)\<rparr>"
      from False have "authorize od text next now ts g req =
        pass_on od next ts (g\<lparr>ga_refused := seen\<rparr>) req ad (map_option cl_access ?cl) ?index"
        using dec by (auto simp: authorize_def Let_def split: option.split)
      with assms(2) pass_on_response have "response = next ?a req" by (metis snd_conv)
      moreover from decide_admits [OF dec assms(1)] False have "permitted g req ?a"
        using known_caller_in_ring by (fastforce simp: permitted_def Let_def caller_has_def caller_has_on_def)
      ultimately show ?thesis by blast
    qed
  qed
qed

theorem gate_admits_only_the_authorized_witness:
  "\<exists>a. snd (authorize plain_oauth_deps (\<lambda>_. []) (answer_with 200) 0 [] plain_gate plain_put) = answer_with 200 a plain_put \<and>
     permitted plain_gate plain_put a"
proof -
  let ?run = "\<lambda>n. authorize plain_oauth_deps (\<lambda>_. []) (answer_with n) 0 [] plain_gate plain_put"
  obtain g' r where run: "?run 200 = (g', r)" by (rule prod.exhaust)
  have "kr_enabled (ga_ring plain_gate)" by code_simp
  from gate_admits_only_the_authorized [OF this run] show ?thesis
  proof
    assume "\<forall>next'. authorize plain_oauth_deps (\<lambda>_. []) next' 0 [] plain_gate plain_put = (g', r)"
    then have "hs_status r = 200" "hs_status r = 500" using plain_put_passes [of 200] plain_put_passes [of 500] by simp_all
    then show ?thesis by simp
  qed (use run in simp)
qed

text \<open>
  The route table is a matrix: no request matches two of its rules, so a request needs the same thing
  however the rules are ordered.
\<close>

lemma route_order_is_irrelevant:
  assumes "mset rules = mset ROUTES"
  shows "classify_by rules verb path = classify_by ROUTES verb path"
proof -
  from assms have set: "set rules = set ROUTES" by (metis set_mset_mset)
  show ?thesis
  proof (cases "classify_by ROUTES verb path")
    case None
    then show ?thesis
    proof (cases "classify_by rules verb path")
      case (Some c)
      with classify_by_Some [OF Some] classify_by_None [OF None] set show ?thesis by fastforce
    qed simp
  next
    case (Some c)
    from classify_by_Some [OF Some] obtain p where p: "(verb, p, cl_access c) \<in> set ROUTES" "match_pattern p path = Some (cl_index c)" by blast
    obtain c' where c': "classify_by rules verb path = Some c'"
      using classify_by_None [of rules verb path p "cl_access c"] p set by (cases "classify_by rules verb path") auto
    from classify_by_Some [OF c'] set obtain q where
      q: "(verb, q, cl_access c') \<in> set ROUTES" "match_pattern q path = Some (cl_index c')" by blast
    from rules_apart_unique [OF ROUTES_apart p(1) q(1) p(2) q(2)] Some c' show ?thesis by simp
  qed
qed

text \<open>
  A listing shows a caller exactly its own indexes. Filtering a listing for a caller, with the listings of
  the nodes inside it, leaves the names the caller may touch, in order, and no other; for a caller of the MCP
  endpoint no entry without a name is left either, and each count that stood beside a list is the length of
  what is left of it.
\<close>

lemma listing_shows_the_scope:
  "listed (filter_index_listing a v) = filter (authz_allows_index a) (listed v) \<and>
   listed (retain_visible_indexes m v) = filter (caller_allows_index m) (listed v) \<and>
   honest (caller_allows_index m) (retain_visible_indexes m v)"
proof -
  have "listed (filter_index_listing a v) = filter (authz_allows_index a) (listed v)"
  proof (cases a)
    case (Key k)
    have "authz_allows_index (Key k) = allows_index k" by (rule ext) (simp add: authz_allows_index_def)
    moreover have "\<not> is_index_scoped k \<Longrightarrow> allows_index k i" for i
      by (simp add: is_index_scoped_def allows_index_def key_scopes_def)
    ultimately show ?thesis using Key retain_lists(1) [of "allows_index k" v]
      by (auto simp: filter_index_listing_def intro!: filter_True [symmetric])
  qed (use retain_lists(1) [of "\<lambda>_. False" v] in \<open>simp_all add: filter_index_listing_def authz_allows_index_def\<close>)
  with retain_lists(1) [of "caller_allows_index m" v] show ?thesis by (simp add: retain_visible_indexes_def)
qed

end
