(* ===== verification/Mcp_Tools.thy ===== *)
theory Mcp_Tools
  imports Authz
begin

text \<open>
  The MCP endpoint above its transport (\<open>mcp/src/authz.rs\<close>, \<open>tools/mod.rs\<close>, \<open>tools/limits.rs\<close>, \<open>rpc.rs\<close>,
  \<open>protocol.rs\<close>): what a tool requires, the checks of a call, its dispatch to the host, the JSON-RPC envelope
  and the record a call leaves. A caller is the record of the answers the host gives about it. The host's
  operations are parameters, as are the decoders derived from the argument structures and the texts handed to
  a model.
\<close>

section \<open>Callers and tools\<close>

record mcp_authz =
  ma_key_id :: "string option"
  ma_allows_index :: "string \<Rightarrow> bool"
  ma_has :: "mcp_capability \<Rightarrow> bool"
  ma_has_on :: "mcp_capability \<Rightarrow> string \<Rightarrow> bool"

definition caller_authz :: "crypto \<Rightarrow> mcp_caller \<Rightarrow> mcp_authz" where
  "caller_authz c m =
     \<lparr>ma_key_id = authz_key_id c (mc_authz m), ma_allows_index = caller_allows_index m, ma_has = caller_has m,
      ma_has_on = caller_has_on m\<rparr>"

definition unrestricted :: mcp_authz where
  "unrestricted = \<lparr>ma_key_id = None, ma_allows_index = (\<lambda>_. True), ma_has = (\<lambda>_. True), ma_has_on = (\<lambda>_ _. True)\<rparr>"

definition tool_names :: "string list" where
  "tool_names =
     [''search_index'', ''search_across_indexes'', ''describe_index'', ''list_indexes'', ''validate_query'', ''get_catalog_stats'']"

definition tool_capability :: "string \<Rightarrow> mcp_capability option" where
  "tool_capability name = (if name \<in> set tool_names then Some McpRead else None)"

section \<open>Limits\<close>

datatype window_error = LimitAbove nat nat | WindowAbove nat nat nat

definition sat_add :: "nat \<Rightarrow> nat \<Rightarrow> nat" where
  "sat_add a b = sat_add64 a b"

definition checked_search_window :: "nat option \<Rightarrow> nat option \<Rightarrow> nat \<Rightarrow> nat \<Rightarrow> (window_error, nat \<times> nat) result" where
  "checked_search_window limit offset default_limit max_search_limit =
     (let limit = (case limit of Some l \<Rightarrow> l | None \<Rightarrow> default_limit);
          offset = (case offset of Some x \<Rightarrow> x | None \<Rightarrow> 0)
      in if max_search_limit < limit then Err (LimitAbove limit max_search_limit)
         else if max_search_limit < sat_add offset limit then Err (WindowAbove offset limit max_search_limit)
         else Ok (offset, limit))"

definition checked_array_limit :: "nat option \<Rightarrow> nat \<Rightarrow> nat \<Rightarrow> (nat, nat) result" where
  "checked_array_limit array default_array_limit max_array_limit =
     (let array = (case array of Some a \<Rightarrow> a | None \<Rightarrow> default_array_limit)
      in if max_array_limit < array then Err array else Ok array)"

section \<open>The host\<close>

datatype sort_order = Asc | Desc

record sort_spec =
  so_field :: string
  so_order :: sort_order

record index_request =
  ir_index :: string
  ir_fields :: "string list option"
  ir_sort :: "sort_spec option"

record search_bounds =
  sb_limit :: "nat option"
  sb_offset :: "nat option"
  sb_array :: "nat option"
  sb_matches :: "bool option"

datatype tool_fault =
    UnsupportedTool string | LacksCapability string mcp_capability | BadArguments string string
  | BadWindow window_error | BadArray nat | NoIndexNamed | TooManyIndexes nat nat | NamedTwice string
  | NotPermitted string | LacksOn mcp_capability string | HostRefused string

datatype tool_error = Caller tool_fault | Internal string

record mcp_backend =
  be_search_index :: "index_request \<Rightarrow> string \<Rightarrow> search_bounds \<Rightarrow> (tool_error, json) result"
  be_search_across :: "index_request list \<Rightarrow> string \<Rightarrow> search_bounds \<Rightarrow> (tool_error, json) result"
  be_describe_index :: "string \<Rightarrow> (tool_error, json) result"
  be_list_indexes :: "mcp_authz \<Rightarrow> (tool_error, json) result"
  be_validate_query :: "string option \<Rightarrow> string option \<Rightarrow> string option \<Rightarrow> (tool_error, json) result"
  be_catalog_stats :: "mcp_authz \<Rightarrow> (tool_error, json) result"
  be_list_resources :: "mcp_authz \<Rightarrow> (tool_error, json) result"
  be_read_resource :: "string \<Rightarrow> mcp_authz \<Rightarrow> (tool_error, json) result"
  be_max_search_limit :: nat
  be_max_federated_indexes :: nat
  be_default_search_limit :: nat
  be_max_array_limit :: nat
  be_default_array_limit :: nat
  be_check_tool_rate :: "mcp_authz \<Rightarrow> string \<Rightarrow> nat \<Rightarrow> nat option"

section \<open>Arguments\<close>

record search_index_args =
  sa_index :: string
  sa_query :: string
  sa_bounds :: search_bounds
  sa_fields :: "string list option"
  sa_sort :: "sort_spec option"

record search_across_args =
  xa_indexes :: "index_request list"
  xa_query :: string
  xa_bounds :: search_bounds

record validate_query_args =
  va_index :: "string option"
  va_partial_field :: "string option"
  va_query :: "string option"

record decoders =
  de_search_index :: "json \<Rightarrow> (string, search_index_args) result"
  de_search_across :: "json \<Rightarrow> (string, search_across_args) result"
  de_describe_index :: "json \<Rightarrow> (string, string) result"
  de_list_indexes :: "json \<Rightarrow> (string, unit) result"
  de_validate_query :: "json \<Rightarrow> (string, validate_query_args) result"
  de_catalog_stats :: "json \<Rightarrow> (string, unit) result"

definition decode_args :: "(json \<Rightarrow> (string, 'a) result) \<Rightarrow> string \<Rightarrow> json \<Rightarrow> (tool_error, 'a) result" where
  "decode_args decode tool arguments =
     map_err (\<lambda>e. Caller (BadArguments tool e)) (decode (if arguments = JNull then JObject [] else arguments))"

definition check_window :: "mcp_backend \<Rightarrow> search_bounds \<Rightarrow> (tool_error, unit) result" where
  "check_window be b =
     map_err (\<lambda>e. Caller (BadWindow e))
       (and_then (checked_search_window (sb_limit b) (sb_offset b) (be_default_search_limit be) (be_max_search_limit be)) (\<lambda>_. Ok ()))"

definition check_array :: "mcp_backend \<Rightarrow> nat option \<Rightarrow> (tool_error, unit) result" where
  "check_array be array =
     map_err (\<lambda>e. Caller (BadArray e))
       (and_then (checked_array_limit array (be_default_array_limit be) (be_max_array_limit be)) (\<lambda>_. Ok ()))"

fun first_repeat :: "string list \<Rightarrow> string list \<Rightarrow> string option" where
  "first_repeat seen [] = None"
| "first_repeat seen (x # xs) = (if x \<in> set seen then Some x else first_repeat (seen @ [x]) xs)"

definition check_index_list :: "index_request list \<Rightarrow> nat \<Rightarrow> (tool_error, unit) result" where
  "check_index_list indexes max_federated =
     (if indexes = [] then Err (Caller NoIndexNamed)
      else if max_federated < length indexes then Err (Caller (TooManyIndexes (length indexes) max_federated))
      else case first_repeat [] (map ir_index indexes) of
             Some n \<Rightarrow> Err (Caller (NamedTwice n))
           | None \<Rightarrow> Ok ())"

definition check_index :: "mcp_authz \<Rightarrow> mcp_capability \<Rightarrow> string \<Rightarrow> (tool_error, unit) result" where
  "check_index a required index =
     (if \<not> ma_allows_index a index then Err (Caller (NotPermitted index))
      else if \<not> ma_has_on a required index then Err (Caller (LacksOn required index))
      else Ok ())"

fun check_indexes :: "mcp_authz \<Rightarrow> mcp_capability \<Rightarrow> string list \<Rightarrow> (tool_error, unit) result" where
  "check_indexes a required [] = Ok ()"
| "check_indexes a required (i # is) = and_then (check_index a required i) (\<lambda>_. check_indexes a required is)"

section \<open>Calls\<close>

record tool_params =
  tp_name :: string
  tp_arguments :: json

definition run_search_index :: "decoders \<Rightarrow> mcp_backend \<Rightarrow> mcp_authz \<Rightarrow> mcp_capability \<Rightarrow> json \<Rightarrow> (tool_error, json) result" where
  "run_search_index de be a required arguments =
     and_then (decode_args (de_search_index de) ''search_index'' arguments) (\<lambda>args.
     and_then (check_window be (sa_bounds args)) (\<lambda>_.
     and_then (check_array be (sb_array (sa_bounds args))) (\<lambda>_.
     and_then (check_index a required (sa_index args)) (\<lambda>_.
     be_search_index be \<lparr>ir_index = sa_index args, ir_fields = sa_fields args, ir_sort = sa_sort args\<rparr> (sa_query args) (sa_bounds args)))))"

definition run_search_across :: "decoders \<Rightarrow> mcp_backend \<Rightarrow> mcp_authz \<Rightarrow> mcp_capability \<Rightarrow> json \<Rightarrow> (tool_error, json) result" where
  "run_search_across de be a required arguments =
     and_then (decode_args (de_search_across de) ''search_across_indexes'' arguments) (\<lambda>args.
     and_then (check_window be (xa_bounds args)) (\<lambda>_.
     and_then (check_array be (sb_array (xa_bounds args))) (\<lambda>_.
     and_then (check_index_list (xa_indexes args) (be_max_federated_indexes be)) (\<lambda>_.
     and_then (check_indexes a required (map ir_index (xa_indexes args))) (\<lambda>_.
     be_search_across be (xa_indexes args) (xa_query args) (xa_bounds args))))))"

definition run_describe_index :: "decoders \<Rightarrow> mcp_backend \<Rightarrow> mcp_authz \<Rightarrow> mcp_capability \<Rightarrow> json \<Rightarrow> (tool_error, json) result" where
  "run_describe_index de be a required arguments =
     and_then (decode_args (de_describe_index de) ''describe_index'' arguments) (\<lambda>index.
     and_then (check_index a required index) (\<lambda>_. be_describe_index be index))"

definition run_validate_query :: "decoders \<Rightarrow> mcp_backend \<Rightarrow> mcp_authz \<Rightarrow> mcp_capability \<Rightarrow> json \<Rightarrow> (tool_error, json) result" where
  "run_validate_query de be a required arguments =
     and_then (decode_args (de_validate_query de) ''validate_query'' arguments) (\<lambda>args.
     and_then (case va_index args of Some index \<Rightarrow> check_index a required index | None \<Rightarrow> Ok ()) (\<lambda>_.
     be_validate_query be (va_index args) (va_partial_field args) (va_query args)))"

definition call_tool :: "decoders \<Rightarrow> mcp_backend \<Rightarrow> tool_params \<Rightarrow> mcp_authz \<Rightarrow> (tool_error, json) result" where
  "call_tool de be p a =
     (case tool_capability (tp_name p) of
        None \<Rightarrow> Err (Caller (UnsupportedTool (tp_name p)))
      | Some required \<Rightarrow>
          if \<not> ma_has a required then Err (Caller (LacksCapability (tp_name p) required))
          else if tp_name p = ''search_index'' then run_search_index de be a required (tp_arguments p)
          else if tp_name p = ''search_across_indexes'' then run_search_across de be a required (tp_arguments p)
          else if tp_name p = ''describe_index'' then run_describe_index de be a required (tp_arguments p)
          else if tp_name p = ''list_indexes''
          then and_then (decode_args (de_list_indexes de) ''list_indexes'' (tp_arguments p)) (\<lambda>_. be_list_indexes be a)
          else if tp_name p = ''validate_query'' then run_validate_query de be a required (tp_arguments p)
          else if tp_name p = ''get_catalog_stats''
          then and_then (decode_args (de_catalog_stats de) ''get_catalog_stats'' (tp_arguments p)) (\<lambda>_. be_catalog_stats be a)
          else Err (Caller (UnsupportedTool (tp_name p))))"

definition visible_tools :: "mcp_authz \<Rightarrow> (string \<times> json) list \<Rightarrow> json list" where
  "visible_tools a tools =
     map snd (filter (\<lambda>(name, _). case tool_capability name of Some c \<Rightarrow> ma_has a c | None \<Rightarrow> False) tools)"

definition arg_get :: "json \<Rightarrow> string \<Rightarrow> json option" where
  "arg_get v k = (case v of JObject m \<Rightarrow> m_get m k | _ \<Rightarrow> None)"

definition entry_name :: "json \<Rightarrow> string option" where
  "entry_name e = (case e of JString n \<Rightarrow> Some n | _ \<Rightarrow> Option.bind (arg_get e ''index'') as_str)"

definition tool_subject :: "json \<Rightarrow> string option" where
  "tool_subject arguments =
     (case Option.bind (arg_get arguments ''index'') as_str of
        Some i \<Rightarrow> Some i
      | None \<Rightarrow>
          Option.bind (Option.bind (arg_get arguments ''indexes'') as_array) (\<lambda>entries.
          let names = List.map_filter entry_name entries in
          if names = [] then None else Some (str_join '','' names)))"

text \<open>The length is clamped to the host's bound, which is at least one, and read as 32 bits.\<close>

definition tool_cost :: "json \<Rightarrow> nat \<Rightarrow> nat" where
  "tool_cost arguments max_federated =
     (case Option.bind (arg_get arguments ''indexes'') as_array of
        None \<Rightarrow> 1
      | Some entries \<Rightarrow> min (max (length entries) 1) max_federated mod 2 ^ 32)"

section \<open>The envelope\<close>

record rpc_request =
  rq_id :: "json option"
  rq_method :: string
  rq_params :: json

definition id_json :: "json option \<Rightarrow> json" where
  "id_json i = (case i of Some v \<Rightarrow> v | None \<Rightarrow> JNull)"

definition success_response :: "json option \<Rightarrow> json \<Rightarrow> json" where
  "success_response i result = JObject [(''jsonrpc'', JString ''2.0''), (''id'', id_json i), (''result'', result)]"

definition error_response :: "json option \<Rightarrow> int \<Rightarrow> string \<Rightarrow> json" where
  "error_response i code message =
     JObject [(''jsonrpc'', JString ''2.0''), (''id'', id_json i),
              (''error'', JObject [(''code'', JNumber (NegInt code)), (''message'', JString message)])]"

text \<open>
  A payload is a request when its version is 2.0 and its method a text; an absent or null id makes it a
  notification. The text of a failed decoding is a parameter.
\<close>

definition parse_json_rpc_request :: "(json \<Rightarrow> string) \<Rightarrow> json \<Rightarrow> (json, rpc_request) result" where
  "parse_json_rpc_request why payload =
     (if Option.bind (arg_get payload ''jsonrpc'') as_str \<noteq> Some ''2.0''
      then Err (error_response (arg_get payload ''id'') (- 32600) (why payload))
      else case Option.bind (arg_get payload ''method'') as_str of
             None \<Rightarrow> Err (error_response (arg_get payload ''id'') (- 32600) (why payload))
           | Some method \<Rightarrow>
               Ok \<lparr>rq_id = (case arg_get payload ''id'' of Some JNull \<Rightarrow> None | i \<Rightarrow> i), rq_method = method,
                   rq_params = (case arg_get payload ''params'' of Some v \<Rightarrow> v | None \<Rightarrow> JNull)\<rparr>)"

definition SUPPORTED_PROTOCOL_VERSIONS :: "string list" where
  "SUPPORTED_PROTOCOL_VERSIONS = [''2025-06-18'', ''2025-03-26'', ''2024-11-05'']"

definition negotiate_protocol_version :: "string option \<Rightarrow> string" where
  "negotiate_protocol_version requested =
     (case requested of
        Some r \<Rightarrow> if r \<in> set SUPPORTED_PROTOCOL_VERSIONS then r else hd SUPPORTED_PROTOCOL_VERSIONS
      | None \<Rightarrow> hd SUPPORTED_PROTOCOL_VERSIONS)"

record mcp_texts =
  mt_instructions :: string
  mt_skill :: string
  mt_version :: string
  mt_tools :: "mcp_backend \<Rightarrow> (string \<times> json) list"
  mt_fault :: "tool_fault \<Rightarrow> string"
  mt_render :: "json \<Rightarrow> string"
  mt_bad_params :: "json \<Rightarrow> string"

definition detail :: "mcp_texts \<Rightarrow> tool_error \<Rightarrow> string" where
  "detail t e = (case e of Caller f \<Rightarrow> mt_fault t f | Internal s \<Rightarrow> s)"

definition response_text :: "mcp_texts \<Rightarrow> tool_error \<Rightarrow> string" where
  "response_text t e = (case e of Caller f \<Rightarrow> mt_fault t f | Internal _ \<Rightarrow> ''Internal server error'')"

definition tool_content :: "string \<Rightarrow> bool \<Rightarrow> json" where
  "tool_content text is_error =
     JObject [(''content'', JArray [JObject [(''type'', JString ''text''), (''text'', JString text)]]), (''isError'', JBool is_error)]"

record tool_record =
  tr_tool :: string
  tr_index :: "string option"
  tr_query :: "string option"
  tr_error :: "string option"

text \<open>The parameters of a call, as an object or as the list of its fields in order, which the derived decoder takes too.\<close>

fun decode_tool_params :: "json \<Rightarrow> tool_params option" where
  "decode_tool_params (JObject m) =
     (case Option.bind (m_get m ''name'') as_str of
        Some n \<Rightarrow> Some \<lparr>tp_name = n, tp_arguments = (case m_get m ''arguments'' of Some v \<Rightarrow> v | None \<Rightarrow> JNull)\<rparr>
      | None \<Rightarrow> None)"
| "decode_tool_params (JArray [JString n]) = Some \<lparr>tp_name = n, tp_arguments = JNull\<rparr>"
| "decode_tool_params (JArray [JString n, v]) = Some \<lparr>tp_name = n, tp_arguments = v\<rparr>"
| "decode_tool_params _ = None"

definition handle_tool_call ::
  "mcp_texts \<Rightarrow> decoders \<Rightarrow> mcp_backend \<Rightarrow> json option \<Rightarrow> json \<Rightarrow> mcp_authz \<Rightarrow> json \<times> tool_record list" where
  "handle_tool_call t de be i params a =
     (case decode_tool_params params of
        None \<Rightarrow> (error_response i (- 32602) (mt_bad_params t params), [])
      | Some p \<Rightarrow>
          let subject = tool_subject (tp_arguments p);
              cost = tool_cost (tp_arguments p) (be_max_federated_indexes be);
              query = Option.bind (arg_get (tp_arguments p) ''query'') as_str
          in case be_check_tool_rate be a (tp_name p) cost of
               Some retry_after \<Rightarrow>
                 (success_response i
                    (tool_content (''Rate limit exceeded for tool '' @ [CHR 0x27] @ tp_name p @ [CHR 0x27] @ ''. Retry after '' @ dec_digits retry_after @ ''s.'') True),
                  [\<lparr>tr_tool = tp_name p, tr_index = subject, tr_query = query, tr_error = Some ''rate limit exceeded''\<rparr>])
             | None \<Rightarrow>
                 let outcome = call_tool de be p a in
                 (case outcome of
                    Inr result \<Rightarrow> success_response i (tool_content (mt_render t result) False)
                  | Inl e \<Rightarrow> success_response i (tool_content (response_text t e) True),
                  [\<lparr>tr_tool = tp_name p, tr_index = subject, tr_query = query,
                    tr_error = (case outcome of Inl e \<Rightarrow> Some (detail t e) | Inr _ \<Rightarrow> None)\<rparr>]))"

text \<open>The answers to the other methods.\<close>

definition initialize_result :: "mcp_texts \<Rightarrow> json \<Rightarrow> json" where
  "initialize_result t params =
     JObject
       [(''protocolVersion'', JString (negotiate_protocol_version (Option.bind (arg_get params ''protocolVersion'') as_str))),
        (''capabilities'', JObject [(''tools'', JObject []), (''resources'', JObject []), (''prompts'', JObject [])]),
        (''serverInfo'', JObject [(''name'', JString ''cameodb-mcp''), (''version'', JString (mt_version t))]),
        (''instructions'', JString (mt_instructions t))]"

definition PROMPT_NAME :: string where "PROMPT_NAME = ''cameodb-orchestrator''"

definition PROMPT_DESCRIPTION :: string where
  "PROMPT_DESCRIPTION = ''Universal Data Retrieval & Orchestration Skill for CameoDB.''"

definition prompts_list :: json where
  "prompts_list =
     JObject [(''prompts'', JArray [JObject [(''name'', JString PROMPT_NAME), (''description'', JString PROMPT_DESCRIPTION), (''arguments'', JArray [])]])]"

definition prompts_get :: "mcp_texts \<Rightarrow> json option \<Rightarrow> json \<Rightarrow> json" where
  "prompts_get t i params =
     (let name = (case Option.bind (arg_get params ''name'') as_str of Some n \<Rightarrow> n | None \<Rightarrow> []) in
      if name = PROMPT_NAME
      then success_response i
             (JObject [(''description'', JString PROMPT_DESCRIPTION),
                       (''messages'', JArray [JObject [(''role'', JString ''user''),
                          (''content'', JObject [(''type'', JString ''text''), (''text'', JString (mt_skill t))])]])])
      else error_response i (- 32602) (''Unknown prompt: '' @ name))"

fun resource_uri :: "json \<Rightarrow> string option" where
  "resource_uri (JObject m) = Option.bind (m_get m ''uri'') as_str"
| "resource_uri (JArray [JString u]) = Some u"
| "resource_uri _ = None"

definition resources_read :: "mcp_texts \<Rightarrow> mcp_backend \<Rightarrow> json option \<Rightarrow> json \<Rightarrow> mcp_authz \<Rightarrow> json" where
  "resources_read t be i params a =
     (case resource_uri params of
        None \<Rightarrow> error_response i (- 32602) (mt_bad_params t params)
      | Some uri \<Rightarrow>
          (case be_read_resource be uri a of
             Inr content \<Rightarrow>
               success_response i
                 (JObject [(''contents'', JArray [JObject [(''uri'', JString uri), (''mimeType'', JString ''application/json''),
                                                           (''text'', JString (mt_render t content))]])])
           | Inl e \<Rightarrow> error_response i (- 32603) (response_text t e)))"

definition handle_rpc_request ::
  "mcp_texts \<Rightarrow> decoders \<Rightarrow> mcp_backend \<Rightarrow> rpc_request \<Rightarrow> mcp_authz \<Rightarrow> json option \<times> tool_record list" where
  "handle_rpc_request t de be r a =
     (let i = rq_id r; m = rq_method r in
      if i = None then (None, [])
      else if m = ''initialize'' then (Some (success_response i (initialize_result t (rq_params r))), [])
      else if m = ''ping'' then (Some (success_response i (JObject [])), [])
      else if m = ''resources/list''
      then (Some (case be_list_resources be a of
                    Inr v \<Rightarrow> success_response i (JObject [(''resources'', v)])
                  | Inl e \<Rightarrow> error_response i (- 32603) (response_text t e)), [])
      else if m = ''resources/read'' then (Some (resources_read t be i (rq_params r) a), [])
      else if m = ''prompts/list'' then (Some (success_response i prompts_list), [])
      else if m = ''prompts/get'' then (Some (prompts_get t i (rq_params r)), [])
      else if m = ''tools/list''
      then (Some (success_response i (JObject [(''tools'', JArray (visible_tools a (mt_tools t be)))])), [])
      else if m = ''tools/call''
      then (let (response, records) = handle_tool_call t de be i (rq_params r) a in (Some response, records))
      else (Some (error_response i (- 32601) (''Unsupported MCP method: '' @ m)), []))"

section \<open>What a call reaches\<close>

text \<open>
  Two hosts a caller cannot tell apart: they answer alike about the indexes the caller may read, and alike
  where they are told who is asking. On the indexes out of its reach they may hold anything.
\<close>

definition reachable_index :: "mcp_authz \<Rightarrow> string \<Rightarrow> bool" where
  "reachable_index a i \<longleftrightarrow> ma_allows_index a i \<and> ma_has_on a McpRead i"

definition same_limits :: "mcp_backend \<Rightarrow> mcp_backend \<Rightarrow> bool" where
  "same_limits b b' \<longleftrightarrow>
     be_max_search_limit b = be_max_search_limit b' \<and> be_max_federated_indexes b = be_max_federated_indexes b' \<and>
     be_default_search_limit b = be_default_search_limit b' \<and> be_max_array_limit b = be_max_array_limit b' \<and>
     be_default_array_limit b = be_default_array_limit b'"

definition same_view :: "mcp_authz \<Rightarrow> mcp_backend \<Rightarrow> mcp_backend \<Rightarrow> bool" where
  "same_view a b b' \<longleftrightarrow>
     same_limits b b' \<and> be_check_tool_rate b a = be_check_tool_rate b' a \<and>
     (\<forall>r q w. reachable_index a (ir_index r) \<longrightarrow> be_search_index b r q w = be_search_index b' r q w) \<and>
     (\<forall>rs q w. list_all (\<lambda>r. reachable_index a (ir_index r)) rs \<longrightarrow> be_search_across b rs q w = be_search_across b' rs q w) \<and>
     (\<forall>i. reachable_index a i \<longrightarrow> be_describe_index b i = be_describe_index b' i) \<and>
     (\<forall>i p q. reachable_index a i \<longrightarrow> be_validate_query b (Some i) p q = be_validate_query b' (Some i) p q) \<and>
     (\<forall>p q. be_validate_query b None p q = be_validate_query b' None p q) \<and>
     be_list_indexes b a = be_list_indexes b' a \<and> be_catalog_stats b a = be_catalog_stats b' a"

lemma and_then_cong: "r = r' \<Longrightarrow> (\<And>x. r' = Inr x \<Longrightarrow> f x = g x) \<Longrightarrow> and_then r f = and_then r' g"
  by (cases r') simp_all

lemma check_index_reachable: "check_index a McpRead i = Inr u \<Longrightarrow> reachable_index a i"
  by (auto simp: check_index_def reachable_index_def split: if_splits)

lemma check_indexes_reachable: "check_indexes a McpRead is = Inr u \<Longrightarrow> list_all (reachable_index a) is"
  by (induction a McpRead "is" rule: check_indexes.induct) (auto simp: and_then_Ok_iff dest: check_index_reachable)

lemma same_checks:
  assumes "same_limits b b'"
  shows "check_window b w = check_window b' w" "check_array b n = check_array b' n"
  using assms by (simp_all add: same_limits_def check_window_def check_array_def)

lemma call_tool_same_view:
  assumes "same_view a b b'"
  shows "call_tool de b p a = call_tool de b' p a"
proof -
  have lim: "same_limits b b'" using assms by (simp add: same_view_def)
  have fed: "be_max_federated_indexes b = be_max_federated_indexes b'" using lim by (simp add: same_limits_def)
  have "run_search_index de b a McpRead v = run_search_index de b' a McpRead v" for v
    using assms unfolding run_search_index_def same_checks [OF lim]
    by (intro and_then_cong refl) (auto simp: same_view_def dest!: check_index_reachable)
  moreover have "run_search_across de b a McpRead v = run_search_across de b' a McpRead v" for v
    using assms unfolding run_search_across_def same_checks [OF lim] fed
    by (intro and_then_cong refl) (auto simp: same_view_def list_all_iff dest!: check_indexes_reachable)
  moreover have "run_describe_index de b a McpRead v = run_describe_index de b' a McpRead v" for v
    using assms unfolding run_describe_index_def by (intro and_then_cong refl) (auto simp: same_view_def dest!: check_index_reachable)
  moreover have "run_validate_query de b a McpRead v = run_validate_query de b' a McpRead v" for v
    using assms unfolding run_validate_query_def
    by (intro and_then_cong refl) (auto simp: same_view_def split: option.splits dest!: check_index_reachable)
  ultimately show ?thesis
    using assms by (auto simp: call_tool_def tool_capability_def same_view_def)
qed

lemma handle_tool_call_same_view:
  assumes "same_view a b b'"
  shows "handle_tool_call t de b i params a = handle_tool_call t de b' i params a"
proof -
  have same: "be_max_federated_indexes b = be_max_federated_indexes b'" "be_check_tool_rate b a = be_check_tool_rate b' a"
    using assms by (simp_all add: same_view_def same_limits_def)
  show ?thesis unfolding handle_tool_call_def call_tool_same_view [OF assms] same ..
qed

lemma handle_tool_call_records:
  "length (snd (handle_tool_call t de b i params a)) = (if decode_tool_params params = None then 0 else 1)"
  by (simp add: handle_tool_call_def Let_def split: option.split)

section \<open>Properties\<close>

text \<open>
  C28: A tool call reveals nothing out of the caller's reach. If two hosts answer alike about every index the
  caller may read, and alike to the enumerating operations, which are told the caller, then a call has the
  same answer and leaves the same record on both, whatever the rest of their indexes hold; and every call
  that names a tool leaves exactly one record.
\<close>

theorem tool_call_stays_in_reach:
  assumes "same_view a b b'" "decode_tool_params params \<noteq> None"
  shows "handle_tool_call t de b i params a = handle_tool_call t de b' i params a \<and>
    length (snd (handle_tool_call t de b i params a)) = 1"
  using handle_tool_call_same_view [OF assms(1)] handle_tool_call_records assms(2) by metis

definition plain_host :: "json \<Rightarrow> mcp_backend" where
  "plain_host secret =
     \<lparr>be_search_index = (\<lambda>r q w. Ok (if ir_index r = ''docs'' then JNull else secret)),
      be_search_across = (\<lambda>rs q w. Ok (if list_all (\<lambda>r. ir_index r = ''docs'') rs then JNull else secret)),
      be_describe_index = (\<lambda>i. Ok (if i = ''docs'' then JNull else secret)), be_list_indexes = (\<lambda>a. Ok JNull),
      be_validate_query = (\<lambda>i p q. Ok (if i = None \<or> i = Some ''docs'' then JNull else secret)), be_catalog_stats = (\<lambda>a. Ok JNull),
      be_list_resources = (\<lambda>a. Ok JNull), be_read_resource = (\<lambda>u a. Ok JNull), be_max_search_limit = 100,
      be_max_federated_indexes = 20, be_default_search_limit = 10, be_max_array_limit = 100, be_default_array_limit = 10,
      be_check_tool_rate = (\<lambda>a t c. None)\<rparr>"

definition plain_scope :: mcp_authz where
  "plain_scope = \<lparr>ma_key_id = None, ma_allows_index = (\<lambda>i. i = ''docs''), ma_has = (\<lambda>c. c = McpRead), ma_has_on = (\<lambda>c i. c = McpRead)\<rparr>"

lemma plain_same_view: "same_view plain_scope (plain_host v) (plain_host w)"
proof -
  have "reachable_index plain_scope i \<longleftrightarrow> i = ''docs''" for i by (simp add: reachable_index_def plain_scope_def)
  then show ?thesis by (auto simp: same_view_def same_limits_def plain_host_def list_all_iff)
qed

definition plain_call :: json where
  "plain_call = JObject [(''name'', JString ''describe_index''), (''arguments'', JObject [(''index'', JString ''payroll'')])]"

definition plain_texts :: mcp_texts where
  "plain_texts =
     \<lparr>mt_instructions = [], mt_skill = [], mt_version = [], mt_tools = (\<lambda>_. []), mt_fault = (\<lambda>_. ''refused''),
      mt_render = (\<lambda>v. if v = JBool True then ''t'' else ''f''), mt_bad_params = (\<lambda>_. [])\<rparr>"

definition plain_decoders :: decoders where
  "plain_decoders =
     \<lparr>de_search_index = (\<lambda>_. Err []), de_search_across = (\<lambda>_. Err []),
      de_describe_index = (\<lambda>v. case Option.bind (arg_get v ''index'') as_str of Some i \<Rightarrow> Ok i | None \<Rightarrow> Err []),
      de_list_indexes = (\<lambda>_. Ok ()), de_validate_query = (\<lambda>_. Err []), de_catalog_stats = (\<lambda>_. Ok ())\<rparr>"

theorem tool_call_stays_in_reach_witness:
  "handle_tool_call plain_texts plain_decoders (plain_host (JBool True)) (Some JNull) plain_call plain_scope =
   handle_tool_call plain_texts plain_decoders (plain_host (JBool False)) (Some JNull) plain_call plain_scope"
proof -
  have "decode_tool_params plain_call \<noteq> None" by (simp add: plain_call_def m_get_def)
  from tool_call_stays_in_reach [OF plain_same_view this] show ?thesis by blast
qed

end
