(* ===== verification/Mcp_Session.thy ===== *)
theory Mcp_Session
  imports Mcp_Tools
begin

text \<open>
  The MCP transport (\<open>mcp/src/session.rs\<close>, \<open>transport.rs\<close>): the registry of sessions with its cap, its sweep
  and the key each session is bound to, the requests a session has in flight, and the handlers of both
  transports. Times are nanoseconds of a monotonic clock; session identifiers and cancellation tokens, which
  the code mints at random, are arguments. Each handler holds the registry's lock for each operation; they
  are modelled as run one after the other. The registry is a hash map: where its order would show, in the
  choice among equally idle sessions, the model takes the order of the identifiers.
\<close>

section \<open>Sessions\<close>

datatype push = NoPush | PushOpen | PushClosed

record mcp_session =
  ms_push :: push
  ms_listeners :: nat
  ms_last_activity :: nat
  ms_key_id :: "string option"
  ms_in_flight :: "(json \<times> nat) list"
  ms_max_in_flight :: nat

definition session_new :: "push \<Rightarrow> nat \<Rightarrow> string option \<Rightarrow> nat \<Rightarrow> mcp_session" where
  "session_new p now key_id max_in_flight =
     \<lparr>ms_push = p, ms_listeners = 0, ms_last_activity = now, ms_key_id = key_id, ms_in_flight = [], ms_max_in_flight = max_in_flight\<rparr>"

definition is_connected :: "mcp_session \<Rightarrow> bool" where
  "is_connected s = (0 < ms_listeners s \<or> ms_push s = PushOpen)"

definition owned_by :: "mcp_session \<Rightarrow> string option \<Rightarrow> bool" where
  "owned_by s key_id = (case ms_key_id s of None \<Rightarrow> True | Some owner \<Rightarrow> key_id = Some owner)"

definition forget_request :: "json \<Rightarrow> mcp_session \<Rightarrow> mcp_session" where
  "forget_request i s = s\<lparr>ms_in_flight := filter (\<lambda>(j, _). \<not> json_eq j i) (ms_in_flight s)\<rparr>"

text \<open>Inserting under an id that is present replaces its token.\<close>

definition start_request :: "json \<Rightarrow> nat \<Rightarrow> mcp_session \<Rightarrow> mcp_session option" where
  "start_request i token s =
     (if ms_max_in_flight s \<le> length (ms_in_flight s) then None
      else let s' = forget_request i s in Some (s'\<lparr>ms_in_flight := (i, token) # ms_in_flight s'\<rparr>))"

definition cancel_request :: "json \<Rightarrow> mcp_session \<Rightarrow> mcp_session \<times> nat option" where
  "cancel_request i s = (forget_request i s, map_option snd (find (\<lambda>(j, _). json_eq j i) (ms_in_flight s)))"

section \<open>The registry\<close>

record session_limits =
  sl_idle_timeout :: nat
  sl_max_sessions :: nat
  sl_max_in_flight :: nat

record transport =
  tr_limits :: session_limits
  tr_sessions :: "(string, mcp_session) omap"
  tr_tasks :: "(string \<times> nat \<times> json) list"
  tr_cancelled :: "nat list"

definition MIN_SWEEP_INTERVAL :: nat where "MIN_SWEEP_INTERVAL = 1000000000"
definition MAX_SWEEP_INTERVAL :: nat where "MAX_SWEEP_INTERVAL = 60000000000"

definition sweep_interval :: "session_limits \<Rightarrow> nat" where
  "sweep_interval l = min (max (sl_idle_timeout l div 10) MIN_SWEEP_INTERVAL) MAX_SWEEP_INTERVAL"

text \<open>A session that leaves the registry cancels what it still has in flight.\<close>

definition drop_sessions :: "(string \<Rightarrow> mcp_session \<Rightarrow> bool) \<Rightarrow> transport \<Rightarrow> transport" where
  "drop_sessions keep tr =
     tr\<lparr>tr_sessions := om_retain keep (tr_sessions tr),
        tr_cancelled := tr_cancelled tr @ concat (map (\<lambda>(i, s). if keep i s then [] else map snd (ms_in_flight s)) (tr_sessions tr))\<rparr>"

definition transport_shutdown :: "transport \<Rightarrow> transport" where
  "transport_shutdown tr = drop_sessions (\<lambda>_ _. False) tr"

definition sweep :: "nat \<Rightarrow> transport \<Rightarrow> transport" where
  "sweep now tr =
     drop_sessions (\<lambda>_ s. is_connected s \<or> now - ms_last_activity s < sl_idle_timeout (tr_limits tr)) tr"

fun idlest :: "(string \<times> mcp_session) list \<Rightarrow> (string \<times> mcp_session) option" where
  "idlest [] = None"
| "idlest ((i, s) # ss) =
     (case idlest ss of
        None \<Rightarrow> Some (i, s)
      | Some (j, r) \<Rightarrow> if ms_last_activity s \<le> ms_last_activity r then Some (i, s) else Some (j, r))"

definition evict_idlest_if_full :: "transport \<Rightarrow> transport" where
  "evict_idlest_if_full tr =
     (if length (tr_sessions tr) < sl_max_sessions (tr_limits tr) then tr
      else case idlest (tr_sessions tr) of
             None \<Rightarrow> tr
           | Some (i, _) \<Rightarrow> drop_sessions (\<lambda>j _. j \<noteq> i) tr)"

definition put_session :: "string \<Rightarrow> mcp_session \<Rightarrow> transport \<Rightarrow> transport" where
  "put_session i s tr = tr\<lparr>tr_sessions := om_insert i s (tr_sessions tr)\<rparr>"

definition create_session :: "push \<Rightarrow> string \<Rightarrow> nat \<Rightarrow> string option \<Rightarrow> transport \<Rightarrow> transport" where
  "create_session p i now key_id tr =
     put_session i (session_new p now key_id (sl_max_in_flight (tr_limits tr))) (evict_idlest_if_full tr)"

definition forget_session :: "string \<Rightarrow> transport \<Rightarrow> transport" where
  "forget_session i tr = drop_sessions (\<lambda>j _. j \<noteq> i) tr"

datatype session_access = Granted | Unknown | WrongKey

definition remove_session :: "string \<Rightarrow> string option \<Rightarrow> transport \<Rightarrow> transport \<times> session_access" where
  "remove_session i key_id tr =
     (case om_get (tr_sessions tr) i of
        None \<Rightarrow> (tr, Unknown)
      | Some s \<Rightarrow> if owned_by s key_id then (forget_session i tr, Granted) else (tr, WrongKey))"

definition claim_session :: "string \<Rightarrow> string option \<Rightarrow> nat \<Rightarrow> transport \<Rightarrow> transport \<times> session_access" where
  "claim_session i key_id now tr =
     (case om_get (tr_sessions tr) i of
        None \<Rightarrow> (tr, Unknown)
      | Some s \<Rightarrow>
          if owned_by s key_id then (put_session i (s\<lparr>ms_last_activity := now\<rparr>) tr, Granted) else (tr, WrongKey))"

definition open_listener :: "string \<Rightarrow> nat \<Rightarrow> transport \<Rightarrow> transport \<times> bool" where
  "open_listener i now tr =
     (case om_get (tr_sessions tr) i of
        None \<Rightarrow> (tr, False)
      | Some s \<Rightarrow> (put_session i (s\<lparr>ms_listeners := ms_listeners s + 1, ms_last_activity := now\<rparr>) tr, True))"

definition close_listener :: "string \<Rightarrow> nat \<Rightarrow> transport \<Rightarrow> transport" where
  "close_listener i now tr =
     (case om_get (tr_sessions tr) i of
        None \<Rightarrow> tr
      | Some s \<Rightarrow> put_session i (s\<lparr>ms_listeners := ms_listeners s - 1, ms_last_activity := now\<rparr>) tr)"

section \<open>Handlers\<close>

definition access_status :: "session_access \<Rightarrow> nat" where
  "access_status a = (case a of Granted \<Rightarrow> 200 | Unknown \<Rightarrow> 404 | WrongKey \<Rightarrow> 403)"

definition cancel_in :: "string \<Rightarrow> json \<Rightarrow> transport \<Rightarrow> transport" where
  "cancel_in sid i tr =
     (case om_get (tr_sessions tr) sid of
        None \<Rightarrow> tr
      | Some s \<Rightarrow>
          let (s', token) = cancel_request i s
          in (put_session sid s' tr)\<lparr>tr_cancelled := tr_cancelled tr @ (case token of Some k \<Rightarrow> [k] | None \<Rightarrow> [])\<rparr>)"

text \<open>
  \<open>process_mcp_message\<close>: the legacy transport answers at once and leaves the work to a task. A notification is
  a task nothing refers to; it does no work.
\<close>

definition legacy_request :: "string \<Rightarrow> nat \<Rightarrow> rpc_request \<Rightarrow> transport \<Rightarrow> transport \<times> nat" where
  "legacy_request sid token r tr =
     (if rq_method r = ''notifications/cancelled''
      then (case arg_get (rq_params r) ''requestId'' of Some i \<Rightarrow> cancel_in sid i tr | None \<Rightarrow> tr, 202)
      else case rq_id r of
             None \<Rightarrow> (tr, 202)
           | Some i \<Rightarrow>
               (case Option.bind (om_get (tr_sessions tr) sid) (start_request i token) of
                  None \<Rightarrow> (tr, 429)
                | Some s \<Rightarrow> ((put_session sid s tr)\<lparr>tr_tasks := (sid, token, i) # tr_tasks tr\<rparr>, 202)))"

definition process_mcp_message ::
  "(json \<Rightarrow> string) \<Rightarrow> nat \<Rightarrow> nat \<Rightarrow> string \<Rightarrow> mcp_authz \<Rightarrow> json \<Rightarrow> transport \<Rightarrow> transport \<times> nat" where
  "process_mcp_message why now token sid a payload tr =
     (case claim_session sid (ma_key_id a) now tr of
        (tr', Granted) \<Rightarrow>
          (case parse_json_rpc_request why payload of
             Inr r \<Rightarrow> legacy_request sid token r tr'
           | Inl _ \<Rightarrow> (tr', 202))
      | (tr', x) \<Rightarrow> (tr', access_status x))"

text \<open>A task that ends takes its id out of its session, if the session is still there.\<close>

definition finish_task :: "nat \<Rightarrow> transport \<Rightarrow> transport" where
  "finish_task token tr =
     (case find (\<lambda>(_, t, _). t = token) (tr_tasks tr) of
        None \<Rightarrow> tr
      | Some (sid, _, i) \<Rightarrow>
          let tr' = tr\<lparr>tr_tasks := filter (\<lambda>(_, t, _). t \<noteq> token) (tr_tasks tr)\<rparr>
          in case om_get (tr_sessions tr) sid of
               None \<Rightarrow> tr'
             | Some s \<Rightarrow> put_session sid (forget_request i s) tr')"

record streamable_answer =
  sw_status :: nat
  sw_session :: "string option"
  sw_body :: "json option"
  sw_records :: "tool_record list"

definition answer_status :: "nat \<Rightarrow> streamable_answer" where
  "answer_status n = \<lparr>sw_status = n, sw_session = None, sw_body = None, sw_records = []\<rparr>"

text \<open>The body of \<open>unknown_session_refusal\<close> and of \<open>session_refusal\<close>.\<close>

definition refusal_body :: "session_access \<Rightarrow> json option" where
  "refusal_body a =
     (case a of
        Granted \<Rightarrow> None
      | Unknown \<Rightarrow>
          Some (JObject [(''error'', JString ''Unknown MCP session''),
                         (''message'', JString (''this session is not known to the server; start a new one with '' @
                                                [CHR 0x60] @ ''initialize'' @ [CHR 0x60]))])
      | WrongKey \<Rightarrow>
          Some (JObject [(''error'', JString ''Forbidden''),
                         (''message'', JString ''this MCP session belongs to a different key'')]))"

definition streamable_request ::
  "mcp_texts \<Rightarrow> decoders \<Rightarrow> mcp_backend \<Rightarrow> nat \<Rightarrow> string \<Rightarrow> mcp_authz \<Rightarrow> string option \<Rightarrow> bool \<Rightarrow> rpc_request \<Rightarrow> transport \<Rightarrow>
   transport \<times> streamable_answer" where
  "streamable_request t de be now fresh a sid is_initialize r tr =
     (if rq_method r = ''notifications/cancelled''
      then (case (arg_get (rq_params r) ''requestId'', sid) of (Some i, Some s) \<Rightarrow> cancel_in s i tr | _ \<Rightarrow> tr, answer_status 202)
      else case handle_rpc_request t de be r a of
             (None, records) \<Rightarrow> (tr, (answer_status 202)\<lparr>sw_records := records\<rparr>)
           | (Some body, records) \<Rightarrow>
               if is_initialize
               then (create_session NoPush fresh now (ma_key_id a) tr,
                     \<lparr>sw_status = 200, sw_session = Some fresh, sw_body = Some body, sw_records = records\<rparr>)
               else (tr, \<lparr>sw_status = 200, sw_session = None, sw_body = Some body, sw_records = records\<rparr>))"

definition process_streamable_http ::
  "mcp_texts \<Rightarrow> decoders \<Rightarrow> mcp_backend \<Rightarrow> (json \<Rightarrow> string) \<Rightarrow> nat \<Rightarrow> string \<Rightarrow> mcp_authz \<Rightarrow> string option \<Rightarrow> string option \<Rightarrow>
   json \<Rightarrow> transport \<Rightarrow> transport \<times> streamable_answer" where
  "process_streamable_http t de be why now fresh a sid version payload tr =
     (let is_initialize = (Option.bind (arg_get payload ''method'') as_str = Some ''initialize'');
          (tr, access) = (case sid of Some i \<Rightarrow> claim_session i (ma_key_id a) now tr | None \<Rightarrow> (tr, Granted))
      in if access = WrongKey \<or> access = Unknown \<and> \<not> is_initialize
         then (tr, (answer_status (access_status access))\<lparr>sw_body := refusal_body access\<rparr>)
         else if (case version of Some v \<Rightarrow> v \<notin> set SUPPORTED_PROTOCOL_VERSIONS | None \<Rightarrow> False)
         then (tr, (answer_status 400)
                \<lparr>sw_body := map_option (\<lambda>v. error_response None (- 32600) (''Unsupported MCP-Protocol-Version: '' @ v)) version\<rparr>)
         else case parse_json_rpc_request why payload of
                Inl e \<Rightarrow> (tr, (answer_status 400)\<lparr>sw_body := Some (error_response None (- 32600) (''Invalid JSON-RPC request: '' @ mt_render t e))\<rparr>)
              | Inr r \<Rightarrow> streamable_request t de be now fresh a (if access = Granted then sid else None) is_initialize r tr)"

definition streamable_listen_handler :: "nat \<Rightarrow> mcp_authz \<Rightarrow> string option \<Rightarrow> transport \<Rightarrow> transport \<times> nat" where
  "streamable_listen_handler now a sid tr =
     (case sid of
        None \<Rightarrow> (tr, 400)
      | Some i \<Rightarrow>
          (case claim_session i (ma_key_id a) now tr of
             (tr', Granted) \<Rightarrow> (case open_listener i now tr' of (tr'', True) \<Rightarrow> (tr'', 200) | (tr'', False) \<Rightarrow> (tr'', 404))
           | (tr', x) \<Rightarrow> (tr', access_status x)))"

definition streamable_delete_handler :: "mcp_authz \<Rightarrow> string option \<Rightarrow> transport \<Rightarrow> transport \<times> nat" where
  "streamable_delete_handler a sid tr =
     (case sid of
        None \<Rightarrow> (tr, 400)
      | Some i \<Rightarrow> (case remove_session i (ma_key_id a) tr of (tr', x) \<Rightarrow> (tr', access_status x)))"

section \<open>Steps\<close>

text \<open>
  One step of the transport: a handler runs, a stream ends, the peer closes its push channel, a task ends, the
  sweeper runs or the server shuts down.
\<close>

inductive transport_step :: "transport \<Rightarrow> transport \<Rightarrow> bool" where
  sse: "transport_step tr (create_session PushOpen i now key_id tr)"
| message: "transport_step tr (fst (process_mcp_message why now token sid a payload tr))"
| streamable: "transport_step tr (fst (process_streamable_http t de be why now fresh a header version payload tr))"
| listen: "transport_step tr (fst (streamable_listen_handler now a header tr))"
| unlisten: "transport_step tr (close_listener i now tr)"
| delete: "transport_step tr (fst (streamable_delete_handler a header tr))"
| gone: "transport_step tr (forget_session i tr)"
| closed: "om_get (tr_sessions tr) i = Some s \<Longrightarrow> transport_step tr (put_session i (s\<lparr>ms_push := PushClosed\<rparr>) tr)"
| finish: "transport_step tr (finish_task token tr)"
| sweeper: "transport_step tr (sweep now tr)"
| shutdown: "transport_step tr (transport_shutdown tr)"

definition transport_new :: "session_limits \<Rightarrow> transport" where
  "transport_new l = \<lparr>tr_limits = l, tr_sessions = [], tr_tasks = [], tr_cancelled = []\<rparr>"

definition session_ok :: "session_limits \<Rightarrow> mcp_session \<Rightarrow> bool" where
  "session_ok l s \<longleftrightarrow> ms_max_in_flight s = sl_max_in_flight l \<and> length (ms_in_flight s) \<le> sl_max_in_flight l"

definition registry_ok :: "transport \<Rightarrow> bool" where
  "registry_ok tr \<longleftrightarrow>
     om_inv (tr_sessions tr) \<and> length (tr_sessions tr) \<le> max 1 (sl_max_sessions (tr_limits tr)) \<and>
     (\<forall>i s. om_get (tr_sessions tr) i = Some s \<longrightarrow> session_ok (tr_limits tr) s)"

lemma length_om_insert: "om_inv m \<Longrightarrow> length (om_insert k v m) = (if om_get m k = None then Suc (length m) else length m)"
proof (induction k v m rule: om_insert.induct)
  case (2 k v k' v' m)
  have "k < k' \<Longrightarrow> om_get m k = None" using 2(2) by (auto simp: om_inv_Cons om_get_None_iff)
  with 2 show ?case by (auto simp: om_inv_Cons)
qed simp

lemma length_om_retain: "length (om_retain p m) \<le> length m"
  by (simp add: om_retain_def)

lemma length_om_drop: "om_get m k = Some v \<Longrightarrow> length (om_retain (\<lambda>j _. j \<noteq> k) m) < length m"
proof -
  assume "om_get m k = Some v"
  then have "(k, v) \<in> set m" by (rule om_get_Some_in)
  then show ?thesis unfolding om_retain_def by (intro length_filter_less) auto
qed

lemma idlest_in: "idlest ss = Some (i, s) \<Longrightarrow> (i, s) \<in> set ss"
  by (induction ss arbitrary: i s rule: idlest.induct) (auto split: option.splits if_splits)

lemma idlest_None: "idlest ss = None \<longleftrightarrow> ss = []"
  by (cases ss rule: idlest.cases) (auto split: option.splits if_splits)

lemma idlest_least: "idlest ss = Some (i, s) \<Longrightarrow> (j, r) \<in> set ss \<Longrightarrow> ms_last_activity s \<le> ms_last_activity r"
  by (induction ss arbitrary: i s rule: idlest.induct) (force split: option.splits if_splits simp: idlest_None)+

lemma drop_ok: "registry_ok tr \<Longrightarrow> registry_ok (drop_sessions keep tr)"
  by (auto simp: registry_ok_def drop_sessions_def split: option.splits if_splits intro: order_trans [OF length_om_retain])

lemma drop_limits [simp]: "tr_limits (drop_sessions keep tr) = tr_limits tr" "tr_limits (put_session i s tr) = tr_limits tr"
  by (simp_all add: drop_sessions_def put_session_def)

lemma put_ok:
  assumes "registry_ok tr" "om_get (tr_sessions tr) i \<noteq> None" "session_ok (tr_limits tr) s"
  shows "registry_ok (put_session i s tr)"
  using assms by (auto simp: registry_ok_def put_session_def length_om_insert)

lemma evict_room:
  assumes "registry_ok tr"
  shows "registry_ok (evict_idlest_if_full tr)" "length (tr_sessions (evict_idlest_if_full tr)) < max 1 (sl_max_sessions (tr_limits tr))"
    "tr_limits (evict_idlest_if_full tr) = tr_limits tr"
proof -
  have "registry_ok (evict_idlest_if_full tr) \<and> length (tr_sessions (evict_idlest_if_full tr)) < max 1 (sl_max_sessions (tr_limits tr)) \<and>
    tr_limits (evict_idlest_if_full tr) = tr_limits tr"
  proof (cases "idlest (tr_sessions tr)")
    case None
    with assms show ?thesis by (auto simp: evict_idlest_if_full_def idlest_None)
  next
    case (Some e)
    obtain i s where e: "e = (i, s)" by (cases e)
    have "om_get (tr_sessions tr) i = Some s"
      using idlest_in [OF Some [unfolded e]] assms by (simp add: registry_ok_def om_get_iff)
    from length_om_drop [OF this] Some e assms drop_ok [OF assms] show ?thesis
      by (auto simp: evict_idlest_if_full_def drop_sessions_def registry_ok_def)
  qed
  then show "registry_ok (evict_idlest_if_full tr)" "length (tr_sessions (evict_idlest_if_full tr)) < max 1 (sl_max_sessions (tr_limits tr))"
    "tr_limits (evict_idlest_if_full tr) = tr_limits tr" by simp_all
qed

lemma create_ok: "registry_ok tr \<Longrightarrow> registry_ok (create_session p i now key_id tr)"
  using evict_room [of tr]
  by (auto simp: create_session_def put_session_def registry_ok_def length_om_insert session_ok_def session_new_def)

lemma forget_request_ok: "session_ok l s \<Longrightarrow> session_ok l (forget_request i s)"
  by (auto simp: session_ok_def forget_request_def intro: order_trans [OF length_filter_le])

lemma start_request_ok: "session_ok l s \<Longrightarrow> start_request i token s = Some s' \<Longrightarrow> session_ok l s'"
  by (auto simp: session_ok_def start_request_def forget_request_def Let_def split: if_splits
      intro!: Suc_leI le_less_trans [OF length_filter_le])

lemma session_ok_fields [simp]:
  "session_ok l (s\<lparr>ms_last_activity := n\<rparr>) = session_ok l s" "session_ok l (s\<lparr>ms_listeners := n\<rparr>) = session_ok l s"
  "session_ok l (s\<lparr>ms_push := p\<rparr>) = session_ok l s"
  by (simp_all add: session_ok_def)

lemma get_ok: "registry_ok tr \<Longrightarrow> om_get (tr_sessions tr) i = Some s \<Longrightarrow> session_ok (tr_limits tr) s"
  by (simp add: registry_ok_def)

lemma tasks_ok [simp]: "registry_ok (tr\<lparr>tr_tasks := x\<rparr>) = registry_ok tr" "registry_ok (tr\<lparr>tr_cancelled := y\<rparr>) = registry_ok tr"
  by (simp_all add: registry_ok_def)

lemma claim_ok: "registry_ok tr \<Longrightarrow> registry_ok (fst (claim_session i key_id now tr))"
  by (auto simp: claim_session_def get_ok intro!: put_ok split: option.splits)

lemma remove_ok: "registry_ok tr \<Longrightarrow> registry_ok (fst (remove_session i key_id tr))"
  by (auto simp: remove_session_def forget_session_def drop_ok split: option.splits)

lemma cancel_ok: "registry_ok tr \<Longrightarrow> registry_ok (cancel_in sid i tr)"
  by (auto simp: cancel_in_def cancel_request_def get_ok intro!: put_ok forget_request_ok split: option.splits)

lemma legacy_ok:
  assumes "registry_ok tr"
  shows "registry_ok (fst (legacy_request sid token r tr))"
proof -
  have "registry_ok (put_session sid s' tr)" if "om_get (tr_sessions tr) sid = Some s" "start_request i token s = Some s'" for i s s'
    using that start_request_ok [OF get_ok [OF assms that(1)] that(2)] by (intro put_ok) (simp_all add: assms)
  then show ?thesis using cancel_ok [OF assms] assms
    by (auto simp: legacy_request_def split: option.splits bind_splits)
qed

lemma streamable_ok: "registry_ok tr \<Longrightarrow> registry_ok (fst (streamable_request t de be now fresh a sid init r tr))"
  by (auto simp: streamable_request_def create_ok cancel_ok split: option.splits prod.splits)

lemma step_ok: "transport_step tr tr' \<Longrightarrow> registry_ok tr \<Longrightarrow> registry_ok tr'"
proof (induction rule: transport_step.induct)
  case (message tr why now token sid a payload)
  then show ?case using claim_ok [of tr sid "ma_key_id a" now]
    by (auto simp: process_mcp_message_def legacy_ok split: prod.splits session_access.splits sum.splits)
next
  case (streamable tr t de be why now fresh a header version payload)
  let ?c = "case header of Some i \<Rightarrow> claim_session i (ma_key_id a) now tr | None \<Rightarrow> (tr, Granted)"
  have "registry_ok (fst ?c)" using streamable by (simp add: claim_ok split: option.split)
  then show ?case
    by (cases ?c) (auto simp: process_streamable_http_def Let_def streamable_ok split: sum.splits)
next
  case (listen tr now a header)
  have "registry_ok (fst (open_listener i now tr'))" if "registry_ok tr'" for i tr'
    using that by (auto simp: open_listener_def get_ok intro!: put_ok split: option.splits)
  then have opened: "registry_ok tr''" if "open_listener i now tr' = (tr'', b)" "registry_ok tr'" for i tr' tr'' b
    using that by (metis fst_conv)
  have claimed: "registry_ok tr'" if "claim_session i (ma_key_id a) now tr = (tr', x)" for i tr' x
    using claim_ok [OF listen, of i "ma_key_id a" now] that by simp
  show ?case using listen
    by (auto simp: streamable_listen_handler_def split: option.splits prod.splits session_access.splits bool.splits
        intro: claimed opened)
next
  case (finish tr token)
  then show ?case
    by (auto simp: finish_task_def Let_def get_ok intro!: put_ok forget_request_ok split: option.splits)
qed (auto simp: create_ok forget_session_def drop_ok sweep_def transport_shutdown_def get_ok remove_ok close_listener_def
      streamable_delete_handler_def split_beta intro!: put_ok split: option.splits)

lemma limits_ops [simp]:
  "tr_limits (create_session p i now key_id tr) = tr_limits tr" "tr_limits (fst (claim_session i key_id now tr)) = tr_limits tr"
  "tr_limits (fst (remove_session i key_id tr)) = tr_limits tr" "tr_limits (fst (open_listener i now tr)) = tr_limits tr"
  "tr_limits (cancel_in sid j tr) = tr_limits tr"
  by (auto simp: create_session_def evict_idlest_if_full_def claim_session_def remove_session_def forget_session_def open_listener_def
      cancel_in_def split: option.splits prod.splits)

lemma limits_requests [simp]:
  "tr_limits (fst (legacy_request sid token r tr)) = tr_limits tr"
  "tr_limits (fst (streamable_request t de be now fresh a header init r tr)) = tr_limits tr"
  by (auto simp: legacy_request_def streamable_request_def split: option.splits prod.splits)

lemma step_limits: "transport_step tr tr' \<Longrightarrow> tr_limits tr' = tr_limits tr"
proof (induction rule: transport_step.induct)
  case (message tr why now token sid a payload)
  obtain tr' x where c: "claim_session sid (ma_key_id a) now tr = (tr', x)" by (rule prod.exhaust)
  with limits_ops(2) [of sid "ma_key_id a" now tr] have "tr_limits tr' = tr_limits tr" by simp
  then show ?case by (cases x) (simp_all add: process_mcp_message_def c split: sum.split)
next
  case (streamable tr t de be why now fresh a header version payload)
  let ?c = "case header of Some i \<Rightarrow> claim_session i (ma_key_id a) now tr | None \<Rightarrow> (tr, Granted)"
  obtain tr' x where c: "?c = (tr', x)" by (rule prod.exhaust)
  moreover have "tr_limits (fst ?c) = tr_limits tr" by (simp split: option.split)
  ultimately have "tr_limits tr' = tr_limits tr" by simp
  then show ?case by (simp add: process_streamable_http_def Let_def c split: sum.split)
next
  case (listen tr now a header)
  show ?case
  proof (cases header)
    case (Some i)
    obtain tr' x where c: "claim_session i (ma_key_id a) now tr = (tr', x)" by (rule prod.exhaust)
    obtain tr'' b where d: "open_listener i now tr' = (tr'', b)" by (rule prod.exhaust)
    from c limits_ops(2) [of i "ma_key_id a" now tr] have "tr_limits tr' = tr_limits tr" by simp
    moreover from d limits_ops(4) [of i now tr'] have "tr_limits tr'' = tr_limits tr'" by simp
    ultimately show ?thesis by (cases x; cases b) (simp_all add: streamable_listen_handler_def Some c d)
  qed (simp add: streamable_listen_handler_def)
qed (simp_all add: close_listener_def streamable_delete_handler_def forget_session_def finish_task_def sweep_def transport_shutdown_def
      split_beta Let_def split: option.split)

section \<open>Properties\<close>

text \<open>
  C29: The registry stays within its bounds. Whatever the handlers, the streams, the tasks and the sweeper do,
  and in whatever order, the registry holds no more sessions than its cap, or one where the cap is nought,
  and no session registers more requests than its bound.
\<close>

theorem registry_stays_bounded:
  assumes "transport_step\<^sup>*\<^sup>* (transport_new l) tr"
  shows "length (tr_sessions tr) \<le> max 1 (sl_max_sessions l) \<and>
    list_all (\<lambda>(i, s). length (ms_in_flight s) \<le> sl_max_in_flight l) (tr_sessions tr)"
proof -
  have limits: "tr_limits tr' = tr_limits tr" if "transport_step tr tr'" for tr tr'
    using that by (rule step_limits)
  from assms have "registry_ok tr \<and> tr_limits tr = l"
  proof (induction rule: rtranclp_induct)
    case base
    show ?case by (simp add: transport_new_def registry_ok_def)
  next
    case (step tr tr')
    with step_ok [OF step(2)] limits [OF step(2)] show ?case by simp
  qed
  then show ?thesis by (auto simp: registry_ok_def session_ok_def list_all_iff om_get_iff)
qed

text \<open>The transport after the same message has been posted \<open>n\<close> times, the \<open>k\<close>th with token \<open>k\<close>.\<close>

definition post_again :: "(json \<Rightarrow> string) \<Rightarrow> nat \<Rightarrow> string \<Rightarrow> mcp_authz \<Rightarrow> json \<Rightarrow> nat \<Rightarrow> transport \<Rightarrow> transport" where
  "post_again why now sid a payload n tr = fold (\<lambda>k tr. fst (process_mcp_message why now k sid a payload tr)) [0..<n] tr"

lemma post_once:
  assumes "om_get (tr_sessions tr) sid = Some s" "owned_by s (ma_key_id a)" "om_inv (tr_sessions tr)"
    "parse_json_rpc_request why payload = Inr r" "rq_id r = Some i" "rq_method r \<noteq> ''notifications/cancelled''"
    "length (ms_in_flight s) < ms_max_in_flight s"
  shows "process_mcp_message why now k sid a payload tr =
    (tr\<lparr>tr_sessions := om_insert sid (s\<lparr>ms_last_activity := now, ms_in_flight := (i, k) # ms_in_flight (forget_request i s)\<rparr>)
          (om_insert sid (s\<lparr>ms_last_activity := now\<rparr>) (tr_sessions tr)),
        tr_tasks := (sid, k, i) # tr_tasks tr\<rparr>, 202)"
  using assms
  by (simp add: process_mcp_message_def claim_session_def legacy_request_def start_request_def put_session_def forget_request_def Let_def)


definition plain_limits :: session_limits where
  "plain_limits = \<lparr>sl_idle_timeout = 100, sl_max_sessions = 1, sl_max_in_flight = 2\<rparr>"

definition plain_transport :: transport where
  "plain_transport = create_session PushOpen ''s'' 0 None (create_session PushOpen ''q'' 0 None (transport_new plain_limits))"

definition plain_ping :: json where
  "plain_ping = JObject [(''jsonrpc'', JString ''2.0''), (''id'', JNumber (PosInt 1)), (''method'', JString ''ping'')]"

theorem registry_stays_bounded_witness:
  "length (tr_sessions (create_session PushOpen ''r'' 5 None plain_transport)) \<le> 1"
proof -
  have "transport_step\<^sup>*\<^sup>* (transport_new plain_limits) (create_session PushOpen ''r'' 5 None plain_transport)"
    unfolding plain_transport_def
    by (rule rtranclp.rtrancl_into_rtrancl, rule rtranclp.rtrancl_into_rtrancl, rule rtranclp.rtrancl_into_rtrancl,
        rule rtranclp.rtrancl_refl) (rule sse)+
  from registry_stays_bounded [OF this] show ?thesis by (simp add: plain_limits_def)
qed


end
