(* ===== verification/Query_Text.thy ===== *)
theory Query_Text
  imports Field_Type "HOL-Library.Code_Target_Numeral"
begin

text \<open>
  The two passes of \<open>storage/query.rs\<close> that read a query's text before Tantivy parses it: the count of
  its nesting, which guards the parser's stack, and the rewrite of its \<open>NOT\<close> clauses. Both walk the
  bytes of the query with an index, as here. The index loop of the rewrite and the scan of a negated leaf
  are partial functions, since nothing in their text says that they end; that they do is proved.

  A slice of the query whose start lies behind its end panics. Every end of a slice the rewrite takes
  is an end of the query or lies beside an ASCII byte, so it never falls inside a character.
\<close>

section \<open>Bytes\<close>

definition is_ascii_whitespace :: "char \<Rightarrow> bool" where
  "is_ascii_whitespace c = (c \<in> set [CHR '' '', CHR 0x09, CHR 0x0A, CHR 0x0C, CHR 0x0D])"

definition skip_whitespace :: "string \<Rightarrow> nat \<Rightarrow> nat" where
  "skip_whitespace bytes p = p + length (takeWhile is_ascii_whitespace (drop p bytes))"

fun back_while :: "(char \<Rightarrow> bool) \<Rightarrow> string \<Rightarrow> nat \<Rightarrow> nat" where
  "back_while P bytes 0 = 0"
| "back_while P bytes (Suc e) = (if P (bytes ! e) then back_while P bytes e else Suc e)"

text \<open>\<open>NOT\<close> with whitespace behind it: the keyword, where it stands at the boundary of a leaf.\<close>

definition keyword_at :: "string \<Rightarrow> nat \<Rightarrow> bool" where
  "keyword_at bytes i =
     (starts_with (drop i bytes) ''NOT'' \<and> i + 3 < length bytes \<and> is_ascii_whitespace (bytes ! (i + 3)))"

datatype slice_panic = SliceOrder nat nat | SliceEnd nat | Underflow

definition query_slice :: "string \<Rightarrow> nat \<Rightarrow> nat \<Rightarrow> (slice_panic, string) result" where
  "query_slice query a b =
     (if b < a then Err (SliceOrder a b)
      else if length query < b then Err (SliceEnd b)
      else Ok (take (b - a) (drop a query)))"

section \<open>The context of a NOT\<close>

datatype not_context = Bare | And | Or | AfterLeaf

definition sign_is_occur :: "string \<Rightarrow> nat \<Rightarrow> bool" where
  "sign_is_occur bytes sign =
     (sign = 0 \<or> is_ascii_whitespace (bytes ! (sign - 1)) \<or> bytes ! (sign - 1) \<in> set ''()'')"

definition context_before :: "string \<Rightarrow> nat \<Rightarrow> not_context" where
  "context_before bytes not_pos =
     (let end = back_while is_ascii_whitespace bytes not_pos in
      if end = 0 then Bare
      else if bytes ! (end - 1) = CHR ''('' then Bare
      else if bytes ! (end - 1) \<in> set ''+-'' then if sign_is_occur bytes (end - 1) then Bare else AfterLeaf
      else if bytes ! (end - 1) = CHR '')'' then AfterLeaf
      else
        let start = back_while (\<lambda>c. \<not> is_ascii_whitespace c \<and> c \<notin> set ''()'') bytes end;
            word = take (end - start) (drop start bytes)
        in if word = ''AND'' then And else if word = ''OR'' then Or else AfterLeaf)"

definition not_context_at :: "string \<Rightarrow> nat \<Rightarrow> not_context option" where
  "not_context_at bytes not_pos =
     (if 0 < not_pos \<and> \<not> is_ascii_whitespace (bytes ! (not_pos - 1)) \<and> bytes ! (not_pos - 1) \<noteq> CHR ''(''
      then if bytes ! (not_pos - 1) \<in> set ''+-'' \<and> sign_is_occur bytes (not_pos - 1) then Some Bare else None
      else Some (context_before bytes not_pos))"

section \<open>The leaf a NOT negates\<close>

text \<open>
  Brackets pair by nesting alone; an unclosed one pairs with the length of the query. \<open>open\<close> holds the
  indices into \<open>pairs\<close> of the brackets still open, the innermost first.
\<close>

function bracket_loop ::
  "string \<Rightarrow> nat \<Rightarrow> bool \<Rightarrow> nat list \<Rightarrow> (nat \<times> nat) list \<Rightarrow> (nat \<times> nat) list" where
  "bracket_loop bytes i in_quote open pairs =
     (if i < length bytes then
        let c = bytes ! i in
        if c = CHR 0x5C then bracket_loop bytes (i + 2) in_quote open pairs
        else if in_quote then bracket_loop bytes (i + 1) (c \<noteq> CHR 0x22) open pairs
        else if c = CHR 0x22 then bracket_loop bytes (i + 1) True open pairs
        else if c \<in> set ''([{'' then
          bracket_loop bytes (i + 1) False (length pairs # open) (pairs @ [(i, length bytes)])
        else if c \<in> set '')]}'' then
          (case open of
             [] \<Rightarrow> bracket_loop bytes (i + 1) False [] pairs
           | k # rest \<Rightarrow> bracket_loop bytes (i + 1) False rest (pairs[k := (fst (pairs ! k), i)]))
        else bracket_loop bytes (i + 1) False open pairs
      else pairs)"
  by pat_completeness auto
termination
  by (relation "measure (\<lambda>(bytes, i, _). length bytes - i)") auto

declare bracket_loop.simps [simp del]

definition bracket_pairs :: "string \<Rightarrow> (nat \<times> nat) list" where
  "bracket_pairs bytes = bracket_loop bytes 0 False [] []"

text \<open>
  The scan of a leaf, and where it stopped: at the \<open>)\<close> that closes a group around it, or at whitespace
  or the end. The binary search of the pairs by opening offset is a lookup.
\<close>

datatype leaf_stop = AtParen nat | Broke nat

partial_function (option) leaf_scan ::
  "string \<Rightarrow> (nat \<times> nat) list \<Rightarrow> nat \<Rightarrow> bool \<Rightarrow> leaf_stop option" where
  [code]: "leaf_scan bytes pairs i in_quote =
     (if i < length bytes then
        let c = bytes ! i in
        if c = CHR 0x5C then leaf_scan bytes pairs (i + 2) in_quote
        else if in_quote then leaf_scan bytes pairs (i + 1) (c \<noteq> CHR 0x22)
        else if c = CHR 0x22 then leaf_scan bytes pairs (i + 1) True
        else if c \<in> set ''([{'' then
          leaf_scan bytes pairs (case map_of pairs i of Some close \<Rightarrow> close + 1 | None \<Rightarrow> length bytes + 1) False
        else if c = CHR '')'' then Some (AtParen i)
        else if is_ascii_whitespace c then Some (Broke i)
        else leaf_scan bytes pairs (i + 1) False
      else Some (Broke (min i (length bytes))))"

function set_end :: "string \<Rightarrow> nat \<Rightarrow> bool \<Rightarrow> nat" where
  "set_end bytes q set_quote =
     (if q < length bytes then
        if bytes ! q = CHR 0x5C then set_end bytes (q + 2) set_quote
        else if bytes ! q = CHR 0x22 then set_end bytes (q + 1) (\<not> set_quote)
        else if bytes ! q = CHR '']'' \<and> \<not> set_quote then q + 1
        else set_end bytes (q + 1) set_quote
      else length bytes)"
  by pat_completeness auto
termination
  by (relation "measure (\<lambda>(bytes, q, _). length bytes - q)") auto

declare set_end.simps [simp del]

text \<open>The set of \<open>field: IN [a b]\<close>, which sits behind the whitespace after the colon.\<close>

definition past_in_set :: "string \<Rightarrow> nat \<Rightarrow> nat \<Rightarrow> nat" where
  "past_in_set bytes start i =
     (if start < i \<and> bytes ! (i - 1) = CHR '':'' then
        let p = skip_whitespace bytes i in
        if starts_with (drop p bytes) ''IN'' then
          let q = skip_whitespace bytes (p + 2) in
          if q < length bytes \<and> bytes ! q = CHR ''['' then set_end bytes q False else i
        else i
      else i)"

definition not_leaf_end :: "string \<Rightarrow> nat \<Rightarrow> (nat \<times> nat) list \<Rightarrow> nat option" where
  "not_leaf_end bytes start pairs =
     map_option (\<lambda>r. case r of AtParen i \<Rightarrow> i | Broke i \<Rightarrow> past_in_set bytes start i)
       (leaf_scan bytes pairs start False)"

section \<open>The rewrite of NOT clauses\<close>

record not_scan =
  sc_out :: string
  sc_copied :: nat
  sc_i :: nat
  sc_in_quote :: bool
  sc_value_depth :: nat
  sc_groups :: "bool list"
  sc_field_groups :: nat
  sc_closes :: "nat list"

definition not_start :: not_scan where
  "not_start =
     \<lparr>sc_out = '''', sc_copied = 0, sc_i = 0, sc_in_quote = False, sc_value_depth = 0, sc_groups = [],
      sc_field_groups = 0, sc_closes = []\<rparr>"

definition at_i :: "nat \<Rightarrow> not_scan \<Rightarrow> not_scan" where
  "at_i j s = s\<lparr>sc_i := j\<rparr>"

text \<open>The \<open>)\<close> of every open \<open>(* -\<close> rewrite whose leaf ends at or before \<open>here\<close>.\<close>

fun flush_closes :: "string \<Rightarrow> nat \<Rightarrow> string \<Rightarrow> nat \<Rightarrow> nat list \<Rightarrow> (slice_panic, string \<times> nat \<times> nat list) result" where
  "flush_closes query here out copied [] = Ok (out, copied, [])"
| "flush_closes query here out copied (end # rest) =
     (if end \<le> here
      then and_then (query_slice query copied end) (\<lambda>t. flush_closes query here (out @ t @ '')'') end rest)
      else Ok (out, copied, end # rest))"

text \<open>The loop at the end drains them all.\<close>

fun drain_closes :: "string \<Rightarrow> string \<Rightarrow> nat \<Rightarrow> nat list \<Rightarrow> (slice_panic, string \<times> nat) result" where
  "drain_closes query out copied [] = Ok (out, copied)"
| "drain_closes query out copied (end # rest) =
     and_then (query_slice query copied end) (\<lambda>t. drain_closes query (out @ t @ '')'') end rest)"

text \<open>A run of \<open>NOT\<close>s from the leaf position \<open>p\<close>: where the leaf starts, and how many there were.\<close>

function not_run :: "string \<Rightarrow> nat \<Rightarrow> nat \<Rightarrow> nat \<times> nat" where
  "not_run bytes p nots =
     (if keyword_at bytes p then not_run bytes (skip_whitespace bytes (p + 3)) (nots + 1) else (p, nots))"
  by pat_completeness auto
termination
  by (relation "measure (\<lambda>(bytes, p, _). length bytes - p)") (auto simp: keyword_at_def skip_whitespace_def)

declare not_run.simps [simp del]

definition leaf_refused :: "string \<Rightarrow> bool" where
  "leaf_refused leaf =
     (leaf = [] \<or> leaf \<in> set [''AND'', ''OR'', ''NOT'', ''IN''] \<or> hd leaf \<in> set ''+-'')"

text \<open>What an operator \<open>NOT\<close> at \<open>sc_i\<close> is replaced by, and where its leaf is scanned on.\<close>

definition splice_not :: "string \<Rightarrow> not_context \<Rightarrow> nat \<Rightarrow> nat \<Rightarrow> nat \<Rightarrow> not_scan \<Rightarrow> (slice_panic, not_scan) result" where
  "splice_not query ctx p nots leaf_end s =
     and_then (query_slice query (sc_copied s) (sc_i s)) (\<lambda>t.
       let s1 = s\<lparr>sc_out := sc_out s @ t @
                    (if even nots then if ctx = AfterLeaf then ''AND '' else ''''
                     else if ctx \<in> {And, AfterLeaf} then ''-'' else ''(* -''),
                  sc_closes := (if odd nots \<and> ctx \<in> {Bare, Or} then leaf_end # sc_closes s else sc_closes s)\<rparr>
       in Ok (s1\<lparr>sc_copied := p, sc_i := p\<rparr>))"

definition step_not :: "string \<Rightarrow> not_scan \<Rightarrow> (slice_panic, not_scan) result option" where
  "step_not query s =
     (case not_context_at query (sc_i s) of
        None \<Rightarrow> Some (Ok (at_i (sc_i s + 1) s))
      | Some ctx \<Rightarrow>
          (case not_run query (skip_whitespace query (sc_i s + 3)) 1 of
             (p, nots) \<Rightarrow>
               map_option
                 (\<lambda>leaf_end. and_then (query_slice query p leaf_end) (\<lambda>leaf.
                    if leaf_refused leaf then Ok (at_i p s)
                    else if \<not> (ctx \<in> {Bare, Or} \<and> 0 < sc_field_groups s \<and> odd nots)
                    then splice_not query ctx p nots leaf_end s
                    else Ok (at_i (sc_i s + 1) s)))
                 (not_leaf_end query p (bracket_pairs query))))"

definition close_group :: "not_scan \<Rightarrow> (slice_panic, not_scan) result" where
  "close_group s =
     (case sc_groups s of
        [] \<Rightarrow> Ok s
      | field_group # rest \<Rightarrow>
          if field_group then
            if sc_field_groups s = 0 then Err Underflow
            else Ok (s\<lparr>sc_groups := rest, sc_field_groups := sc_field_groups s - 1\<rparr>)
          else Ok (s\<lparr>sc_groups := rest\<rparr>))"

definition open_group :: "string \<Rightarrow> not_scan \<Rightarrow> not_scan" where
  "open_group bytes s =
     (let field_group = (0 < sc_i s \<and> bytes ! (sc_i s - 1) = CHR '':'') in
      s\<lparr>sc_groups := field_group # sc_groups s, sc_field_groups := sc_field_groups s + (if field_group then 1 else 0)\<rparr>)"

text \<open>The body of the loop on the byte at \<open>sc_i\<close>, after the rewrites that end here are closed.\<close>

definition step_byte :: "string \<Rightarrow> not_scan \<Rightarrow> (slice_panic, not_scan) result option" where
  "step_byte query s =
     (let i = sc_i s; c = query ! i; s' = at_i (i + 1) s in
      if c = CHR 0x5C then Some (Ok (at_i (i + 2) s))
      else if sc_in_quote s then Some (Ok (s'\<lparr>sc_in_quote := c \<noteq> CHR 0x22\<rparr>))
      else if c = CHR 0x22 then Some (Ok (s'\<lparr>sc_in_quote := True\<rparr>))
      else if c \<in> set ''[{'' then Some (Ok (s'\<lparr>sc_value_depth := sc_value_depth s + 1\<rparr>))
      else if c \<in> set '']}'' then Some (Ok (s'\<lparr>sc_value_depth := sc_value_depth s - 1\<rparr>))
      else if c = CHR ''('' \<and> sc_value_depth s = 0 then Some (Ok (at_i (i + 1) (open_group query s)))
      else if c = CHR '')'' \<and> sc_value_depth s = 0 then Some (and_then (close_group s) (\<lambda>s. Ok (at_i (i + 1) s)))
      else if sc_value_depth s = 0 \<and> keyword_at query i then step_not query s
      else Some (Ok s'))"

definition not_step :: "string \<Rightarrow> not_scan \<Rightarrow> (slice_panic, not_scan) result option" where
  "not_step query s =
     (case flush_closes query (sc_i s) (sc_out s) (sc_copied s) (sc_closes s) of
        Inl e \<Rightarrow> Some (Err e)
      | Inr (out, copied, closes) \<Rightarrow>
          step_byte query (s\<lparr>sc_out := out, sc_copied := copied, sc_closes := closes\<rparr>))"

partial_function (option) not_loop :: "string \<Rightarrow> not_scan \<Rightarrow> (slice_panic, not_scan) result option" where
  [code]: "not_loop query s =
     (if sc_i s < length query
      then Option.bind (not_step query s) (\<lambda>r. case r of Inl e \<Rightarrow> Some (Err e) | Inr s' \<Rightarrow> not_loop query s')
      else Some (Ok s))"

definition not_finish :: "string \<Rightarrow> not_scan \<Rightarrow> (slice_panic, string) result" where
  "not_finish query s =
     and_then (drain_closes query (sc_out s) (sc_copied s) (sc_closes s)) (\<lambda>(out, copied).
       if copied = 0 then Ok query
       else and_then (query_slice query copied (length query)) (\<lambda>t. Ok (out @ t)))"

definition contains_not :: "string \<Rightarrow> bool" where
  "contains_not query = list_ex (\<lambda>i. starts_with (drop i query) ''NOT'') [0..<length query]"

text \<open>
  \<^const>\<open>None\<close> if the rewrite never returns; a panic or the rewritten query if it does.
\<close>

definition normalize_not_clauses :: "string \<Rightarrow> (slice_panic, string) result option" where
  "normalize_not_clauses query =
     (if contains_not query
      then map_option (\<lambda>r. and_then r (not_finish query)) (not_loop query not_start)
      else Some (Ok query))"

section \<open>The nesting of a query\<close>

definition MAX_QUERY_DEPTH :: nat where
  "MAX_QUERY_DEPTH = 64"

record depth_scan =
  ds_groups :: "nat list"
  ds_depth :: nat
  ds_pending :: nat
  ds_in_term :: bool
  ds_in_quote :: bool
  ds_value_depth :: nat
  ds_deepest :: nat

definition depth_start :: depth_scan where
  "depth_start =
     \<lparr>ds_groups = [], ds_depth = 0, ds_pending = 0, ds_in_term = False, ds_in_quote = False,
      ds_value_depth = 0, ds_deepest = 0\<rparr>"

definition open_level :: "depth_scan \<Rightarrow> depth_scan" where
  "open_level s =
     (let added = 1 + ds_pending s; depth = ds_depth s + added in
      s\<lparr>ds_groups := added # ds_groups s, ds_depth := depth, ds_deepest := max (ds_deepest s) depth,
        ds_pending := 0, ds_in_term := False\<rparr>)"

definition close_level :: "depth_scan \<Rightarrow> (slice_panic, depth_scan) result" where
  "close_level s =
     (let added = (case ds_groups s of [] \<Rightarrow> 0 | g # _ \<Rightarrow> g) in
      if ds_depth s < added then Err Underflow
      else Ok (s\<lparr>ds_groups := tl (ds_groups s), ds_depth := ds_depth s - added, ds_pending := 0, ds_in_term := False\<rparr>))"

text \<open>The byte at \<open>i\<close>: the scan after it, and how far the index moves.\<close>

definition depth_step :: "string \<Rightarrow> nat \<Rightarrow> depth_scan \<Rightarrow> (slice_panic, depth_scan \<times> nat) result" where
  "depth_step bytes i s =
     (let c = bytes ! i in
      if c = CHR 0x5C then Ok (s\<lparr>ds_in_term := True\<rparr>, 2)
      else if ds_in_quote s then Ok (s\<lparr>ds_in_quote := c \<noteq> CHR 0x22\<rparr>, 1)
      else if c = CHR 0x22 then Ok (s\<lparr>ds_in_quote := True, ds_in_term := True\<rparr>, 1)
      else if c \<in> set ''[{'' then Ok (s\<lparr>ds_value_depth := ds_value_depth s + 1, ds_in_term := True\<rparr>, 1)
      else if c \<in> set '']}'' then Ok (s\<lparr>ds_value_depth := ds_value_depth s - 1\<rparr>, 1)
      else if 0 < ds_value_depth s then Ok (s, 1)
      else if c = CHR ''('' then Ok (open_level s, 1)
      else if c = CHR '')'' then and_then (close_level s) (\<lambda>s. Ok (s, 1))
      else if is_ascii_whitespace c then
        Ok (if ds_in_term s then s\<lparr>ds_pending := 0, ds_in_term := False\<rparr> else s, 1)
      else if c \<in> set ''+-'' \<and> \<not> ds_in_term s then Ok (s, 1)
      else if \<not> ds_in_term s \<and> keyword_at bytes i then
        Ok (s\<lparr>ds_pending := ds_pending s + 1, ds_deepest := max (ds_deepest s) (ds_depth s + ds_pending s + 1)\<rparr>, 3)
      else Ok (s\<lparr>ds_in_term := True\<rparr>, 1))"

lemma depth_step_advances: "depth_step bytes i s = Inr (s', k) \<Longrightarrow> 0 < k"
  by (auto simp: depth_step_def Let_def and_then_Ok_iff split: if_splits)

function depth_loop :: "string \<Rightarrow> nat \<Rightarrow> depth_scan \<Rightarrow> (slice_panic, nat) result" where
  "depth_loop bytes i s =
     (if i < length bytes
      then (case depth_step bytes i s of Inl e \<Rightarrow> Err e | Inr (s', k) \<Rightarrow> depth_loop bytes (i + k) s')
      else Ok (ds_deepest s))"
  by pat_completeness auto
termination
proof (relation "measure (\<lambda>(bytes, i, _). length bytes - i)", goal_cases)
  case (2 bytes i s r s' k)
  then have "0 < k" by (metis depth_step_advances)
  with 2 show ?case by simp
qed simp

declare depth_loop.simps [simp del]

definition query_depth :: "string \<Rightarrow> (slice_panic, nat) result" where
  "query_depth query = depth_loop query 0 depth_start"

text \<open>
  The whitespace of Unicode other than space, tab, line feed and carriage return, in UTF-8, becomes a space
  before any pass reads the query.
\<close>

definition UNTOKENIZABLE :: "string list" where
  "UNTOKENIZABLE =
     [[CHR 0x0B], [CHR 0x0C], [CHR 0xC2, CHR 0x85], [CHR 0xC2, CHR 0xA0], [CHR 0xE1, CHR 0x9A, CHR 0x80]] @
     map (\<lambda>b. [CHR 0xE2, CHR 0x80, b])
       [CHR 0x80, CHR 0x81, CHR 0x82, CHR 0x83, CHR 0x84, CHR 0x85, CHR 0x86, CHR 0x87, CHR 0x88, CHR 0x89, CHR 0x8A,
        CHR 0xA8, CHR 0xA9, CHR 0xAF] @
     [[CHR 0xE2, CHR 0x81, CHR 0x9F], [CHR 0xE3, CHR 0x80, CHR 0x80]]"

fun fold_untokenizable_whitespace :: "string \<Rightarrow> string" where
  "fold_untokenizable_whitespace [] = []"
| "fold_untokenizable_whitespace (c # cs) =
     (case find (starts_with (c # cs)) UNTOKENIZABLE of
        None \<Rightarrow> c # fold_untokenizable_whitespace cs
      | Some t \<Rightarrow> CHR '' '' # fold_untokenizable_whitespace (drop (length t - 1) cs))"

text \<open>
  What the parser is handed: \<^const>\<open>None\<close> for a query nested past the limit, which is refused before
  any pass parses it, the rewritten query otherwise.
\<close>

definition prepare_query_text :: "string \<Rightarrow> (slice_panic, string option) result option" where
  "prepare_query_text query =
     (let query = fold_untokenizable_whitespace query in
      case query_depth query of
        Inl e \<Rightarrow> Some (Err e)
      | Inr depth \<Rightarrow>
          if MAX_QUERY_DEPTH < depth then Some (Ok None)
          else map_option (\<lambda>r. and_then r (\<lambda>q. Ok (Some q))) (normalize_not_clauses query))"

section \<open>The loops end\<close>

lemma skip_whitespace_ge [simp]: "p \<le> skip_whitespace bytes p"
  by (simp add: skip_whitespace_def)

lemma skip_whitespace_le: "p \<le> length bytes \<Longrightarrow> skip_whitespace bytes p \<le> length bytes"
  using length_takeWhile_le [of is_ascii_whitespace "drop p bytes"] by (simp add: skip_whitespace_def)

lemma not_run_bounds:
  "not_run bytes p n = (p', n') \<Longrightarrow> p \<le> length bytes \<Longrightarrow> p \<le> p' \<and> p' \<le> length bytes \<and> \<not> keyword_at bytes p'"
proof (induction bytes p n rule: not_run.induct)
  case (1 bytes p n)
  show ?case
  proof (cases "keyword_at bytes p")
    case True
    then have "skip_whitespace bytes (p + 3) \<le> length bytes"
      by (intro skip_whitespace_le) (simp add: keyword_at_def)
    moreover have "p \<le> skip_whitespace bytes (p + 3)"
      using skip_whitespace_ge [of "p + 3" bytes] by linarith
    moreover have "not_run bytes (skip_whitespace bytes (p + 3)) (n + 1) = (p', n')"
      using 1(2) True by (subst (asm) not_run.simps) simp
    ultimately show ?thesis using 1(1) [OF True] by fastforce
  next
    case False
    with 1 show ?thesis by (subst (asm) not_run.simps) simp
  qed
qed

text \<open>A bracket is closed behind itself, so the scan of a leaf moves forward over it.\<close>

definition pairs_ok :: "nat \<Rightarrow> (nat \<times> nat) list \<Rightarrow> bool" where
  "pairs_ok i pairs = (\<forall>(a, b) \<in> set pairs. a < i \<and> a \<le> b)"

lemma pairs_ok_later: "pairs_ok i pairs \<Longrightarrow> i \<le> j \<Longrightarrow> pairs_ok j pairs"
  by (fastforce simp: pairs_ok_def)

lemma pairs_ok_update:
  assumes "pairs_ok i pairs" "k < length pairs"
  shows "pairs_ok (i + 1) (pairs[k := (fst (pairs ! k), i)])"
proof -
  have "pairs ! k \<in> set pairs" using assms(2) by simp
  with assms(1) have "fst (pairs ! k) < i" by (auto simp: pairs_ok_def)
  then show ?thesis
    using assms(1) set_update_subset_insert [of pairs k "(fst (pairs ! k), i)"] by (fastforce simp: pairs_ok_def)
qed

lemma bracket_loop_forward:
  assumes "pairs_ok i pairs" "\<forall>k \<in> set opened. k < length pairs"
  shows "\<exists>j. pairs_ok j (bracket_loop bytes i in_quote opened pairs)"
  using assms
proof (induction "length bytes - i" arbitrary: i in_quote opened pairs rule: less_induct)
  case less
  show ?case
  proof (cases "i < length bytes")
    case False
    with less(2) show ?thesis by (subst bracket_loop.simps) auto
  next
    case True
    note ok = less(2) and op = less(3)
    have same: "\<exists>j. pairs_ok j (bracket_loop bytes (i + d) b opened pairs)" if "0 < d" for b d
      using less(1) [of "i + d" pairs opened b] True that op pairs_ok_later [OF ok, of "i + d"] by simp
    have opens: "\<exists>j. pairs_ok j (bracket_loop bytes (i + 1) False (length pairs # opened) (pairs @ [(i, length bytes)]))"
      using less(1) [of "i + 1" "pairs @ [(i, length bytes)]" "length pairs # opened" False] True op
        pairs_ok_later [OF ok, of "i + 1"] by (fastforce simp: pairs_ok_def)
    have closes: "\<exists>j. pairs_ok j (bracket_loop bytes (i + 1) False rest (pairs[k := (fst (pairs ! k), i)]))"
      if "opened = k # rest" for k rest
      using less(1) [of "i + 1" "pairs[k := (fst (pairs ! k), i)]" rest False] True op that
        pairs_ok_update [OF ok, of k] by simp
    show ?thesis
      using same [of 1] same [of 2] opens closes True
      by (subst bracket_loop.simps) (cases opened; simp add: Let_def)
  qed
qed

lemma bracket_pairs_forward: "map_of (bracket_pairs bytes) i = Some c \<Longrightarrow> i \<le> c"
  using bracket_loop_forward [of 0 "[]" "[]" bytes False] map_of_SomeD [of "bracket_pairs bytes" i c]
  by (fastforce simp: bracket_pairs_def pairs_ok_def)

lemma leaf_scan_ends:
  assumes "\<And>i c. map_of pairs i = Some c \<Longrightarrow> i \<le> c"
  shows "\<exists>r. leaf_scan bytes pairs i in_quote = Some r \<and>
    (case r of AtParen j \<Rightarrow> i \<le> j \<and> j < length bytes | Broke j \<Rightarrow> min i (length bytes) \<le> j \<and> j \<le> length bytes)"
proof (induction "length bytes - i" arbitrary: i in_quote rule: less_induct)
  case less
  have step: "\<exists>r. leaf_scan bytes pairs j b = Some r \<and>
      (case r of AtParen j \<Rightarrow> i \<le> j \<and> j < length bytes | Broke j \<Rightarrow> min i (length bytes) \<le> j \<and> j \<le> length bytes)"
    if "i < j" "i < length bytes" for j b
    using less [of j b] that by (fastforce split: leaf_stop.splits)
  have "i < (case map_of pairs i of Some close \<Rightarrow> close + 1 | None \<Rightarrow> length bytes + 1)" if "i < length bytes"
    using assms [of i] that by (fastforce split: option.split)
  note jump = step [OF this]
  show ?case
    using step [of "i + 1"] step [of "i + 2"] jump
    by (subst leaf_scan.simps) (auto simp: Let_def)
qed

lemma set_end_bounds: "min q (length bytes) \<le> set_end bytes q b \<and> set_end bytes q b \<le> length bytes"
proof (induction "length bytes - q" arbitrary: q b rule: less_induct)
  case less
  have step: "min q (length bytes) \<le> set_end bytes r b' \<and> set_end bytes r b' \<le> length bytes"
    if "q < r" "q < length bytes" for r b'
    using less [of r b'] that by linarith
  show ?case
    using step [of "q + 1"] step [of "q + 2"] by (subst (1 2) set_end.simps) simp
qed

lemma past_in_set_bounds:
  assumes "i \<le> length bytes"
  shows "i \<le> past_in_set bytes start i \<and> past_in_set bytes start i \<le> length bytes"
proof -
  let ?p = "skip_whitespace bytes i"
  let ?q = "skip_whitespace bytes (?p + 2)"
  have "i \<le> ?q" using skip_whitespace_ge [of i bytes] skip_whitespace_ge [of "?p + 2" bytes] by linarith
  with assms set_end_bounds [of ?q bytes False] show ?thesis by (auto simp: past_in_set_def Let_def)
qed

lemma not_leaf_end_ends:
  assumes "p \<le> length bytes"
  shows "\<exists>e. not_leaf_end bytes p (bracket_pairs bytes) = Some e \<and> p \<le> e \<and> e \<le> length bytes"
proof -
  obtain r where r: "leaf_scan bytes (bracket_pairs bytes) p False = Some r"
    "case r of AtParen j \<Rightarrow> p \<le> j \<and> j < length bytes | Broke j \<Rightarrow> min p (length bytes) \<le> j \<and> j \<le> length bytes"
    using leaf_scan_ends [of "bracket_pairs bytes" bytes p False, OF bracket_pairs_forward [of bytes]] by blast
  then show ?thesis using assms past_in_set_bounds [of _ bytes p]
    by (cases r) (fastforce simp: not_leaf_end_def)+
qed

lemma step_not_advances:
  assumes "keyword_at query (sc_i s)"
  shows "\<exists>r. step_not query s = Some r \<and> (\<forall>s'. r = Inr s' \<longrightarrow> sc_i s < sc_i s')"
proof (cases "not_context_at query (sc_i s)")
  case None
  then show ?thesis by (simp add: step_not_def at_i_def)
next
  case (Some ctx)
  obtain p n where run: "not_run query (skip_whitespace query (sc_i s + 3)) 1 = (p, n)" by (metis prod.exhaust)
  have "skip_whitespace query (sc_i s + 3) \<le> length query"
    using assms by (intro skip_whitespace_le) (simp add: keyword_at_def)
  note p = not_run_bounds [OF run this]
  then have "sc_i s < p" using skip_whitespace_ge [of "sc_i s + 3" query] by linarith
  moreover obtain e where "not_leaf_end query p (bracket_pairs query) = Some e" using not_leaf_end_ends p by blast
  ultimately show ?thesis
    by (auto simp: step_not_def Some run and_then_Ok_iff at_i_def splice_not_def Let_def simp del: One_nat_def
        split: if_splits)
qed

lemma not_step_advances: "\<exists>r. not_step query s = Some r \<and> (\<forall>s'. r = Inr s' \<longrightarrow> sc_i s < sc_i s')"
proof (cases "flush_closes query (sc_i s) (sc_out s) (sc_copied s) (sc_closes s)")
  case (Inl e)
  then show ?thesis by (simp add: not_step_def)
next
  case (Inr t)
  obtain out copied closes where t: "t = (out, copied, closes)" by (rule prod_cases3)
  let ?s = "s\<lparr>sc_out := out, sc_copied := copied, sc_closes := closes\<rparr>"
  have "sc_i s = sc_i ?s" by simp
  moreover have "\<exists>r. step_byte query ?s = Some r \<and> (\<forall>s'. r = Inr s' \<longrightarrow> sc_i ?s < sc_i s')"
    using step_not_advances [of query ?s]
    by (auto simp: step_byte_def Let_def at_i_def and_then_Ok_iff open_group_def)
  ultimately show ?thesis by (simp add: not_step_def Inr t)
qed

lemma not_loop_ends: "\<exists>r. not_loop query s = Some r"
proof (induction "length query - sc_i s" arbitrary: s rule: less_induct)
  case less
  obtain r where r: "not_step query s = Some r" "\<forall>s'. r = Inr s' \<longrightarrow> sc_i s < sc_i s'"
    using not_step_advances by blast
  show ?case
  proof (cases r)
    case (Inl e)
    with r show ?thesis by (subst not_loop.simps) simp
  next
    case (Inr s')
    show ?thesis
    proof (cases "sc_i s < length query")
      case True
      with less [of s'] r Inr show ?thesis by (subst not_loop.simps) auto
    next
      case False
      then show ?thesis by (subst not_loop.simps) simp
    qed
  qed
qed


section \<open>What the rewrite keeps\<close>

definition kept :: "char \<Rightarrow> bool" where
  "kept c = (c \<notin> set ''NOTAD(*-)'' \<and> \<not> is_ascii_whitespace c)"

definition kept_ok :: "string \<Rightarrow> string \<Rightarrow> nat \<Rightarrow> bool" where
  "kept_ok q out copied = (copied \<le> length q \<and> filter kept out = filter kept (take copied q))"

lemma take_slice: "a \<le> b \<Longrightarrow> take b q = take a q @ take (b - a) (drop a q)"
  by (metis le_add_diff_inverse take_add)

lemma query_slice_Ok: "query_slice q a b = Inr t \<longleftrightarrow> a \<le> b \<and> b \<le> length q \<and> t = take (b - a) (drop a q)"
  by (auto simp: query_slice_def)

lemma kept_slice:
  "kept_ok q out a \<Longrightarrow> query_slice q a b = Inr t \<Longrightarrow> filter kept x = [] \<Longrightarrow> kept_ok q (out @ t @ x) b"
  by (auto simp: kept_ok_def query_slice_Ok take_slice [of a b])

lemma kept_close: "kept_ok q out a \<Longrightarrow> query_slice q a b = Inr t \<Longrightarrow> kept_ok q (out @ t @ '')'') b"
  by (rule kept_slice) (simp_all add: kept_def)

lemma kept_skip: "filter kept (take (skip_whitespace q p) q) = filter kept (take p q)"
proof -
  let ?w = "takeWhile is_ascii_whitespace (drop p q)"
  have "take (skip_whitespace q p) q = take p q @ ?w"
    by (metis skip_whitespace_def take_add takeWhile_eq_take)
  moreover have "filter kept ?w = []" by (auto simp: filter_empty_conv kept_def dest: set_takeWhileD)
  ultimately show ?thesis by simp
qed

lemma kept_keyword:
  assumes "keyword_at q p"
  shows "filter kept (take (p + 3) q) = filter kept (take p q)"
proof -
  have "take 3 (drop p q) = ''NOT''"
    using assms by (auto simp: keyword_at_def starts_with_def strip_prefix_Some)
  then show ?thesis by (simp add: take_add kept_def)
qed

lemma kept_run: "not_run q p n = (p', n') \<Longrightarrow> filter kept (take p' q) = filter kept (take p q)"
proof (induction q p n rule: not_run.induct)
  case (1 q p n)
  then show ?case
    by (subst (asm) (2) not_run.simps) (auto simp: kept_skip kept_keyword split: if_splits)
qed

lemma flush_kept:
  "flush_closes q here out copied cs = Inr (out', copied', cs') \<Longrightarrow> kept_ok q out copied \<Longrightarrow> kept_ok q out' copied'"
proof (induction q here out copied cs rule: flush_closes.induct)
  case (2 q here out copied e rest)
  then show ?case
    by (auto simp: and_then_Ok_iff dest: kept_close split: if_splits)
qed simp

lemma drain_kept:
  "drain_closes q out copied cs = Inr (out', copied') \<Longrightarrow> kept_ok q out copied \<Longrightarrow> kept_ok q out' copied'"
proof (induction q out copied cs rule: drain_closes.induct)
  case (2 q out copied e rest)
  then show ?case by (auto simp: and_then_Ok_iff dest: kept_close)
qed simp

lemma splice_kept:
  assumes "splice_not q ctx p n e s = Inr s'" "kept_ok q (sc_out s) (sc_copied s)"
    and "p \<le> length q" "filter kept (take p q) = filter kept (take (sc_i s) q)"
  shows "kept_ok q (sc_out s') (sc_copied s')"
proof -
  let ?x = "if even n then if ctx = AfterLeaf then ''AND '' else ''''
    else if ctx \<in> {And, AfterLeaf} then ''-'' else ''(* -''"
  from assms(1) obtain t where t: "query_slice q (sc_copied s) (sc_i s) = Inr t"
    and s': "sc_out s' = sc_out s @ t @ ?x" "sc_copied s' = p"
    by (auto simp: splice_not_def and_then_Ok_iff Let_def)
  have "filter kept ?x = []" by (simp add: kept_def is_ascii_whitespace_def)
  from kept_slice [OF assms(2) t this] assms(3,4) show ?thesis
    unfolding s' by (simp only: kept_ok_def)
qed

lemma step_not_kept:
  assumes "step_not q s = Some (Inr s')" "kept_ok q (sc_out s) (sc_copied s)" "keyword_at q (sc_i s)"
  shows "kept_ok q (sc_out s') (sc_copied s')"
proof (cases "not_context_at q (sc_i s)")
  case None
  with assms show ?thesis by (auto simp: step_not_def at_i_def)
next
  case (Some ctx)
  obtain p n where run: "not_run q (skip_whitespace q (sc_i s + 3)) 1 = (p, n)" by (metis prod.exhaust)
  have "skip_whitespace q (sc_i s + 3) \<le> length q"
    using assms(3) by (intro skip_whitespace_le) (simp add: keyword_at_def)
  then have p: "p \<le> length q" using not_run_bounds [OF run] by blast
  have over: "filter kept (take p q) = filter kept (take (sc_i s) q)"
    using kept_run [OF run] kept_keyword [OF assms(3)] by (simp add: kept_skip)
  from assms(1) obtain e where
    "s' = at_i p s \<or> s' = at_i (sc_i s + 1) s \<or> splice_not q ctx p n e s = Inr s'"
    by (auto simp: step_not_def Some run and_then_Ok_iff simp del: One_nat_def split: if_splits)
  then show ?thesis
    using splice_kept [OF _ assms(2) p over] assms(2) by (auto simp: at_i_def)
qed

lemma not_step_kept:
  assumes "not_step q s = Some (Inr s')" "kept_ok q (sc_out s) (sc_copied s)"
  shows "kept_ok q (sc_out s') (sc_copied s')"
proof -
  obtain out copied closes where fl:
    "flush_closes q (sc_i s) (sc_out s) (sc_copied s) (sc_closes s) = Inr (out, copied, closes)"
    and st: "step_byte q (s\<lparr>sc_out := out, sc_copied := copied, sc_closes := closes\<rparr>) = Some (Inr s')"
    using assms(1) by (auto simp: not_step_def split: sum.splits)
  let ?s = "s\<lparr>sc_out := out, sc_copied := copied, sc_closes := closes\<rparr>"
  have "kept_ok q (sc_out ?s) (sc_copied ?s)" using flush_kept [OF fl assms(2)] by simp
  with st show ?thesis
    using step_not_kept [of q ?s s']
    by (auto simp: step_byte_def Let_def at_i_def and_then_Ok_iff open_group_def close_group_def split: if_splits list.splits)
qed

lemma not_loop_invariant:
  assumes "P s" "\<And>s s'. P s \<Longrightarrow> sc_i s < length q \<Longrightarrow> not_step q s = Some (Inr s') \<Longrightarrow> P s'"
  shows "not_loop q s = Some (Inr s') \<Longrightarrow> P s' \<and> length q \<le> sc_i s'"
  using assms(1)
proof (induction "length q - sc_i s" arbitrary: s rule: less_induct)
  case less
  show ?case
  proof (cases "sc_i s < length q")
    case True
    obtain r where r: "not_step q s = Some r" "\<forall>t. r = Inr t \<longrightarrow> sc_i s < sc_i t"
      using not_step_advances by blast
    with less(2) True obtain t where t: "r = Inr t" "not_loop q t = Some (Inr s')"
      by (cases r) (simp_all add: not_loop.simps [of q s])
    with r True less(1) [of t] assms(2) [OF less(3) True] show ?thesis by auto
  next
    case False
    with less(2,3) not_loop.simps [of q s] show ?thesis by auto
  qed
qed

lemma rewrite_kept:
  assumes "normalize_not_clauses q = Some (Inr out)"
  shows "filter kept out = filter kept q"
proof (cases "contains_not q")
  case True
  then obtain s where s: "not_loop q not_start = Some (Inr s)" "not_finish q s = Inr out"
    using assms by (auto simp: normalize_not_clauses_def and_then_Ok_iff)
  have "kept_ok q (sc_out not_start) (sc_copied not_start)" by (simp add: not_start_def kept_ok_def)
  from not_loop_invariant [of "\<lambda>s. kept_ok q (sc_out s) (sc_copied s)", OF this not_step_kept s(1)]
  have "kept_ok q (sc_out s) (sc_copied s)" by simp
  moreover from s(2) obtain out' copied' where dr: "drain_closes q (sc_out s) (sc_copied s) (sc_closes s) = Inr (out', copied')"
    and out: "out = (if copied' = 0 then q else out' @ drop copied' q)"
    by (auto simp: not_finish_def and_then_Ok_iff query_slice_Ok split: if_splits)
  ultimately have k: "kept_ok q out' copied'" using drain_kept by blast
  have "filter kept (take copied' q) @ filter kept (drop copied' q) = filter kept q"
    by (metis append_take_drop_id filter_append)
  with k out show ?thesis by (auto simp: kept_ok_def)
qed (use assms in \<open>auto simp: normalize_not_clauses_def\<close>)

section \<open>Flat queries are rewritten\<close>

text \<open>
  A query without an escape or an opening bracket. While the leaf of a rewrite is open, the loop and
  the scan that found its end are in step: the scan from the loop's position, in the loop's quoting, stops
  at that end. No \<open>NOT\<close> inside such a leaf is an operator.
\<close>

definition flat_query :: "string \<Rightarrow> bool" where
  "flat_query q = (\<forall>c \<in> set q. c \<notin> set ''([{'' \<and> c \<noteq> CHR 0x5C)"

definition ends_leaf :: "char \<Rightarrow> bool" where
  "ends_leaf c = (is_ascii_whitespace c \<or> c = CHR '')'')"

fun stop_of :: "leaf_stop \<Rightarrow> nat" where
  "stop_of (AtParen j) = j"
| "stop_of (Broke j) = j"

definition leaf_runs_to :: "string \<Rightarrow> nat \<Rightarrow> bool \<Rightarrow> nat \<Rightarrow> bool" where
  "leaf_runs_to q i b e = (map_option stop_of (leaf_scan q (bracket_pairs q) i b) = Some e)"

definition next_quote :: "char \<Rightarrow> bool \<Rightarrow> bool" where
  "next_quote c b = (if b then c \<noteq> CHR 0x22 else c = CHR 0x22)"

lemma quote_no_space [simp]: "\<not> is_ascii_whitespace CHR 0x22"
  by (simp add: is_ascii_whitespace_def)

lemma flat_nth:
  "flat_query q \<Longrightarrow> i < length q \<Longrightarrow>
   q ! i \<noteq> CHR ''('' \<and> q ! i \<noteq> CHR ''['' \<and> q ! i \<noteq> CHR ''{'' \<and> q ! i \<noteq> CHR 0x5C"
  by (auto simp: flat_query_def)

lemma leaf_runs_on:
  assumes "flat_query q" "leaf_runs_to q i b e" "i < e" "e \<le> length q"
  shows "leaf_runs_to q (i + 1) (next_quote (q ! i) b) e" "b \<or> \<not> ends_leaf (q ! i)"
proof -
  have i: "i < length q" using assms(3,4) by simp
  note sc = leaf_scan.simps [of q "bracket_pairs q" i b]
  have *: "leaf_runs_to q (i + 1) (next_quote (q ! i) b) e \<and> (b \<or> \<not> ends_leaf (q ! i))"
    using assms(2,3) i flat_nth [OF assms(1) i]
    unfolding leaf_runs_to_def sc by (auto simp: Let_def next_quote_def ends_leaf_def split: if_splits)
  then show "leaf_runs_to q (i + 1) (next_quote (q ! i) b) e" "b \<or> \<not> ends_leaf (q ! i)" by auto
qed

definition in_leaf :: "string \<Rightarrow> nat \<Rightarrow> nat \<Rightarrow> nat \<Rightarrow> bool \<Rightarrow> bool" where
  "in_leaf q p e i b =
     (p \<le> i \<and> i \<le> e \<and> e \<le> length q \<and> leaf_runs_to q i b e \<and> \<not> keyword_at q p \<and> q ! p \<notin> set ''+-'' \<and>
      (i = p \<longrightarrow> \<not> b) \<and>
      (p < i \<and> \<not> b \<longrightarrow> \<not> ends_leaf (q ! (i - 1)) \<and>
         (q ! (i - 1) \<in> set ''+-'' \<and> p < i - 1 \<longrightarrow> \<not> ends_leaf (q ! (i - 2)))))"

lemma in_leaf_next:
  assumes "flat_query q" "in_leaf q p e i b" "i < e"
  shows "in_leaf q p e (i + 1) (next_quote (q ! i) b)"
proof -
  have e: "e \<le> length q" "leaf_runs_to q i b e" and pi: "p \<le> i" using assms(2) by (simp_all add: in_leaf_def)
  note on = leaf_runs_on [OF assms(1) e(2) assms(3) e(1)]
  have "\<not> ends_leaf (q ! i) \<and> (q ! i \<in> set ''+-'' \<and> p < i \<longrightarrow> \<not> ends_leaf (q ! (i - 1)))"
    if "\<not> next_quote (q ! i) b"
  proof (cases b)
    case True
    with that have "q ! i = CHR 0x22" by (simp add: next_quote_def)
    then show ?thesis by (simp add: ends_leaf_def is_ascii_whitespace_def)
  next
    case False
    with on(2) assms(2) show ?thesis by (auto simp: in_leaf_def)
  qed
  then show ?thesis using assms(2,3) on(1) pi by (auto simp: in_leaf_def)
qed

lemma in_leaf_no_operator:
  assumes "flat_query q" "in_leaf q p e i False" "i < e"
  shows "\<not> keyword_at q i \<or> not_context_at q i = None"
proof (cases "p = i")
  case True
  with assms(2) show ?thesis by (simp add: in_leaf_def)
next
  case False
  have b: "p < i" "e \<le> length q" "\<not> ends_leaf (q ! (i - 1))" "q ! p \<notin> set ''+-''"
    "q ! (i - 1) \<in> set ''+-'' \<and> p < i - 1 \<longrightarrow> \<not> ends_leaf (q ! (i - 2))"
    using False assms(2) by (auto simp: in_leaf_def)
  have "\<not> sign_is_occur q (i - 1)" if sign: "q ! (i - 1) \<in> set ''+-''"
  proof -
    have "i - 1 \<noteq> p" using b(4) sign by auto
    then have "p < i - 1" using b(1) by linarith
    moreover have "q ! (i - 2) \<noteq> CHR ''(''" using flat_nth [OF assms(1), of "i - 2"] b(1,2) assms(3) by simp
    moreover have "i - 1 - 1 = i - 2" by simp
    ultimately show ?thesis using b(5) sign by (auto simp: sign_is_occur_def ends_leaf_def)
  qed
  moreover have "q ! (i - 1) \<noteq> CHR ''(''" using flat_nth [OF assms(1), of "i - 1"] b(1,2) assms(3) by simp
  ultimately show ?thesis using b by (auto simp: not_context_at_def ends_leaf_def)
qed

definition flat_ok :: "string \<Rightarrow> not_scan \<Rightarrow> bool" where
  "flat_ok q s =
     (sc_copied s \<le> sc_i s \<and> sc_i s \<le> length q \<and> sc_value_depth s = 0 \<and> sc_groups s = [] \<and> sc_field_groups s = 0 \<and>
      (sc_closes s = [] \<or> (\<exists>e. sc_closes s = [e] \<and> in_leaf q (sc_copied s) e (sc_i s) (sc_in_quote s))))"

lemma flat_ok_next:
  assumes "flat_query q" "flat_ok q s" "sc_i s < length q" "\<forall>e \<in> set (sc_closes s). sc_i s < e"
  shows "flat_ok q (at_i (sc_i s + 1) s\<lparr>sc_in_quote := next_quote (q ! sc_i s) (sc_in_quote s)\<rparr>)"
  using assms in_leaf_next [OF assms(1)] by (auto simp: flat_ok_def at_i_def simp del: One_nat_def)

lemma flat_leaf_end:
  assumes "flat_query q" "not_leaf_end q p (bracket_pairs q) = Some e"
  shows "leaf_runs_to q p False e"
proof -
  have "past_in_set q p j = j" for j
    using flat_nth [OF assms(1)] by (auto simp: past_in_set_def Let_def)
  moreover obtain r where r: "leaf_scan q (bracket_pairs q) p False = Some r"
    "e = (case r of AtParen i \<Rightarrow> i | Broke i \<Rightarrow> past_in_set q p i)"
    using assms(2) by (auto simp: not_leaf_end_def)
  ultimately show ?thesis by (cases r) (simp_all add: leaf_runs_to_def)
qed

lemma flat_step_not:
  assumes "flat_query q" "flat_ok q s" "sc_closes s = []" "keyword_at q (sc_i s)" "\<not> sc_in_quote s"
  shows "\<exists>s'. step_not q s = Some (Inr s') \<and> flat_ok q s'"
proof (cases "not_context_at q (sc_i s)")
  case None
  have "sc_i s < length q" using assms(4) by (simp add: keyword_at_def)
  with None assms(2,3) show ?thesis by (simp add: step_not_def at_i_def flat_ok_def)
next
  case (Some ctx)
  obtain p n where run: "not_run q (skip_whitespace q (sc_i s + 3)) 1 = (p, n)" by (metis prod.exhaust)
  have "skip_whitespace q (sc_i s + 3) \<le> length q"
    using assms(4) by (intro skip_whitespace_le) (simp add: keyword_at_def)
  note p = not_run_bounds [OF run this]
  then have ip: "sc_i s < p" using skip_whitespace_ge [of "sc_i s + 3" q] by linarith
  obtain e where e: "not_leaf_end q p (bracket_pairs q) = Some e" "p \<le> e" "e \<le> length q"
    using not_leaf_end_ends p by blast
  let ?leaf = "take (e - p) (drop p q)"
  have leaf: "query_slice q p e = Inr ?leaf" using e by (simp add: query_slice_def)
  have inl: "in_leaf q p e p False" if "\<not> leaf_refused ?leaf"
  proof -
    have "p < e" using that by (cases "p < e") (simp_all add: leaf_refused_def)
    then have "hd ?leaf = q ! p" using e(3) by (simp add: hd_drop_conv_nth)
    with that have "q ! p \<notin> set ''+-''" by (simp add: leaf_refused_def)
    with p e flat_leaf_end [OF assms(1) e(1)] show ?thesis by (simp add: in_leaf_def)
  qed
  have cp: "query_slice q (sc_copied s) (sc_i s) = Inr (take (sc_i s - sc_copied s) (drop (sc_copied s) q))"
    using assms(2) by (simp add: query_slice_def flat_ok_def)
  have fields: "sc_field_groups s = 0" "sc_copied s \<le> sc_i s" "sc_value_depth s = 0" "sc_groups s = []"
    using assms(2) by (simp_all add: flat_ok_def)
  show ?thesis
    using ip p inl assms(3,5) fields
    by (auto simp: step_not_def Some run e(1) leaf splice_not_def cp Let_def flat_ok_def at_i_def simp del: One_nat_def)
qed

lemma flat_byte:
  assumes "flat_query q" "flat_ok q s" "sc_i s < length q" "\<forall>e \<in> set (sc_closes s). sc_i s < e"
  shows "\<exists>s'. step_byte q s = Some (Inr s') \<and> flat_ok q s'"
proof -
  let ?c = "q ! sc_i s" and ?n = "at_i (sc_i s + 1) s"
  note ch = flat_nth [OF assms(1,3)] and nx = flat_ok_next [OF assms]
  have fields: "sc_value_depth s = 0" "sc_groups s = []" using assms(2) by (simp_all add: flat_ok_def)
  show ?thesis
  proof (cases "sc_in_quote s \<or> ?c = CHR 0x22")
    case True
    then show ?thesis
      using ch nx by (auto simp: step_byte_def Let_def next_quote_def)
  next
    case False
    then have nq: "?n\<lparr>sc_in_quote := next_quote ?c (sc_in_quote s)\<rparr> = ?n" by (cases s) (simp add: next_quote_def at_i_def)
    have nx': "flat_ok q ?n" using nx unfolding nq .
    have op: "\<exists>s'. step_not q s = Some (Inr s') \<and> flat_ok q s'" if kw: "keyword_at q (sc_i s)"
    proof (cases "sc_closes s = []")
      case True
      with flat_step_not [OF assms(1,2) _ kw] False show ?thesis by blast
    next
      case open_leaf: False
      then obtain e where "sc_closes s = [e]" "in_leaf q (sc_copied s) e (sc_i s) (sc_in_quote s)"
        using assms(2) by (auto simp: flat_ok_def)
      with False in_leaf_no_operator [OF assms(1), of "sc_copied s" e "sc_i s"] assms(4) kw
      have "not_context_at q (sc_i s) = None" by simp
      with nx' show ?thesis by (simp add: step_not_def)
    qed
    have "?n\<lparr>sc_value_depth := 0\<rparr> = ?n" using fields by (cases s) (simp add: at_i_def)
    then show ?thesis
      using False ch nx' op fields by (simp add: step_byte_def Let_def close_group_def)
  qed
qed

lemma flat_step:
  assumes "flat_query q" "flat_ok q s" "sc_i s < length q"
  shows "\<exists>s'. not_step q s = Some (Inr s') \<and> flat_ok q s'"
proof (cases "\<exists>e. sc_closes s = [e] \<and> e \<le> sc_i s")
  case True
  then obtain e where e: "sc_closes s = [e]" "e = sc_i s" "sc_copied s \<le> e" "e \<le> length q"
    using assms(2) by (auto simp: flat_ok_def in_leaf_def)
  let ?t = "take (e - sc_copied s) (drop (sc_copied s) q)"
  let ?s = "s\<lparr>sc_out := sc_out s @ ?t @ '')'', sc_copied := e, sc_closes := []\<rparr>"
  have "flat_ok q ?s" using assms(2) e by (simp add: flat_ok_def)
  moreover have "not_step q s = step_byte q ?s" using e by (simp add: not_step_def query_slice_def)
  ultimately show ?thesis using flat_byte [OF assms(1), of ?s] assms(3) by simp
next
  case False
  then have cl: "\<forall>e \<in> set (sc_closes s). sc_i s < e" using assms(2) by (auto simp: flat_ok_def)
  then have "flush_closes q (sc_i s) (sc_out s) (sc_copied s) (sc_closes s) = Inr (sc_out s, sc_copied s, sc_closes s)"
    by (cases "sc_closes s") auto
  then have "not_step q s = step_byte q s" by (simp add: not_step_def)
  with flat_byte [OF assms cl] show ?thesis by simp
qed

lemma flat_loop:
  assumes "flat_query q" "flat_ok q s"
  shows "\<exists>s'. not_loop q s = Some (Inr s') \<and> flat_ok q s'"
  using assms(2)
proof (induction "length q - sc_i s" arbitrary: s rule: less_induct)
  case less
  show ?case
  proof (cases "sc_i s < length q")
    case True
    from flat_step [OF assms(1) less(2) True] obtain t where t: "not_step q s = Some (Inr t)" "flat_ok q t" by blast
    moreover have "sc_i s < sc_i t" using not_step_advances [of q s] t(1) by auto
    ultimately show ?thesis using less(1) [of t] True by (simp add: not_loop.simps [of q s])
  next
    case False
    with less(2) show ?thesis by (simp add: not_loop.simps [of q s])
  qed
qed

lemma flat_rewritten:
  assumes "flat_query q"
  shows "\<exists>out. normalize_not_clauses q = Some (Inr out)"
proof (cases "contains_not q")
  case True
  have "flat_ok q not_start" by (simp add: flat_ok_def not_start_def)
  from flat_loop [OF assms this] obtain s where s: "not_loop q not_start = Some (Inr s)" "flat_ok q s" by blast
  have "sc_closes s = [] \<or> (\<exists>e. sc_closes s = [e] \<and> sc_copied s \<le> e \<and> e \<le> length q)" "sc_copied s \<le> length q"
    using s(2) by (auto simp: flat_ok_def in_leaf_def)
  then have "\<exists>out. not_finish q s = Inr out" by (auto simp: not_finish_def query_slice_def)
  with s True show ?thesis by (auto simp: normalize_not_clauses_def)
qed (simp add: normalize_not_clauses_def)

section \<open>The count bounds the nesting\<close>

text \<open>The groups open after a text without quotes, values or escapes; a \<open>)\<close> too many closes nothing.\<close>

fun open_groups :: "string \<Rightarrow> nat \<Rightarrow> nat" where
  "open_groups [] m = m"
| "open_groups (c # cs) m = open_groups cs (if c = CHR ''('' then m + 1 else if c = CHR '')'' then m - 1 else m)"

definition plain_text :: "string \<Rightarrow> bool" where
  "plain_text q = (\<forall>c \<in> set q. c \<notin> set ''[{]}'' \<and> c \<noteq> CHR 0x22 \<and> c \<noteq> CHR 0x5C)"

definition depth_ok :: "string \<Rightarrow> nat \<Rightarrow> depth_scan \<Rightarrow> bool" where
  "depth_ok q i s =
     (ds_depth s = sum_list (ds_groups s) \<and> (\<forall>g \<in> set (ds_groups s). 0 < g) \<and> ds_depth s \<le> ds_deepest s \<and>
      (plain_text q \<longrightarrow> \<not> ds_in_quote s \<and> ds_value_depth s = 0 \<and> length (ds_groups s) = open_groups (take i q) 0 \<and>
         (\<forall>k \<le> i. open_groups (take k q) 0 \<le> ds_deepest s)))"

lemma open_groups_append: "open_groups (xs @ ys) m = open_groups ys (open_groups xs m)"
  by (induction xs m rule: open_groups.induct) simp_all

lemma length_le_sum: "\<forall>g \<in> set gs. 0 < g \<Longrightarrow> length gs \<le> sum_list (gs :: nat list)"
  by (induction gs) auto

lemma open_groups_keyword:
  assumes "keyword_at q i" "k \<le> 3"
  shows "open_groups (take (i + k) q) 0 = open_groups (take i q) 0"
proof -
  obtain y where "drop i q = ''NOT'' @ y"
    using assms(1) by (auto simp: keyword_at_def starts_with_def strip_prefix_Some)
  moreover have "k = 0 \<or> k = 1 \<or> k = 2 \<or> k = 3" using assms(2) by linarith
  ultimately show ?thesis by (auto simp: take_add open_groups_append numeral_2_eq_2 numeral_3_eq_3)
qed

lemma open_groups_Suc:
  "i < length q \<Longrightarrow> open_groups (take (Suc i) q) 0 =
     (if q ! i = CHR ''('' then open_groups (take i q) 0 + 1
      else if q ! i = CHR '')'' then open_groups (take i q) 0 - 1 else open_groups (take i q) 0)"
  by (simp add: take_Suc_conv_app_nth open_groups_append)

lemma depth_okI:
  assumes "depth_ok q i s" "ds_depth s' = sum_list (ds_groups s')" "\<forall>g \<in> set (ds_groups s'). 0 < g"
    and "ds_depth s' \<le> ds_deepest s'" "ds_deepest s \<le> ds_deepest s'"
    and "plain_text q \<Longrightarrow> \<not> ds_in_quote s' \<and> ds_value_depth s' = 0 \<and>
      (\<forall>j. 0 < j \<and> j \<le> k \<longrightarrow> open_groups (take (i + j) q) 0 = length (ds_groups s'))" "0 < k"
  shows "depth_ok q (i + k) s'"
proof -
  have len: "length (ds_groups s') \<le> ds_deepest s'" using length_le_sum [OF assms(3)] assms(2,4) by simp
  have "open_groups (take m q) 0 \<le> ds_deepest s'" if "plain_text q" "m \<le> i + k" for m
  proof (cases "m \<le> i")
    case True
    with assms(1,5) that(1) show ?thesis by (force simp: depth_ok_def)
  next
    case False
    then have "m = i + (m - i)" "0 < m - i" "m - i \<le> k" using that(2) by simp_all
    with assms(6) [OF that(1)] have "open_groups (take m q) 0 = length (ds_groups s')" by metis
    with len show ?thesis by simp
  qed
  with assms(2-4,6,7) show ?thesis by (simp add: depth_ok_def)
qed

lemma depth_step_ok:
  assumes "depth_ok q i s" "i < length q"
  shows "\<exists>s' k. depth_step q i s = Inr (s', k) \<and> depth_ok q (i + k) s'"
proof -
  have inv: "ds_depth s = sum_list (ds_groups s)" "\<forall>g \<in> set (ds_groups s). 0 < g" "ds_depth s \<le> ds_deepest s"
    and at: "plain_text q \<Longrightarrow> \<not> ds_in_quote s \<and> ds_value_depth s = 0 \<and> open_groups (take i q) 0 = length (ds_groups s) \<and>
      q ! i \<notin> set ''[{]}'' \<and> q ! i \<noteq> CHR 0x22 \<and> q ! i \<noteq> CHR 0x5C"
    using assms by (simp_all add: depth_ok_def plain_text_def)
  note I = depth_okI [OF assms(1)]
  show ?thesis
  proof (cases "depth_step q i s")
    case (Inl e)
    then show ?thesis
      using inv by (auto simp: depth_step_def Let_def close_level_def split: if_splits list.splits)
  next
    case (Inr t)
    obtain s' k where t: "t = (s', k)" by (rule prod.exhaust)
    have "depth_ok q (i + k) s'"
    proof (rule I)
      show "ds_depth s' = sum_list (ds_groups s')" "\<forall>g \<in> set (ds_groups s'). 0 < g" "ds_depth s' \<le> ds_deepest s'"
        "ds_deepest s \<le> ds_deepest s'"
        using Inr inv unfolding t
        by (auto simp: depth_step_def Let_def open_level_def close_level_def and_then_Ok_iff split: if_splits list.splits)
      show "0 < k" using Inr depth_step_advances unfolding t by blast
      assume p: "plain_text q"
      show "\<not> ds_in_quote s' \<and> ds_value_depth s' = 0 \<and>
        (\<forall>j. 0 < j \<and> j \<le> k \<longrightarrow> open_groups (take (i + j) q) 0 = length (ds_groups s'))"
        using Inr at [OF p] open_groups_Suc [OF assms(2)] open_groups_keyword [of q i] unfolding t
        by (auto simp: depth_step_def Let_def open_level_def close_level_def and_then_Ok_iff le_Suc_eq
            split: if_splits list.splits)
    qed
    with Inr t show ?thesis by blast
  qed
qed

lemma depth_loop_ok:
  assumes "depth_ok q i s"
  shows "\<exists>d. depth_loop q i s = Inr d \<and> (plain_text q \<longrightarrow> (\<forall>k. open_groups (take k q) 0 \<le> d))"
  using assms
proof (induction "length q - i" arbitrary: i s rule: less_induct)
  case less
  show ?case
  proof (cases "i < length q")
    case True
    from depth_step_ok [OF less(2) True] obtain s' k where st: "depth_step q i s = Inr (s', k)" "depth_ok q (i + k) s'"
      by blast
    with depth_step_advances True less(1) [of "i + k" s'] show ?thesis
      by (fastforce simp: depth_loop.simps [of q i s])
  next
    case False
    have "take k q = take (min k i) q" for k using False by (cases "k \<le> i") simp_all
    then have "open_groups (take k q) 0 \<le> ds_deepest s" if "plain_text q" for k
      using less(2) that by (metis depth_ok_def min.cobounded2)
    with False show ?thesis by (simp add: depth_loop.simps [of q i s])
  qed
qed

section \<open>Properties\<close>

text \<open>
  C10: The rewrite of \<open>NOT\<close> clauses ends on every query, well formed or not: its index loop, the run of
  \<open>NOT\<close>s, the pairing of brackets and the scan of every negated leaf return, with a rewritten query or a
  panic.
\<close>

theorem rewrite_ends: "\<exists>r. normalize_not_clauses query = Some r"
  using not_loop_ends [of query not_start] by (auto simp: normalize_not_clauses_def)

text \<open>
  C31: A query without an escape or an opening bracket is rewritten without a panic, whatever it quotes,
  closes or negates, and the rewrite touches operators only: apart from whitespace and the letters and
  signs the operators are written with, the result holds the bytes of the query in their order.
\<close>

theorem flat_query_is_rewritten:
  assumes "flat_query query"
  shows "\<exists>out. normalize_not_clauses query = Some (Inr out) \<and> filter kept out = filter kept query"
  using flat_rewritten [OF assms] rewrite_kept by blast

theorem flat_query_is_rewritten_witness:
  "flat_query ''title:x OR NOT y'' \<and> normalize_not_clauses ''title:x OR NOT y'' = Some (Inr ''title:x OR (* -y)'') \<and>
   filter kept ''title:x OR (* -y)'' = filter kept ''title:x OR NOT y''"
proof -
  have flat: "flat_query ''title:x OR NOT y''" by code_simp
  moreover have run: "normalize_not_clauses ''title:x OR NOT y'' = Some (Inr ''title:x OR (* -y)'')" by code_simp
  ultimately show ?thesis using flat_query_is_rewritten [OF flat] by simp
qed




end
