(* ===== verification/Search_Merge.thy ===== *)
theory Search_Merge
  imports Mcp_Tools "HOL-Library.Code_Target_Numeral"
begin

text \<open>
  The merge of hits from several sources, as \<open>node/search.rs\<close> does it across shards, nodes and indexes:
  the comparison of two hits, the window a caller asked for, and \<open>order_hit_blocks\<close>, which orders the
  gathered hits and takes the window out of them. A hit is its JSON document. The standard library's stable
  sort is an insertion sort here; the two agree where the comparison is a total order, and only there does
  the library promise an order at all.
\<close>

section \<open>Orderings\<close>

datatype ordering = Less | Equal | Greater

fun reverse_ordering :: "ordering \<Rightarrow> ordering" where
  "reverse_ordering Less = Greater"
| "reverse_ordering Equal = Equal"
| "reverse_ordering Greater = Less"

definition then_with :: "ordering \<Rightarrow> ordering \<Rightarrow> ordering" where
  "then_with a b = (if a = Equal then b else a)"

definition compare :: "'a :: linorder \<Rightarrow> 'a \<Rightarrow> ordering" where
  "compare x y = (if x < y then Less else if x = y then Equal else Greater)"

fun insert_by :: "('a \<Rightarrow> 'a \<Rightarrow> ordering) \<Rightarrow> 'a \<Rightarrow> 'a list \<Rightarrow> 'a list" where
  "insert_by cmp x [] = [x]"
| "insert_by cmp x (y # ys) = (if cmp x y = Greater then y # insert_by cmp x ys else x # y # ys)"

definition sort_by :: "('a \<Rightarrow> 'a \<Rightarrow> ordering) \<Rightarrow> 'a list \<Rightarrow> 'a list" where
  "sort_by cmp xs = foldr (insert_by cmp) xs []"

text \<open>
  A double as its bits. Two numbers compare as the integers their sign and magnitude spell, so the two
  zeros are equal; a NaN compares with nothing.
\<close>

definition f64_magnitude :: "u64 \<Rightarrow> int" where
  "f64_magnitude w = uint w mod 2 ^ 63"

definition f64_is_nan :: "u64 \<Rightarrow> bool" where
  "f64_is_nan w = (0x7FF0000000000000 < f64_magnitude w)"

definition f64_rank :: "u64 \<Rightarrow> int" where
  "f64_rank w = (if uint w < 2 ^ 63 then f64_magnitude w else - f64_magnitude w)"

definition f64_partial_cmp :: "u64 \<Rightarrow> u64 \<Rightarrow> ordering option" where
  "f64_partial_cmp x y = (if f64_is_nan x \<or> f64_is_nan y then None else Some (compare (f64_rank x) (f64_rank y)))"

definition f64_cmp :: "u64 \<Rightarrow> u64 \<Rightarrow> ordering" where
  "f64_cmp x y = (case f64_partial_cmp x y of Some r \<Rightarrow> r | None \<Rightarrow> Equal)"

section \<open>The order of hits\<close>

definition compare_present :: "json \<Rightarrow> json \<Rightarrow> ordering" where
  "compare_present x y =
     (case (as_i64 x, as_i64 y) of
        (Some nx, Some ny) \<Rightarrow> compare nx ny
      | _ \<Rightarrow>
          (case (as_f64 x, as_f64 y) of
             (Some nx, Some ny) \<Rightarrow> f64_cmp nx ny
           | _ \<Rightarrow>
               (case (as_str x, as_str y) of
                  (Some sx, Some sy) \<Rightarrow> compare sx sy
                | _ \<Rightarrow> Equal)))"

definition compare_sort_values :: "json option \<Rightarrow> json option \<Rightarrow> sort_order \<Rightarrow> ordering" where
  "compare_sort_values a b order =
     (case (a, b) of
        (Some x, Some y) \<Rightarrow>
          (case order of Asc \<Rightarrow> compare_present x y | Desc \<Rightarrow> reverse_ordering (compare_present x y))
      | (Some _, None) \<Rightarrow> Less
      | (None, Some _) \<Rightarrow> Greater
      | (None, None) \<Rightarrow> Equal)"

definition SORT_KEY_FIELD :: string where
  "SORT_KEY_FIELD = ''_sort_key''"

definition hit_get :: "json \<Rightarrow> string \<Rightarrow> json option" where
  "hit_get hit k = Option.bind (as_object hit) (\<lambda>m. m_get m k)"

definition compare_hits_by_field :: "json \<Rightarrow> json \<Rightarrow> string \<Rightarrow> sort_order \<Rightarrow> ordering" where
  "compare_hits_by_field a b field order = compare_sort_values (hit_get a field) (hit_get b field) order"

definition hit_score :: "json \<Rightarrow> u64" where
  "hit_score hit = (case Option.bind (hit_get hit ''_score'') as_f64 of Some s \<Rightarrow> s | None \<Rightarrow> 0)"

definition compare_hits_primary :: "sort_order option \<Rightarrow> json \<Rightarrow> json \<Rightarrow> ordering" where
  "compare_hits_primary spec a b =
     (case spec of
        Some order \<Rightarrow> compare_hits_by_field a b SORT_KEY_FIELD order
      | None \<Rightarrow> f64_cmp (hit_score b) (hit_score a))"

section \<open>Windows\<close>

record search_window =
  sw_offset :: nat
  sw_limit :: nat

definition window_checked :: "nat option \<Rightarrow> nat option \<Rightarrow> nat \<Rightarrow> nat \<Rightarrow> (window_error, search_window) result" where
  "window_checked limit offset default_limit max_search_limit =
     and_then (checked_search_window limit offset default_limit max_search_limit) (\<lambda>(offset, limit).
       Ok \<lparr>sw_offset = offset, sw_limit = limit\<rparr>)"

definition fetch_count :: "search_window \<Rightarrow> nat" where
  "fetch_count w = sat_add64 (sw_offset w) (sw_limit w)"

definition window_apply :: "search_window \<Rightarrow> 'a list \<Rightarrow> 'a list" where
  "window_apply w ordered = take (sw_limit w) (drop (sw_offset w) ordered)"

section \<open>The merge\<close>

fun rank_blocks :: "nat \<Rightarrow> 'a list list \<Rightarrow> (nat \<times> nat \<times> 'a) list" where
  "rank_blocks rank [] = []"
| "rank_blocks rank (hits # blocks) = map (\<lambda>(position, hit). (rank, position, hit)) (enumerate 0 hits) @ rank_blocks (Suc rank) blocks"

fun compare_ranked :: "('a \<Rightarrow> 'a \<Rightarrow> ordering) \<Rightarrow> nat \<times> nat \<times> 'a \<Rightarrow> nat \<times> nat \<times> 'a \<Rightarrow> ordering" where
  "compare_ranked primary (left_rank, left_position, left) (right_rank, right_position, right) =
     then_with (then_with (primary left right) (compare left_rank right_rank)) (compare left_position right_position)"

definition order_hit_blocks :: "json list list \<Rightarrow> sort_order option \<Rightarrow> search_window \<Rightarrow> json list" where
  "order_hit_blocks blocks spec window =
     map (\<lambda>(_, _, hit). hit)
       (window_apply window (sort_by (compare_ranked (compare_hits_primary spec)) (rank_blocks 0 blocks)))"

section \<open>Merging under a total order\<close>

text \<open>
  What the merge relies on: on the hits it is given, the primary comparison is a total preorder. Ties it
  leaves are settled by rank and position.
\<close>

locale hit_order =
  fixes cmp :: "'a \<Rightarrow> 'a \<Rightarrow> ordering" and A :: "'a set"
  assumes flip: "x \<in> A \<Longrightarrow> y \<in> A \<Longrightarrow> cmp y x = reverse_ordering (cmp x y)"
    and trans: "x \<in> A \<Longrightarrow> y \<in> A \<Longrightarrow> z \<in> A \<Longrightarrow> cmp x y \<noteq> Greater \<Longrightarrow> cmp y z \<noteq> Greater \<Longrightarrow> cmp x z \<noteq> Greater"

lemma reverse_ordering_iff [simp]:
  "reverse_ordering r = Greater \<longleftrightarrow> r = Less" "reverse_ordering r = Less \<longleftrightarrow> r = Greater"
  "reverse_ordering r = Equal \<longleftrightarrow> r = Equal" "reverse_ordering (reverse_ordering r) = r"
  by (cases r; simp)+

lemma compare_iff [simp]:
  "compare x y = Less \<longleftrightarrow> x < y" "compare x y = Equal \<longleftrightarrow> x = y" "compare x y = Greater \<longleftrightarrow> y < x"
  by (auto simp: compare_def)

lemma compare_flip: "compare y x = reverse_ordering (compare x y)"
  by (auto simp: compare_def)

lemma then_with_iff [simp]:
  "then_with a b = Greater \<longleftrightarrow> a = Greater \<or> a = Equal \<and> b = Greater"
  "then_with a b = Less \<longleftrightarrow> a = Less \<or> a = Equal \<and> b = Less"
  "then_with a b = Equal \<longleftrightarrow> a = Equal \<and> b = Equal"
  by (auto simp: then_with_def)

lemma set_insert_by [simp]: "mset (insert_by cmp x ys) = add_mset x (mset ys)"
  by (induction ys) auto

lemma mset_sort_by [simp]: "mset (sort_by cmp xs) = mset xs"
  unfolding sort_by_def by (induction xs) simp_all

lemma set_sort_by [simp]: "set (sort_by cmp xs) = set xs"
  by (metis mset_sort_by set_mset_mset)

lemma take_filter_all: "\<forall>x \<in> set (take n xs). P x \<Longrightarrow> take n (filter P xs) = take n xs"
proof (induction xs arbitrary: n)
  case (Cons x xs)
  then show ?case by (cases n) auto
qed simp

lemma strict_sorted_unique:
  assumes "sorted_wrt lt xs" "sorted_wrt lt ys" "set xs = set ys"
    and "\<forall>x \<in> set xs. \<forall>y \<in> set xs. lt x y \<longrightarrow> \<not> lt y x"
  shows "xs = ys"
  using assms
proof (induction xs arbitrary: ys)
  case (Cons x xs)
  from Cons.prems(3) obtain y zs where ys: "ys = y # zs" by (cases ys) auto
  have asym: "\<not> (lt a b \<and> lt b a)" if "a \<in> set (x # xs)" "b \<in> set (x # xs)" for a b
    using Cons.prems(4) that by blast
  have below: "\<forall>z \<in> set xs. lt x z" "\<forall>z \<in> set zs. lt y z" using Cons.prems(1,2) ys by simp_all
  have y: "y \<in> set (x # xs)" using Cons.prems(3) ys by simp
  have xy: "x = y"
  proof (rule ccontr)
    assume "x \<noteq> y"
    then have "y \<in> set xs" "x \<in> set zs" using Cons.prems(3) ys by auto
    then have "lt x y" "lt y x" using below by blast+
    with asym [of x y] y show False by simp
  qed
  have "x \<notin> set xs" "x \<notin> set zs" using below asym [of x x] xy by auto
  then have same: "set xs = set zs" using Cons.prems(3) unfolding ys xy by (metis insert_ident list.simps(15))
  have "sorted_wrt lt xs" "sorted_wrt lt zs" using Cons.prems(1,2) ys by simp_all
  from Cons.IH [OF this same] Cons.prems(4) have "xs = zs" by simp
  then show ?case unfolding ys xy by (rule arg_cong)
qed simp

lemma in_rank_blocks:
  "(r, p, h) \<in> set (rank_blocks k blocks) \<longleftrightarrow>
   k \<le> r \<and> r - k < length blocks \<and> p < length (blocks ! (r - k)) \<and> h = blocks ! (r - k) ! p"
proof (induction k blocks rule: rank_blocks.induct)
  case (2 k hits blocks)
  have "(r, p, h) \<in> set (rank_blocks k (hits # blocks)) \<longleftrightarrow>
    r = k \<and> p < length hits \<and> h = hits ! p \<or> (r, p, h) \<in> set (rank_blocks (Suc k) blocks)"
    by (auto simp: in_set_enumerate_eq image_iff)
  also have "\<dots> \<longleftrightarrow> k \<le> r \<and> r - k < length (hits # blocks) \<and> p < length ((hits # blocks) ! (r - k)) \<and>
    h = (hits # blocks) ! (r - k) ! p"
  proof (cases "r \<le> k")
    case True
    then show ?thesis unfolding 2 by (cases "r = k") simp_all
  next
    case False
    then obtain d where "r = Suc (k + d)" using less_iff_Suc_add not_le by blast
    then show ?thesis unfolding 2 by (simp add: Suc_diff_le)
  qed
  finally show ?case .
qed simp

lemma rank_key_inj:
  "t \<in> set (rank_blocks k blocks) \<Longrightarrow> u \<in> set (rank_blocks k blocks) \<Longrightarrow>
   (fst t, fst (snd t)) = (fst u, fst (snd u)) \<Longrightarrow> t = u"
  by (cases t; cases u) (simp add: in_rank_blocks)

lemma distinct_rank_blocks: "distinct (rank_blocks k blocks)"
proof (induction k blocks rule: rank_blocks.induct)
  case (2 k hits blocks)
  have "distinct (map (\<lambda>(p, h). (k, p, h)) (enumerate 0 hits))"
    by (simp add: distinct_map inj_on_def)
  moreover have "set (map (\<lambda>(p, h). (k, p, h)) (enumerate 0 hits)) \<inter> set (rank_blocks (Suc k) blocks) = {}"
    by (auto simp: in_rank_blocks)
  ultimately show ?case using 2 by simp
qed simp

definition ranked_hits :: "'a set \<Rightarrow> (nat \<times> nat \<times> 'a) set" where
  "ranked_hits A = {(r, p, x). x \<in> A}"

context hit_order
begin

lemma ranked_flip:
  assumes "t \<in> ranked_hits A" "u \<in> ranked_hits A"
  shows "compare_ranked cmp u t = reverse_ordering (compare_ranked cmp t u)"
proof -
  obtain r p x where t: "t = (r, p, x)" "x \<in> A" using assms(1) by (auto simp: ranked_hits_def)
  obtain r' p' y where u: "u = (r', p', y)" "y \<in> A" using assms(2) by (auto simp: ranked_hits_def)
  note eqs = flip [OF t(2) u(2)] compare_flip [of r' r] compare_flip [of p' p]
  show ?thesis
    unfolding t(1) u(1) compare_ranked.simps eqs by (simp add: then_with_def)
qed

lemma ranked_trans:
  assumes "t \<in> ranked_hits A" "u \<in> ranked_hits A" "v \<in> ranked_hits A"
    and "compare_ranked cmp t u \<noteq> Greater" "compare_ranked cmp u v \<noteq> Greater"
  shows "compare_ranked cmp t v \<noteq> Greater"
proof -
  obtain r p x where t: "t = (r, p, x)" "x \<in> A" using assms(1) by (auto simp: ranked_hits_def)
  obtain r' p' y where u: "u = (r', p', y)" "y \<in> A" using assms(2) by (auto simp: ranked_hits_def)
  obtain r'' p'' z where v: "v = (r'', p'', z)" "z \<in> A" using assms(3) by (auto simp: ranked_hits_def)
  have xy: "cmp x y \<noteq> Greater" "cmp y z \<noteq> Greater" using assms(4,5) t u v by auto
  note xz = trans [OF t(2) u(2) v(2) xy]
  have eq: "cmp x y = Equal \<and> cmp y z = Equal" if "cmp x z = Equal"
  proof -
    have zx: "cmp z x \<noteq> Greater" using flip [OF t(2) v(2)] that by simp
    have "cmp y x \<noteq> Greater" by (rule trans [OF u(2) v(2) t(2) xy(2) zx])
    moreover have "cmp z y \<noteq> Greater" by (rule trans [OF v(2) t(2) u(2) zx xy(1)])
    ultimately show ?thesis
      using flip [OF t(2) u(2)] flip [OF u(2) v(2)] xy by (cases "cmp x y"; cases "cmp y z") auto
  qed
  show ?thesis
    using assms(4,5) xz eq unfolding t u v by (auto simp del: not_less simp: not_less [symmetric])
qed

lemma ranked_less:
  assumes "t \<in> ranked_hits A" "u \<in> ranked_hits A" "compare_ranked cmp t u \<noteq> Greater" "(fst t, fst (snd t)) \<noteq> (fst u, fst (snd u))"
  shows "compare_ranked cmp t u = Less"
proof (cases "compare_ranked cmp t u")
  case Equal
  with assms(4) show ?thesis by (cases t; cases u) auto
qed (use assms(3) in auto)

lemma sorted_insert_by:
  assumes "x \<in> ranked_hits A" "set ys \<subseteq> ranked_hits A" "sorted_wrt (\<lambda>t u. compare_ranked cmp t u \<noteq> Greater) ys"
  shows "sorted_wrt (\<lambda>t u. compare_ranked cmp t u \<noteq> Greater) (insert_by (compare_ranked cmp) x ys)"
  using assms(2,3)
proof (induction ys)
  case (Cons y ys)
  have set: "set (insert_by (compare_ranked cmp) x ys) = insert x (set ys)"
    by (metis set_insert_by set_mset_add_mset_insert set_mset_mset)
  show ?case
  proof (cases "compare_ranked cmp x y = Greater")
    case True
    with ranked_flip [OF assms(1), of y] Cons set show ?thesis by simp
  next
    case False
    then have "\<forall>z \<in> set ys. compare_ranked cmp x z \<noteq> Greater"
      using ranked_trans [OF assms(1), of y] Cons.prems by auto
    with False Cons.prems show ?thesis by simp
  qed
qed simp

lemma sorted_sort_by:
  "set ts \<subseteq> ranked_hits A \<Longrightarrow> sorted_wrt (\<lambda>t u. compare_ranked cmp t u \<noteq> Greater) (sort_by (compare_ranked cmp) ts)"
proof (induction ts)
  case (Cons t ts)
  have "sort_by (compare_ranked cmp) (t # ts) = insert_by (compare_ranked cmp) t (sort_by (compare_ranked cmp) ts)"
    by (simp add: sort_by_def)
  with Cons sorted_insert_by [of t "sort_by (compare_ranked cmp) ts"] show ?case by simp
qed (simp add: sort_by_def)

lemma ranked_blocks_in:
  assumes "\<forall>b \<in> set blocks. set b \<subseteq> A"
  shows "set (rank_blocks 0 blocks) \<subseteq> ranked_hits A"
  using assms by (auto simp: ranked_hits_def in_rank_blocks) (meson nth_mem subsetD)

lemma ranked_asym:
  "t \<in> ranked_hits A \<Longrightarrow> u \<in> ranked_hits A \<Longrightarrow> compare_ranked cmp t u = Less \<Longrightarrow> compare_ranked cmp u t \<noteq> Less"
  using ranked_flip [of t u] by simp

lemma sorted_blocks:
  assumes "\<forall>b \<in> set blocks. set b \<subseteq> A"
  shows "sorted_wrt (\<lambda>t u. compare_ranked cmp t u = Less) (sort_by (compare_ranked cmp) (rank_blocks 0 blocks))"
proof -
  let ?S = "sort_by (compare_ranked cmp) (rank_blocks 0 blocks)"
  note inR = ranked_blocks_in [OF assms]
  have dist: "distinct ?S"
    by (metis distinct_rank_blocks mset_eq_imp_distinct_iff mset_sort_by)
  have "compare_ranked cmp (?S ! i) (?S ! j) = Less" if ij: "i < j" "j < length ?S" for i j
  proof (rule ranked_less)
    have mem: "?S ! i \<in> set (rank_blocks 0 blocks)" "?S ! j \<in> set (rank_blocks 0 blocks)"
      using ij nth_mem [of i ?S] nth_mem [of j ?S] by simp_all
    then show "?S ! i \<in> ranked_hits A" "?S ! j \<in> ranked_hits A" using inR by blast+
    show "compare_ranked cmp (?S ! i) (?S ! j) \<noteq> Greater"
      using sorted_sort_by [OF inR] ij by (simp add: sorted_wrt_iff_nth_less)
    have "?S ! i \<noteq> ?S ! j" using dist ij by (simp add: nth_eq_iff_index_eq)
    with rank_key_inj [OF mem] show "(fst (?S ! i), fst (snd (?S ! i))) \<noteq> (fst (?S ! j), fst (snd (?S ! j)))"
      by blast
  qed
  then show ?thesis by (simp add: sorted_wrt_iff_nth_less)
qed

text \<open>A hit among the first \<open>n\<close> of the merge is among the first \<open>n\<close> of its block: those before it in the block precede it.\<close>

lemma early_in_block:
  assumes "\<forall>b \<in> set blocks. set b \<subseteq> A" "\<forall>b \<in> set blocks. sorted_wrt (\<lambda>x y. cmp x y \<noteq> Greater) b"
    and "(r, p, h) \<in> set (take n (sort_by (compare_ranked cmp) (rank_blocks 0 blocks)))"
  shows "p < n"
proof (rule ccontr)
  let ?S = "sort_by (compare_ranked cmp) (rank_blocks 0 blocks)"
  assume late: "\<not> p < n"
  obtain i where i: "i < n" "i < length ?S" "?S ! i = (r, p, h)"
    using assms(3) by (auto simp: in_set_conv_nth)
  note inR = ranked_blocks_in [OF assms(1)] and S = sorted_blocks [OF assms(1)]
  have "(r, p, h) \<in> set (rank_blocks 0 blocks)" using i nth_mem [of i ?S] by simp
  then have t: "r < length blocks" "p < length (blocks ! r)" "h = blocks ! r ! p" by (simp_all add: in_rank_blocks)
  let ?f = "\<lambda>q. (r, q, blocks ! r ! q)"
  have "?f q \<in> set (take i ?S)" if q: "q < p" for q
  proof -
    have mem: "?f q \<in> set ?S" using q t by (simp add: in_rank_blocks)
    then obtain j where j: "j < length ?S" "?S ! j = ?f q" by (metis in_set_conv_nth)
    have "cmp (blocks ! r ! q) h \<noteq> Greater"
      using assms(2) t q by (simp add: sorted_wrt_iff_nth_less)
    then have lt: "compare_ranked cmp (?f q) (?S ! i) = Less"
      unfolding i(3) using q by (cases "cmp (blocks ! r ! q) h") simp_all
    have "\<not> i < j"
    proof
      assume "i < j"
      with S j have "compare_ranked cmp (?S ! i) (?f q) = Less" by (simp add: sorted_wrt_iff_nth_less flip: j(2))
      moreover have "?S ! i \<in> ranked_hits A" "?f q \<in> ranked_hits A" using inR i(2) mem nth_mem [of i ?S] by auto
      ultimately show False using ranked_asym lt by blast
    qed
    moreover have "j \<noteq> i" using j i q by auto
    ultimately show ?thesis using j by (metis in_set_conv_nth length_take linorder_neqE_nat min_less_iff_conj nth_take)
  qed
  then have "?f ` {..<p} \<subseteq> set (take i ?S)" by blast
  then have "card (?f ` {..<p}) \<le> card (set (take i ?S))" by (simp add: card_mono)
  moreover have "card (?f ` {..<p}) = p" by (simp add: card_image inj_on_def)
  moreover have "card (set (take i ?S)) \<le> i" by (rule order.trans [OF card_length]) simp
  ultimately show False using late i(1) by linarith
qed

lemma merged_prefix:
  assumes "\<forall>b \<in> set blocks. set b \<subseteq> A" "\<forall>b \<in> set blocks. sorted_wrt (\<lambda>x y. cmp x y \<noteq> Greater) b"
  shows "take n (sort_by (compare_ranked cmp) (rank_blocks 0 (map (take n) blocks))) =
    take n (sort_by (compare_ranked cmp) (rank_blocks 0 blocks))"
proof -
  let ?S = "sort_by (compare_ranked cmp) (rank_blocks 0 blocks)"
  let ?R = "set (rank_blocks 0 (map (take n) blocks))"
  have cut: "\<forall>b \<in> set (map (take n) blocks). set b \<subseteq> A" using assms(1) by (auto dest: in_set_takeD)
  have sub: "?R \<subseteq> set ?S" by (auto simp: in_rank_blocks)
  have inA: "set (filter (\<lambda>t. t \<in> ?R) ?S) \<subseteq> ranked_hits A" using ranked_blocks_in [OF assms(1)] by auto
  have "filter (\<lambda>t. t \<in> ?R) ?S = sort_by (compare_ranked cmp) (rank_blocks 0 (map (take n) blocks))"
  proof (rule strict_sorted_unique)
    show "sorted_wrt (\<lambda>t u. compare_ranked cmp t u = Less) (filter (\<lambda>t. t \<in> ?R) ?S)"
      by (rule sorted_wrt_filter [OF sorted_blocks [OF assms(1)]])
    show "sorted_wrt (\<lambda>t u. compare_ranked cmp t u = Less) (sort_by (compare_ranked cmp) (rank_blocks 0 (map (take n) blocks)))"
      by (rule sorted_blocks [OF cut])
    show "set (filter (\<lambda>t. t \<in> ?R) ?S) = set (sort_by (compare_ranked cmp) (rank_blocks 0 (map (take n) blocks)))"
      using sub by auto
    show "\<forall>t \<in> set (filter (\<lambda>t. t \<in> ?R) ?S). \<forall>u \<in> set (filter (\<lambda>t. t \<in> ?R) ?S).
      compare_ranked cmp t u = Less \<longrightarrow> compare_ranked cmp u t \<noteq> Less"
      using ranked_asym inA by blast
  qed
  moreover have "\<forall>t \<in> set (take n ?S). t \<in> ?R"
  proof
    fix t assume t: "t \<in> set (take n ?S)"
    obtain r p h where rph: "t = (r, p, h)" by (rule prod_cases3)
    have "t \<in> set (rank_blocks 0 blocks)" using t in_set_takeD by fastforce
    with early_in_block [OF assms, of r p h n] t rph show "t \<in> ?R" by (simp add: in_rank_blocks)
  qed
  ultimately show ?thesis using take_filter_all [of n ?S "\<lambda>t. t \<in> ?R"] by simp
qed

end

section \<open>The comparisons of hits\<close>

text \<open>
  The primary comparison is a total preorder where the keys are of one kind: integers that fit an
  \<open>i64\<close>, texts, or doubles that are numbers, each possibly absent; or where the scores are numbers.
\<close>

definition keyed :: "(json \<Rightarrow> bool) \<Rightarrow> json \<Rightarrow> bool" where
  "keyed P hit = (case hit_get hit SORT_KEY_FIELD of None \<Rightarrow> True | Some v \<Rightarrow> P v)"

fun is_text :: "json \<Rightarrow> bool" where
  "is_text (JString _) = True"
| "is_text _ = False"

fun is_real :: "json \<Rightarrow> bool" where
  "is_real (JNumber (Float f)) = (\<not> f64_is_nan f)"
| "is_real _ = False"

definition comparable :: "sort_order option \<Rightarrow> json list \<Rightarrow> bool" where
  "comparable spec hits =
     (case spec of
        None \<Rightarrow> list_all (\<lambda>h. \<not> f64_is_nan (hit_score h)) hits
      | Some _ \<Rightarrow> list_all (keyed is_i64) hits \<or> list_all (keyed is_text) hits \<or> list_all (keyed is_real) hits)"

lemma present_by_key:
  "is_i64 x \<Longrightarrow> is_i64 y \<Longrightarrow> compare_present x y = compare (the (as_i64 x)) (the (as_i64 y))"
  "is_text x \<Longrightarrow> is_text y \<Longrightarrow> compare_present x y = compare (the (as_str x)) (the (as_str y))"
  "is_real x \<Longrightarrow> is_real y \<Longrightarrow> compare_present x y = compare (f64_rank (the (as_f64 x))) (f64_rank (the (as_f64 y)))"
  by (auto simp: compare_present_def is_i64_def f64_cmp_def f64_partial_cmp_def elim!: is_text.elims is_real.elims)

text \<open>A comparison by a key, absent values last, is one whatever the order asked for.\<close>

lemma sort_values_flip:
  assumes "\<And>x y. P x \<Longrightarrow> P y \<Longrightarrow> compare_present x y = compare (k x) (k y)"
    and "pred_option P a" "pred_option P b"
  shows "compare_sort_values b a order = reverse_ordering (compare_sort_values a b order)"
proof (cases a; cases b)
  fix x y assume xy: "a = Some x" "b = Some y"
  with assms(2,3) have "compare_present x y = compare (k x) (k y)" "compare_present y x = compare (k y) (k x)"
    using assms(1) by simp_all
  with xy compare_flip [of "k x" "k y"] show ?thesis by (cases order) (simp_all add: compare_sort_values_def)
qed (simp_all add: compare_sort_values_def)

lemma sort_values_trans:
  assumes "\<And>x y. P x \<Longrightarrow> P y \<Longrightarrow> compare_present x y = compare (k x) (k y)"
    and "pred_option P a" "pred_option P b" "pred_option P c"
    and "compare_sort_values a b order \<noteq> Greater" "compare_sort_values b c order \<noteq> Greater"
  shows "compare_sort_values a c order \<noteq> Greater"
  using assms(2-6)
  by (cases a; cases b; cases c; cases order) (auto simp: compare_sort_values_def assms(1))

lemma hit_order_by_key:
  assumes "\<And>x y. P x \<Longrightarrow> P y \<Longrightarrow> compare_present x y = compare (k x) (k y)"
  shows "hit_order (compare_hits_primary (Some order)) {h. keyed P h}"
proof -
  have key: "pred_option P (hit_get h SORT_KEY_FIELD)" if "keyed P h" for h
    using that by (auto simp: keyed_def split: option.splits)
  show ?thesis
  proof (unfold_locales, unfold compare_hits_primary_def compare_hits_by_field_def option.case)
    fix x y z assume "x \<in> {h. keyed P h}" "y \<in> {h. keyed P h}"
    then have xy: "pred_option P (hit_get x SORT_KEY_FIELD)" "pred_option P (hit_get y SORT_KEY_FIELD)"
      using key by simp_all
    show "compare_sort_values (hit_get y SORT_KEY_FIELD) (hit_get x SORT_KEY_FIELD) order =
      reverse_ordering (compare_sort_values (hit_get x SORT_KEY_FIELD) (hit_get y SORT_KEY_FIELD) order)"
      by (rule sort_values_flip [OF assms xy])
    assume "z \<in> {h. keyed P h}"
    then have z: "pred_option P (hit_get z SORT_KEY_FIELD)" using key by simp
    assume "compare_sort_values (hit_get x SORT_KEY_FIELD) (hit_get y SORT_KEY_FIELD) order \<noteq> Greater"
      "compare_sort_values (hit_get y SORT_KEY_FIELD) (hit_get z SORT_KEY_FIELD) order \<noteq> Greater"
    then show "compare_sort_values (hit_get x SORT_KEY_FIELD) (hit_get z SORT_KEY_FIELD) order \<noteq> Greater"
      using sort_values_trans [of P k, OF assms xy z] by blast
  qed
qed

interpretation by_int: hit_order "compare_hits_primary (Some order)" "{h. keyed is_i64 h}" for order
  by (rule hit_order_by_key) (rule present_by_key(1))

interpretation by_text: hit_order "compare_hits_primary (Some order)" "{h. keyed is_text h}" for order
  by (rule hit_order_by_key) (rule present_by_key(2))

interpretation by_real: hit_order "compare_hits_primary (Some order)" "{h. keyed is_real h}" for order
  by (rule hit_order_by_key) (rule present_by_key(3))

interpretation by_score: hit_order "compare_hits_primary None" "{h. \<not> f64_is_nan (hit_score h)}"
proof
  show "compare_hits_primary None y x = reverse_ordering (compare_hits_primary None x y)"
    if "x \<in> {h. \<not> f64_is_nan (hit_score h)}" "y \<in> {h. \<not> f64_is_nan (hit_score h)}" for x y
    using that compare_flip [of "f64_rank (hit_score x)" "f64_rank (hit_score y)"]
    by (simp add: compare_hits_primary_def f64_cmp_def f64_partial_cmp_def)
qed (auto simp: compare_hits_primary_def f64_cmp_def f64_partial_cmp_def)

lemma merge_of_prefixes:
  assumes "comparable spec (concat blocks)" "\<forall>b \<in> set blocks. sorted_wrt (\<lambda>x y. compare_hits_primary spec x y \<noteq> Greater) b"
  shows "take n (sort_by (compare_ranked (compare_hits_primary spec)) (rank_blocks 0 (map (take n) blocks))) =
    take n (sort_by (compare_ranked (compare_hits_primary spec)) (rank_blocks 0 blocks))"
proof -
  have in_kind: "\<forall>b \<in> set blocks. set b \<subseteq> {h. P h}" if "list_all P (concat blocks)" for P
    using that by (auto simp: list_all_iff)
  show ?thesis
  proof (cases spec)
    case None
    with assms(1) in_kind have "\<forall>b \<in> set blocks. set b \<subseteq> {h. \<not> f64_is_nan (hit_score h)}" by (simp add: comparable_def)
    from by_score.merged_prefix [OF this, of n] assms(2) show ?thesis unfolding None by simp
  next
    case (Some order)
    with assms(1) consider "list_all (keyed is_i64) (concat blocks)" | "list_all (keyed is_text) (concat blocks)"
      | "list_all (keyed is_real) (concat blocks)" by (auto simp: comparable_def)
    then show ?thesis
    proof cases
      case 1
      from by_int.merged_prefix [OF in_kind [OF 1]] assms(2) show ?thesis unfolding Some .
    next
      case 2
      from by_text.merged_prefix [OF in_kind [OF 2]] assms(2) show ?thesis unfolding Some .
    next
      case 3
      from by_real.merged_prefix [OF in_kind [OF 3]] assms(2) show ?thesis unfolding Some .
    qed
  qed
qed

section \<open>Properties\<close>

text \<open>
  C9: A page of a merged search is the page of everything. Where every source hands back its hits in the
  order asked for and the keys compare, asking each source for \<open>offset + limit\<close> hits gives, after the merge,
  the same window as asking for all of them, at any depth a request may page to.
\<close>

theorem fetch_count_suffices:
  assumes "comparable spec (concat blocks)"
    and "\<forall>b \<in> set blocks. sorted_wrt (\<lambda>x y. compare_hits_primary spec x y \<noteq> Greater) b"
    and "window_checked limit offset default_limit max_search_limit = Inr w" "max_search_limit < u64_max"
  shows "order_hit_blocks (map (take (fetch_count w)) blocks) spec w = order_hit_blocks blocks spec w"
proof -
  have "fetch_count w \<le> max_search_limit"
    using assms(3) by (auto simp: window_checked_def checked_search_window_def and_then_Ok_iff Let_def fetch_count_def
        sat_add_def split: if_splits)
  then have n: "fetch_count w = sw_limit w + sw_offset w"
    using assms(4) by (auto simp: fetch_count_def sat_add64_def)
  show ?thesis
    using merge_of_prefixes [OF assms(1,2), of "fetch_count w"]
    by (simp add: order_hit_blocks_def window_apply_def take_drop n)
qed

definition key_hit :: "nat \<Rightarrow> json" where
  "key_hit k = JObject [(''_sort_key'', JNumber (PosInt k))]"

theorem fetch_count_suffices_witness:
  "order_hit_blocks (map (take 2) [[key_hit 1, key_hit 4, key_hit 6], [key_hit 2, key_hit 3]]) (Some Asc)
     \<lparr>sw_offset = 1, sw_limit = 1\<rparr> = [key_hit 2]"
proof -
  let ?blocks = "[[key_hit 1, key_hit 4, key_hit 6], [key_hit 2, key_hit 3]]" and ?w = "\<lparr>sw_offset = 1, sw_limit = 1\<rparr>"
  have c: "comparable (Some Asc) (concat ?blocks)" by code_simp
  have "\<forall>b \<in> set ?blocks. sorted_wrt (\<lambda>x y. compare_hits_primary (Some Asc) x y \<noteq> Greater) b" by code_simp
  moreover have "window_checked (Some 1) (Some 1) 10 100 = Inr ?w" by code_simp
  moreover have "(100 :: nat) < u64_max" by (simp add: u64_max_def)
  ultimately have "order_hit_blocks (map (take (fetch_count ?w)) ?blocks) (Some Asc) ?w = order_hit_blocks ?blocks (Some Asc) ?w"
    by (rule fetch_count_suffices [OF c])
  moreover have "fetch_count ?w = 2" by code_simp
  moreover have "order_hit_blocks ?blocks (Some Asc) ?w = [key_hit 2]" by code_simp
  ultimately show ?thesis by simp
qed

lemma f64_cmp_same: "f64_cmp w w = Equal"
  by (simp add: f64_cmp_def f64_partial_cmp_def)

lemma f64_rounds:
  "f64_of_nat 9223372036854775809 = f64_of_nat 9223372036854775808"
  "f64_of_nat 9223372036854775807 = f64_of_nat 9223372036854775808"
  "f64_of_nat 9223372036854775806 = f64_of_nat 9223372036854775808"
  by (simp_all add: f64_of_nat_def Let_def bit_length.simps)

text \<open>The comparison of two keys of which one does not fit an \<open>i64\<close>.\<close>

lemma compare_large_keys:
  assumes "2 ^ 63 \<le> max k l" "f64_of_nat k = f64_of_nat l"
  shows "compare_hits_primary (Some Asc) (key_hit k) (key_hit l) = Equal"
proof -
  have "as_i64 (JNumber (PosInt k)) = None \<or> as_i64 (JNumber (PosInt l)) = None"
    using assms(1) by (auto simp: i64_max_def max_def split: if_splits)
  moreover have "f64_of_int (int k) = f64_of_int (int l)" using assms(2) by (simp add: f64_of_int_def)
  ultimately show ?thesis
    by (auto simp: compare_hits_primary_def compare_hits_by_field_def compare_sort_values_def compare_present_def
        key_hit_def hit_get_def SORT_KEY_FIELD_def m_get_def f64_cmp_same simp del: as_i64.simps split: option.splits)
qed

lemma compare_small_keys:
  "k < 2 ^ 63 \<Longrightarrow> l < 2 ^ 63 \<Longrightarrow> compare_hits_primary (Some Asc) (key_hit k) (key_hit l) = compare k l"
  by (auto simp: compare_hits_primary_def compare_hits_by_field_def compare_sort_values_def compare_present_def
      key_hit_def hit_get_def SORT_KEY_FIELD_def m_get_def i64_max_def compare_def)


end
