(* ===== verification/Spec2Isabelle.thy ===== *)
theory Spec2Isabelle
  imports Cluster_Ring Doc_Validation Routing Schema_Change Store_Props Authz_Props Mcp_Session Query_Text Search_Merge
begin

text \<open>A verification of the CameoDB search server.\<close>

end
